(* ===== verification/Prelude.thy ===== *)
theory Prelude
  imports Main "HOL-Library.Word"
begin

text \<open>
  Shared vocabulary of the development: the machine integer types of the C++ sources, the
  exceptions they throw as values, sequencing of fallible operations, and the generic list
  lemmas the components use.

  A C++ function that may throw returns \<open>exn + 'a\<close>: \<open>Inl e\<close> is the thrown exception (the
  constructor is its class, the string is its message), \<open>Inr x\<close> the returned value.
  \<open>Out_Of_Bounds\<close> and \<open>Signed_Overflow\<close> are no exceptions of the program: they stand for an access
  outside a span or an array and for a signed addition or subtraction whose result does not fit,
  which C++ leaves undefined, so that a model that could reach one says so.
\<close>

type_synonym u8 = "8 word"
type_synonym u16 = "16 word"
type_synonym u32 = "32 word"
type_synonym u64 = "64 word"

datatype exn =
    Invalid_Argument string
  | Runtime_Error string
  | Overflow_Error string
  | Logic_Error string
  | Out_Of_Bounds
  | Signed_Overflow

named_theorems res_simps \<open>rewrite rules for sequences of fallible operations\<close>

definition and_then :: "exn + 'a \<Rightarrow> ('a \<Rightarrow> exn + 'b) \<Rightarrow> exn + 'b" where
  "and_then m f = (case m of Inl e \<Rightarrow> Inl e | Inr x \<Rightarrow> f x)"

lemma and_then_simps [simp]:
  "and_then (Inl e) f = Inl e"
  "and_then (Inr x) f = f x"
  by (simp_all add: and_then_def)

text \<open>
  The simplifier evaluates the first operation before it looks at the rest, as the code does.
\<close>

lemma and_then_cong [cong]: "m = m' \<Longrightarrow> and_then m f = and_then m' f"
  by simp

lemma and_then_Inr_iff [res_simps]:
  "and_then m f = Inr y \<longleftrightarrow> (\<exists>x. m = Inr x \<and> f x = Inr y)"
  by (cases m) auto

text \<open>A guard that throws: the function returns only when the guard is false.\<close>

lemma guard_Inr_iff [res_simps]:
  "(if c then Inl e else m) = Inr y \<longleftrightarrow> \<not> c \<and> m = Inr y"
  by simp

lemma and_then_Inl_iff:
  "and_then m f = Inl e \<longleftrightarrow> m = Inl e \<or> (\<exists>x. m = Inr x \<and> f x = Inl e)"
  by (cases m) auto

definition is_ok :: "exn + 'a \<Rightarrow> bool" where
  "is_ok m = (case m of Inl _ \<Rightarrow> False | Inr _ \<Rightarrow> True)"

lemma is_ok_simps [simp]: "\<not> is_ok (Inl e)" "is_ok (Inr x)"
  by (simp_all add: is_ok_def)

lemma is_ok_iff: "is_ok m \<longleftrightarrow> (\<exists>x. m = Inr x)"
  by (cases m) auto

section \<open>Limits of the 64-bit types\<close>

abbreviation u64_max :: u64 where "u64_max \<equiv> - 1"

abbreviation int64_max :: int where "int64_max \<equiv> 9223372036854775807"
abbreviation int64_min :: int where "int64_min \<equiv> - 9223372036854775808"

definition in_int64 :: "int \<Rightarrow> bool" where
  "in_int64 i \<longleftrightarrow> int64_min \<le> i \<and> i \<le> int64_max"

text \<open>A signed 64-bit result: undefined behaviour when it does not fit.\<close>

definition signed64 :: "int \<Rightarrow> exn + int" where
  "signed64 i = (if in_int64 i then Inr i else Inl Signed_Overflow)"

lemma signed64_simps [simp]: "in_int64 i \<Longrightarrow> signed64 i = Inr i"
  by (simp add: signed64_def)

lemma signed64_Inr_iff [res_simps]: "signed64 i = Inr j \<longleftrightarrow> in_int64 i \<and> j = i"
  by (auto simp: signed64_def)

text \<open>Milliseconds where nanoseconds are expected.\<close>

definition in_nanoseconds :: "int \<Rightarrow> exn + int" where
  "in_nanoseconds ms = signed64 (ms * 1000000)"

lemma unat_less_2p: "unat (w :: 'a::len word) < 2 ^ LENGTH('a)"
  by (rule unsigned_less)

lemma unat_u64_less: "unat (w :: u64) < 18446744073709551616"
  using unat_less_2p [of w] by simp

lemma unat_u32_less: "unat (w :: u32) < 4294967296"
  using unat_less_2p [of w] by simp

lemma unat_u16_less: "unat (w :: u16) < 65536"
  using unat_less_2p [of w] by simp

lemma unat_u8_less: "unat (w :: u8) < 256"
  using unat_less_2p [of w] by simp

lemma unat_ucast_up:
  assumes "LENGTH('a) \<le> LENGTH('b)"
  shows "unat (ucast (w :: 'a::len word) :: 'b::len word) = unat w"
proof -
  have "unat w < 2 ^ LENGTH('b)"
    using unat_less_2p [of w] assms by (meson less_le_trans one_le_numeral power_increasing)
  then show ?thesis
    by (simp add: unsigned_ucast_eq take_bit_nat_eq_self_iff)
qed

lemma unat_ucast_u16_u64 [simp]: "unat (ucast (w :: u16) :: u64) = unat w"
  by (simp add: unat_ucast_up)

lemma unat_ucast_u32_u64 [simp]: "unat (ucast (w :: u32) :: u64) = unat w"
  by (simp add: unat_ucast_up)

lemma unat_u64_max: "unat u64_max = 18446744073709551615"
  by (simp add: unsigned_minus_1_eq_mask mask_eq_exp_minus_1)

lemma sint_u64: "unat (w :: u64) \<le> 9223372036854775807 \<Longrightarrow> sint w = int (unat w)"
proof -
  assume a: "unat w \<le> 9223372036854775807"
  define i where "i = int (unat w)"
  have "0 \<le> i \<and> i \<le> 9223372036854775807"
    unfolding i_def using a by linarith
  then have "signed_take_bit 63 i = i"
    by (intro signed_take_bit_int_eq_self) simp_all
  then show ?thesis by (simp add: sint_uint i_def)
qed

text \<open>An addition to a 64-bit value does not wrap exactly when the code's guard accepts it.\<close>

lemma u64_no_wrap_iff:
  "\<not> s > u64_max - ucast (f :: u16) \<longleftrightarrow> unat (s :: u64) + unat f < 18446744073709551616"
proof -
  have "unat (u64_max - ucast f :: u64) = 18446744073709551615 - unat f"
    using unat_u16_less [of f] unat_u64_max
    by (subst unat_sub) (simp_all add: word_le_nat_alt)
  then show ?thesis
    using unat_u16_less [of f] by (simp add: word_less_nat_alt not_less) linarith
qed

lemma unat_add_no_wrap:
  "unat (a :: u64) + unat b < 18446744073709551616 \<Longrightarrow> unat (a + b) = unat a + unat b"
  by (subst unat_add_lem [symmetric]) simp

lemma u64_less_add_1: "(t :: u64) \<noteq> u64_max \<Longrightarrow> t < t + 1"
proof -
  assume "t \<noteq> u64_max"
  then have "unat t \<noteq> unat u64_max" using unsigned_word_eqI by blast
  then have "unat t + unat (1 :: u64) < 18446744073709551616"
    using unat_u64_less [of t] unat_u64_max by simp
  then have "unat (t + 1) = unat t + 1" by (subst unat_add_no_wrap) simp_all
  then show ?thesis by (simp add: word_less_nat_alt)
qed

section \<open>Lists\<close>

lemma take_drop_append_exact:
  "length xs = n \<Longrightarrow> take n (xs @ ys) = xs"
  "length xs = n \<Longrightarrow> drop n (xs @ ys) = ys"
  by simp_all

lemma nth_Cons_numeral_drop: "n < length xs \<Longrightarrow> drop n xs = xs ! n # drop (Suc n) xs"
  by (rule Cons_nth_drop_Suc [symmetric])

end
