(* ===== verification/Wire_Bytes.thy ===== *)
theory Wire_Bytes
  imports Prelude
begin

text \<open>
  Big-endian integers on the wire. The writers and readers of \<open>PacketSerializer.cpp\<close> (a growing
  vector, a bounds-checked \<open>Reader\<close>) and of \<open>ClockSync.cpp\<close> (a span with an offset) both build
  their 16, 32 and 64-bit fields from bytes in the same way, so that way is stated once here:
  \<open>put16\<close>, \<open>put32\<close>, \<open>put64\<close> are the bytes of a field, \<open>get16\<close>, \<open>get32\<close>, \<open>get64\<close> its value, and
  \<open>read_be16\<close>, \<open>read_be32\<close>, \<open>read_be64\<close> are the readers over any byte source. The locale
  \<open>byte_source\<close> is the interface of a byte source; each serializer interprets it.
\<close>

unbundle bit_operations_syntax

section \<open>Bytes of a field\<close>

definition put16 :: "u16 \<Rightarrow> u8 list" where
  "put16 v = [ucast (drop_bit 8 v), ucast v]"

definition put32 :: "u32 \<Rightarrow> u8 list" where
  "put32 v = put16 (ucast (drop_bit 16 v)) @ put16 (ucast v)"

definition put64 :: "u64 \<Rightarrow> u8 list" where
  "put64 v = put32 (ucast (drop_bit 32 v)) @ put32 (ucast v)"

definition join16 :: "u8 \<Rightarrow> u8 \<Rightarrow> u16" where
  "join16 hi lo = push_bit 8 (ucast hi) OR ucast lo"

definition join32 :: "u16 \<Rightarrow> u16 \<Rightarrow> u32" where
  "join32 hi lo = push_bit 16 (ucast hi) OR ucast lo"

definition join64 :: "u32 \<Rightarrow> u32 \<Rightarrow> u64" where
  "join64 hi lo = push_bit 32 (ucast hi) OR ucast lo"

definition get16 :: "u8 list \<Rightarrow> u16" where
  "get16 bs = join16 (bs ! 0) (bs ! 1)"

definition get32 :: "u8 list \<Rightarrow> u32" where
  "get32 bs = join32 (get16 bs) (get16 (drop 2 bs))"

definition get64 :: "u8 list \<Rightarrow> u64" where
  "get64 bs = join64 (get32 bs) (get32 (drop 4 bs))"

lemma length_put [simp]:
  "length (put16 a) = 2" "length (put32 b) = 4" "length (put64 c) = 8"
  by (simp_all add: put16_def put32_def put64_def)

lemma join16_split [simp]: "join16 (ucast (drop_bit 8 v)) (ucast v) = v"
  by (rule bit_eqI) (auto simp: join16_def bit_simps)

lemma join32_split [simp]: "join32 (ucast (drop_bit 16 v)) (ucast v) = v"
  by (rule bit_eqI) (auto simp: join32_def bit_simps)

lemma join64_split [simp]: "join64 (ucast (drop_bit 32 v)) (ucast v) = v"
  by (rule bit_eqI) (auto simp: join64_def bit_simps)

lemma split_join16 [simp]:
  "ucast (drop_bit 8 (join16 hi lo)) = hi" "ucast (join16 hi lo) = lo"
  by (rule bit_eqI, auto simp: join16_def bit_simps dest: bit_imp_le_length)+

lemma split_join32 [simp]:
  "ucast (drop_bit 16 (join32 hi lo)) = hi" "ucast (join32 hi lo) = lo"
  by (rule bit_eqI, auto simp: join32_def bit_simps dest: bit_imp_le_length)+

lemma split_join64 [simp]:
  "ucast (drop_bit 32 (join64 hi lo)) = hi" "ucast (join64 hi lo) = lo"
  by (rule bit_eqI, auto simp: join64_def bit_simps dest: bit_imp_le_length)+

lemma get16_put16 [simp]: "get16 (put16 v @ bs) = v"
  by (simp add: get16_def put16_def)

lemma get32_put32 [simp]: "get32 (put32 v @ bs) = v"
  by (simp add: get32_def put32_def)

lemma get64_put64 [simp]: "get64 (put64 v @ bs) = v"
  by (simp add: get64_def put64_def)

lemma get_put [simp]: "get16 (put16 a) = a" "get32 (put32 b) = b" "get64 (put64 c) = c"
  using get16_put16 [of a "[]"] get32_put32 [of b "[]"] get64_put64 [of c "[]"] by simp_all

lemma put16_get16: "2 \<le> length bs \<Longrightarrow> put16 (get16 bs) = take 2 bs"
  by (cases bs; cases "tl bs") (auto simp: get16_def put16_def numeral_2_eq_2)

lemma put32_get32:
  assumes "4 \<le> length bs"
  shows "put32 (get32 bs) = take 4 bs"
proof -
  have "put32 (get32 bs) = take 2 bs @ take 2 (drop 2 bs)"
    using assms by (simp add: put32_def get32_def put16_get16)
  also have "\<dots> = take 4 bs"
    using take_add [of 2 2 bs] by simp
  finally show ?thesis .
qed

lemma put64_get64:
  assumes "8 \<le> length bs"
  shows "put64 (get64 bs) = take 8 bs"
proof -
  have "put64 (get64 bs) = take 4 bs @ take 4 (drop 4 bs)"
    using assms by (simp add: put64_def get64_def put32_get32)
  also have "\<dots> = take 8 bs"
    using take_add [of 4 4 bs] by simp
  finally show ?thesis .
qed

section \<open>Network byte order\<close>

text \<open>
  The number a byte string denotes when its first byte is the most significant one. The fields
  written by \<open>put16\<close>, \<open>put32\<close> and \<open>put64\<close> denote exactly the value they were given.
\<close>

fun be_value :: "u8 list \<Rightarrow> nat" where
  "be_value [] = 0"
| "be_value (b # bs) = unat b * 256 ^ length bs + be_value bs"

lemma be_value_append: "be_value (xs @ ys) = be_value xs * 256 ^ length ys + be_value ys"
  by (induction xs) (simp_all add: algebra_simps power_add)

lemma unat_split:
  assumes "LENGTH('b) + k = LENGTH('a)"
  shows "unat (ucast (drop_bit k (v :: 'a::len word)) :: 'b::len word) * 2 ^ k
           + unat v mod 2 ^ k = unat v"
proof -
  have "unat v < 2 ^ (LENGTH('b) + k)"
    using unat_less_2p [of v] assms by simp
  then have "unat v div 2 ^ k < 2 ^ LENGTH('b)"
    by (simp add: less_mult_imp_div_less power_add)
  then have "unat (ucast (drop_bit k v) :: 'b word) = unat v div 2 ^ k"
    by (simp only: unsigned_ucast_eq unsigned_drop_bit_eq)
      (simp add: take_bit_nat_eq_self_iff drop_bit_eq_div take_bit_nat_eq_self [OF unat_less_2p])
  then show ?thesis by (simp add: div_mult_mod_eq)
qed

lemma unat_ucast_mod: "unat (ucast (v :: 'a::len word) :: 'b::len word) = unat v mod 2 ^ LENGTH('b)"
  by (simp add: unsigned_ucast_eq take_bit_eq_mod)

lemma be_value_put16 [simp]: "be_value (put16 v) = unat v"
  using unat_split [where v = v and k = 8 and 'b = 8]
  by (simp add: put16_def unat_ucast_mod)

lemma be_value_put32 [simp]: "be_value (put32 v) = unat v"
  using unat_split [where v = v and k = 16 and 'b = 16]
  by (simp add: put32_def be_value_append unat_ucast_mod)

lemma be_value_put64 [simp]: "be_value (put64 v) = unat v"
  using unat_split [where v = v and k = 32 and 'b = 32]
  by (simp add: put64_def be_value_append unat_ucast_mod)

section \<open>Reading fields from a byte source\<close>

text \<open>
  The wider readers of both serializers call the narrower one twice, the most significant half
  first. They are written once over the byte reader \<open>rd\<close> of the serializer at hand.
\<close>

definition read_be16 :: "('r \<Rightarrow> exn + (u8 \<times> 'r)) \<Rightarrow> 'r \<Rightarrow> exn + (u16 \<times> 'r)" where
  "read_be16 rd r =
     and_then (rd r) (\<lambda>(hi, r1). and_then (rd r1) (\<lambda>(lo, r2). Inr (join16 hi lo, r2)))"

definition read_be32 :: "('r \<Rightarrow> exn + (u8 \<times> 'r)) \<Rightarrow> 'r \<Rightarrow> exn + (u32 \<times> 'r)" where
  "read_be32 rd r =
     and_then (read_be16 rd r) (\<lambda>(hi, r1).
       and_then (read_be16 rd r1) (\<lambda>(lo, r2). Inr (join32 hi lo, r2)))"

definition read_be64 :: "('r \<Rightarrow> exn + (u8 \<times> 'r)) \<Rightarrow> 'r \<Rightarrow> exn + (u64 \<times> 'r)" where
  "read_be64 rd r =
     and_then (read_be32 rd r) (\<lambda>(hi, r1).
       and_then (read_be32 rd r1) (\<lambda>(lo, r2). Inr (join64 hi lo, r2)))"

text \<open>
  A byte source: \<open>rest r\<close> are the bytes not read yet and \<open>adv n r\<close> is the source \<open>n\<close> bytes
  further on. Reading takes the first byte of the rest, or fails with \<open>err\<close> when none is left.
\<close>

locale byte_source =
  fixes rd :: "'r \<Rightarrow> exn + (u8 \<times> 'r)"
    and rest :: "'r \<Rightarrow> u8 list"
    and adv :: "nat \<Rightarrow> 'r \<Rightarrow> 'r"
    and err :: exn
  assumes rd_empty: "rest r = [] \<Longrightarrow> rd r = Inl err"
    and rd_byte: "rest r = b # bs \<Longrightarrow> rd r = Inr (b, adv 1 r)"
    and rest_adv: "rest (adv n r) = drop n (rest r)"
    and adv_adv: "adv m (adv n r) = adv (n + m) r"
begin

lemma read8: "rd r = (if rest r = [] then Inl err else Inr (rest r ! 0, adv 1 r))"
  by (cases "rest r") (simp_all add: rd_empty rd_byte)

lemma read16:
  "read_be16 rd r =
     (if 2 \<le> length (rest r) then Inr (get16 (rest r), adv 2 r) else Inl err)"
proof (cases "rest r")
  case Nil
  then show ?thesis by (simp add: read_be16_def rd_empty)
next
  case (Cons hi bs)
  then show ?thesis
    by (cases bs) (simp_all add: read_be16_def rd_byte rd_empty rest_adv adv_adv get16_def
        numeral_2_eq_2)
qed

lemma read32:
  "read_be32 rd r =
     (if 4 \<le> length (rest r) then Inr (get32 (rest r), adv 4 r) else Inl err)"
  by (auto simp: read_be32_def read16 rest_adv adv_adv get32_def)

lemma read64:
  "read_be64 rd r =
     (if 8 \<le> length (rest r) then Inr (get64 (rest r), adv 8 r) else Inl err)"
  by (auto simp: read_be64_def read32 rest_adv adv_adv get64_def)

lemmas read_simps = read8 read16 read32 read64 rest_adv adv_adv

end

end
