(* ===== verification/Audio_Packet.thy ===== *)
theory Audio_Packet
  imports Wire_Bytes
begin

text \<open>
  The \<open>SAUD\<close> audio datagram: \<open>AudioPacket\<close> of \<open>core/include/AudioPacket.hpp\<close> and
  \<open>PacketSerializer\<close> of \<open>core/src/PacketSerializer.cpp\<close>. The packet is a record with the
  struct's fields; the enumeration \<open>AudioSampleFormat\<close> has a fixed underlying byte, so any byte
  can be cast to it, and it is modelled as that byte. \<open>Reader\<close> is a record of the span and the
  offset; \<open>serialize\<close> and \<open>deserialize\<close> follow the code call by call.
\<close>

section \<open>Data\<close>

type_synonym AudioSampleFormat = u8

definition PcmS16LittleEndian :: AudioSampleFormat where
  "PcmS16LittleEndian = 1"

record AudioPacket =
  protocolVersion :: u8
  flags :: u16
  sessionId :: u64
  streamId :: u32
  sequenceNumber :: u32
  sampleRate :: u32
  channelCount :: u16
  sampleFormat :: AudioSampleFormat
  startFrame :: u64
  presentationTimestampNanoseconds :: u64
  frameCount :: u16
  pcmPayload :: "u8 list"

definition CurrentProtocolVersion :: u8 where
  "CurrentProtocolVersion = 2"

definition default_AudioPacket :: AudioPacket where
  "default_AudioPacket = \<lparr>
     protocolVersion = CurrentProtocolVersion, flags = 0, sessionId = 0, streamId = 1,
     sequenceNumber = 0, sampleRate = 0, channelCount = 0, sampleFormat = PcmS16LittleEndian,
     startFrame = 0, presentationTimestampNanoseconds = 0, frameCount = 0, pcmPayload = []\<rparr>"

definition HeaderSize :: nat where "HeaderSize = 52"
definition MaximumDatagramSize :: nat where "MaximumDatagramSize = 1200"
definition MaximumPayloadSize :: nat where
  "MaximumPayloadSize = MaximumDatagramSize - HeaderSize"

lemma sizes [simp]:
  "HeaderSize = 52" "MaximumDatagramSize = 1200" "MaximumPayloadSize = 1148"
  by (simp_all add: HeaderSize_def MaximumDatagramSize_def MaximumPayloadSize_def)

text \<open>The four magic bytes, the ASCII codes of \<open>SAUD\<close>.\<close>

definition magic :: "u8 list" where
  "magic = [83, 65, 85, 68]"

section \<open>Writers: a vector that grows\<close>

definition appendU8 :: "u8 list \<Rightarrow> u8 \<Rightarrow> u8 list" where
  "appendU8 output value = output @ [value]"

definition appendU16 :: "u8 list \<Rightarrow> u16 \<Rightarrow> u8 list" where
  "appendU16 output value =
     appendU8 (appendU8 output (ucast (drop_bit 8 value))) (ucast value)"

definition appendU32 :: "u8 list \<Rightarrow> u32 \<Rightarrow> u8 list" where
  "appendU32 output value =
     appendU16 (appendU16 output (ucast (drop_bit 16 value))) (ucast value)"

definition appendU64 :: "u8 list \<Rightarrow> u64 \<Rightarrow> u8 list" where
  "appendU64 output value =
     appendU32 (appendU32 output (ucast (drop_bit 32 value))) (ucast value)"

lemma append_simps:
  "appendU8 out a = out @ [a]"
  "appendU16 out b = out @ put16 b"
  "appendU32 out c = out @ put32 c"
  "appendU64 out d = out @ put64 d"
  by (simp_all add: appendU8_def appendU16_def appendU32_def appendU64_def
      put16_def put32_def put64_def)

section \<open>Reader: a span and an offset, every access checked\<close>

record Reader =
  reader_data :: "u8 list"
  reader_offset :: nat

definition make_reader :: "u8 list \<Rightarrow> Reader" where
  "make_reader data = \<lparr>reader_data = data, reader_offset = 0\<rparr>"

definition remaining :: "Reader \<Rightarrow> nat" where
  "remaining r = length (reader_data r) - reader_offset r"

definition truncated :: exn where
  "truncated = Invalid_Argument ''Audio packet is truncated''"

definition requireAvailable :: "Reader \<Rightarrow> nat \<Rightarrow> exn + unit" where
  "requireAvailable r count = (if count > remaining r then Inl truncated else Inr ())"

text \<open>\<open>data_[offset_++]\<close>: an index at or past the end of the span would be undefined.\<close>

definition readU8 :: "Reader \<Rightarrow> exn + (u8 \<times> Reader)" where
  "readU8 r =
     and_then (requireAvailable r 1) (\<lambda>_.
       if reader_offset r < length (reader_data r)
       then Inr (reader_data r ! reader_offset r, r\<lparr>reader_offset := reader_offset r + 1\<rparr>)
       else Inl Out_Of_Bounds)"

definition readU16 :: "Reader \<Rightarrow> exn + (u16 \<times> Reader)" where
  "readU16 = read_be16 readU8"

definition readU32 :: "Reader \<Rightarrow> exn + (u32 \<times> Reader)" where
  "readU32 = read_be32 readU8"

definition readU64 :: "Reader \<Rightarrow> exn + (u64 \<times> Reader)" where
  "readU64 = read_be64 readU8"

definition readBytes :: "Reader \<Rightarrow> nat \<Rightarrow> exn + (u8 list \<times> Reader)" where
  "readBytes r count =
     and_then (requireAvailable r count) (\<lambda>_.
       Inr (take count (drop (reader_offset r) (reader_data r)),
            r\<lparr>reader_offset := reader_offset r + count\<rparr>))"

definition reader_rest :: "Reader \<Rightarrow> u8 list" where
  "reader_rest r = drop (reader_offset r) (reader_data r)"

definition reader_adv :: "nat \<Rightarrow> Reader \<Rightarrow> Reader" where
  "reader_adv n r = r\<lparr>reader_offset := reader_offset r + n\<rparr>"

lemma reader_rest_make [simp]: "reader_rest (make_reader data) = data"
  by (simp add: reader_rest_def make_reader_def)

lemma length_reader_rest: "length (reader_rest r) = remaining r"
  by (simp add: reader_rest_def remaining_def)

interpretation packet_reader: byte_source readU8 reader_rest reader_adv truncated
proof unfold_locales
  fix r b bs n m
  show "readU8 r = Inl truncated" if "reader_rest r = []"
    using that by (simp add: readU8_def requireAvailable_def reader_rest_def remaining_def)
  show "readU8 r = Inr (b, reader_adv 1 r)" if cons: "reader_rest r = b # bs"
  proof -
    have "reader_offset r < length (reader_data r)"
      using cons by (cases "reader_offset r < length (reader_data r)") (simp_all add: reader_rest_def)
    moreover have "reader_data r ! reader_offset r = b"
      using cons by (simp add: reader_rest_def nth_via_drop)
    ultimately show ?thesis
      by (simp add: readU8_def requireAvailable_def remaining_def reader_adv_def)
  qed
  show "reader_rest (reader_adv n r) = drop n (reader_rest r)"
    by (simp add: reader_rest_def reader_adv_def add.commute)
  show "reader_adv m (reader_adv n r) = reader_adv (n + m) r"
    by (simp add: reader_adv_def add.assoc)
qed

lemma readBytes_eq:
  "readBytes r n =
     (if n \<le> length (reader_rest r) then Inr (take n (reader_rest r), reader_adv n r)
      else Inl truncated)"
  by (auto simp: readBytes_def requireAvailable_def remaining_def reader_adv_def
      reader_rest_def)

lemmas reader_simps =
  readU16_def readU32_def readU64_def readBytes_eq packet_reader.read_simps
  length_reader_rest [symmetric]

section \<open>Validation\<close>

definition bytesPerSample :: "AudioSampleFormat \<Rightarrow> exn + nat" where
  "bytesPerSample format =
     (if format \<noteq> PcmS16LittleEndian
      then Inl (Invalid_Argument ''Unsupported audio sample format'')
      else Inr 2)"

definition validate :: "AudioPacket \<Rightarrow> exn + unit" where
  "validate packet =
     (if protocolVersion packet \<noteq> CurrentProtocolVersion
      then Inl (Invalid_Argument ''Unsupported audio protocol version'')
      else if sampleRate packet < 8000 \<or> sampleRate packet > 192000
      then Inl (Invalid_Argument ''Audio packet sample rate is unsupported'')
      else if channelCount packet = 0 \<or> channelCount packet > 2
      then Inl (Invalid_Argument ''Audio packet channel count is unsupported'')
      else if streamId packet = 0 \<or> frameCount packet = 0
              \<or> startFrame packet > u64_max - ucast (frameCount packet)
              \<or> presentationTimestampNanoseconds packet > 9223372036854775807
      then Inl (Invalid_Argument ''Audio packet identifiers or timing are invalid'')
      else if pcmPayload packet = []
      then Inl (Invalid_Argument ''Audio packet PCM payload must not be empty'')
      else if length (pcmPayload packet) > MaximumPayloadSize
      then Inl (Invalid_Argument ''Audio packet exceeds the payload size limit'')
      else and_then (bytesPerSample (sampleFormat packet)) (\<lambda>perSample.
        let bytesPerFrame = perSample * unat (channelCount packet) in
        if length (pcmPayload packet) mod bytesPerFrame \<noteq> 0
        then Inl (Invalid_Argument ''PCM payload does not contain complete frames'')
        else if length (pcmPayload packet) div bytesPerFrame \<noteq> unat (frameCount packet)
        then Inl (Invalid_Argument ''PCM payload size does not match frame count'')
        else Inr ()))"

section \<open>Serialization\<close>

definition serialize :: "AudioPacket \<Rightarrow> exn + u8 list" where
  "serialize packet =
     and_then (validate packet) (\<lambda>_.
       if length (pcmPayload packet) > 65535
       then Inl (Invalid_Argument ''PCM payload cannot be represented on the wire'')
       else
         let output = magic;
             output = appendU8 output (protocolVersion packet);
             output = appendU8 output (of_nat HeaderSize);
             output = appendU16 output (flags packet);
             output = appendU64 output (sessionId packet);
             output = appendU32 output (sequenceNumber packet);
             output = appendU32 output (sampleRate packet);
             output = appendU16 output (channelCount packet);
             output = appendU8 output (sampleFormat packet);
             output = appendU8 output 0;
             output = appendU64 output (startFrame packet);
             output = appendU64 output (presentationTimestampNanoseconds packet);
             output = appendU16 output (of_nat (length (pcmPayload packet)));
             output = appendU16 output (frameCount packet);
             output = appendU32 output (streamId packet)
         in Inr (output @ pcmPayload packet))"

definition deserialize :: "u8 list \<Rightarrow> exn + AudioPacket" where
  "deserialize data =
     (if length data < HeaderSize
      then Inl (Invalid_Argument ''Audio packet is shorter than the header'')
      else if length data > MaximumDatagramSize
      then Inl (Invalid_Argument ''Audio datagram exceeds the MTU-safe limit'')
      else
        and_then (readBytes (make_reader data) (length magic)) (\<lambda>(receivedMagic, r).
        if receivedMagic \<noteq> magic
        then Inl (Invalid_Argument ''Audio packet magic is invalid'')
        else
        let packet = default_AudioPacket in
        and_then (readU8 r) (\<lambda>(v, r).
        let packet = packet\<lparr>protocolVersion := v\<rparr> in
        and_then (readU8 r) (\<lambda>(headerSize, r).
        if unat headerSize \<noteq> HeaderSize
        then Inl (Invalid_Argument ''Audio packet header size is unsupported'')
        else
        and_then (readU16 r) (\<lambda>(v, r). let packet = packet\<lparr>flags := v\<rparr> in
        and_then (readU64 r) (\<lambda>(v, r). let packet = packet\<lparr>sessionId := v\<rparr> in
        and_then (readU32 r) (\<lambda>(v, r). let packet = packet\<lparr>sequenceNumber := v\<rparr> in
        and_then (readU32 r) (\<lambda>(v, r). let packet = packet\<lparr>sampleRate := v\<rparr> in
        and_then (readU16 r) (\<lambda>(v, r). let packet = packet\<lparr>channelCount := v\<rparr> in
        and_then (readU8 r) (\<lambda>(v, r). let packet = packet\<lparr>sampleFormat := v\<rparr> in
        and_then (readU8 r) (\<lambda>(_, r).
        and_then (readU64 r) (\<lambda>(v, r). let packet = packet\<lparr>startFrame := v\<rparr> in
        and_then (readU64 r) (\<lambda>(v, r).
        let packet = packet\<lparr>presentationTimestampNanoseconds := v\<rparr> in
        and_then (readU16 r) (\<lambda>(payloadSize, r).
        and_then (readU16 r) (\<lambda>(v, r). let packet = packet\<lparr>frameCount := v\<rparr> in
        and_then (readU32 r) (\<lambda>(v, r). let packet = packet\<lparr>streamId := v\<rparr> in
        if remaining r \<noteq> unat payloadSize
        then Inl (Invalid_Argument ''Audio packet payload size is inconsistent'')
        else
        and_then (readBytes r (unat payloadSize)) (\<lambda>(payload, r).
        let packet = packet\<lparr>pcmPayload := payload\<rparr> in
        and_then (validate packet) (\<lambda>_. Inr packet))))))))))))))))))"

section \<open>The packet a valid datagram denotes\<close>

text \<open>The fields at the offsets of the README's header table, and the payload behind them.\<close>

definition decode :: "u8 list \<Rightarrow> AudioPacket" where
  "decode data = \<lparr>
     protocolVersion = data ! 4,
     flags = get16 (drop 6 data),
     sessionId = get64 (drop 8 data),
     streamId = get32 (drop 48 data),
     sequenceNumber = get32 (drop 16 data),
     sampleRate = get32 (drop 20 data),
     channelCount = get16 (drop 24 data),
     sampleFormat = data ! 26,
     startFrame = get64 (drop 28 data),
     presentationTimestampNanoseconds = get64 (drop 36 data),
     frameCount = get16 (drop 46 data),
     pcmPayload = drop 52 data\<rparr>"

text \<open>
  Every read of the header succeeds once the length has been checked, so \<open>deserialize\<close> is a
  sequence of comparisons on \<open>decode data\<close>.
\<close>

lemma deserialize_eq:
  "deserialize data =
     (if length data < 52
      then Inl (Invalid_Argument ''Audio packet is shorter than the header'')
      else if length data > 1200
      then Inl (Invalid_Argument ''Audio datagram exceeds the MTU-safe limit'')
      else if take 4 data \<noteq> magic
      then Inl (Invalid_Argument ''Audio packet magic is invalid'')
      else if unat (data ! 5) \<noteq> 52
      then Inl (Invalid_Argument ''Audio packet header size is unsupported'')
      else if length data - 52 \<noteq> unat (get16 (drop 44 data))
      then Inl (Invalid_Argument ''Audio packet payload size is inconsistent'')
      else and_then (validate (decode data)) (\<lambda>_. Inr (decode data)))"
proof -
  have l: "length magic = 4" by (simp add: magic_def)
  consider (size) "length data < 52 \<or> 1200 < length data"
    | (magic) "52 \<le> length data" "length data \<le> 1200" "take 4 data \<noteq> magic"
    | (header) "52 \<le> length data" "length data \<le> 1200" "take 4 data = magic"
        "unat (data ! 5) \<noteq> 52"
    | (reads) "52 \<le> length data" "length data \<le> 1200" "take 4 data = magic"
        "unat (data ! 5) = 52"
    by linarith
  then show ?thesis
  proof cases
    case size
    then show ?thesis by (auto simp: deserialize_def)
  next
    case magic
    then show ?thesis by (simp add: deserialize_def reader_simps l)
  next
    case header
    then show ?thesis by (simp add: deserialize_def reader_simps l)
  next
    case reads
    then show ?thesis
      by (simp add: deserialize_def reader_simps Let_def l default_AudioPacket_def
          Nat.le_diff_conv2 decode_def [symmetric])
        (simp add: decode_def cong del: and_then_cong)
  qed
qed

section \<open>What the checks accept\<close>

definition packet_valid :: "AudioPacket \<Rightarrow> bool" where
  "packet_valid p \<longleftrightarrow>
     protocolVersion p = 2 \<and> 8000 \<le> unat (sampleRate p) \<and> unat (sampleRate p) \<le> 192000 \<and>
     (channelCount p = 1 \<or> channelCount p = 2) \<and> streamId p \<noteq> 0 \<and> frameCount p \<noteq> 0 \<and>
     unat (startFrame p) + unat (frameCount p) < 2 ^ 64 \<and>
     unat (presentationTimestampNanoseconds p) < 2 ^ 63 \<and>
     sampleFormat p = PcmS16LittleEndian \<and>
     length (pcmPayload p) = 2 * unat (channelCount p) * unat (frameCount p) \<and>
     length (pcmPayload p) \<le> 1148"

lemma channel_cases: "\<not> (c = 0 \<or> c > 2) \<longleftrightarrow> c = 1 \<or> c = (2 :: u16)"
proof -
  have "\<not> (c = 0 \<or> c > 2) \<longleftrightarrow> unat c \<noteq> 0 \<and> unat c \<le> 2"
    by (auto simp: word_less_nat_alt unat_eq_zero)
  also have "\<dots> \<longleftrightarrow> unat c = unat (1 :: u16) \<or> unat c = unat (2 :: u16)"
    by auto
  finally show ?thesis by (simp only: word_unat_eq_iff [symmetric])
qed

lemma mod_div_exact: "b \<noteq> 0 \<Longrightarrow> a mod b = 0 \<and> a div b = q \<longleftrightarrow> a = b * (q :: nat)"
  by (metis mod_mult_self1_is_0 mult_eq_if nonzero_mult_div_cancel_left mult_div_mod_eq add.right_neutral)

lemma validate_iff: "validate p = Inr () \<longleftrightarrow> packet_valid p"
proof (cases "channelCount p = 1 \<or> channelCount p = 2")
  case True
  then have pos: "2 * unat (channelCount p) \<noteq> 0" by auto
  have frames: "length (pcmPayload p) mod (2 * unat (channelCount p)) = 0 \<and>
      length (pcmPayload p) div (2 * unat (channelCount p)) = unat (frameCount p) \<longleftrightarrow>
      length (pcmPayload p) = 2 * unat (channelCount p) * unat (frameCount p)"
    by (rule mod_div_exact [OF pos])
  have nonempty: "length (pcmPayload p) = 2 * unat (channelCount p) * unat (frameCount p) \<Longrightarrow>
      frameCount p \<noteq> 0 \<Longrightarrow> pcmPayload p \<noteq> []"
    using pos by (auto simp: unat_eq_zero)
  show ?thesis
    using True channel_cases [of "channelCount p"] frames nonempty
      u64_no_wrap_iff [where s = "startFrame p" and f = "frameCount p"]
    by (auto simp: validate_def packet_valid_def bytesPerSample_def Let_def
        CurrentProtocolVersion_def word_less_nat_alt)
next
  case False
  then show ?thesis
    using channel_cases [of "channelCount p"] by (auto simp: validate_def packet_valid_def)
qed

lemma validate_error: "validate p = Inl e \<Longrightarrow> \<exists>m. e = Invalid_Argument m"
  by (auto simp: validate_def bytesPerSample_def Let_def split: if_splits)

lemma validate_cases:
  obtains (valid) "packet_valid p" "validate p = Inr ()"
  | (invalid) m where "\<not> packet_valid p" "validate p = Inl (Invalid_Argument m)"
proof (cases "validate p")
  case (Inl e)
  then show thesis
    using validate_error [OF Inl] validate_iff [of p] invalid by auto
next
  case (Inr u)
  then show thesis using validate_iff [of p] valid by simp
qed

definition header :: "AudioPacket \<Rightarrow> u8 list" where
  "header p =
     magic @ [protocolVersion p, 52] @ put16 (flags p) @ put64 (sessionId p) @
     put32 (sequenceNumber p) @ put32 (sampleRate p) @ put16 (channelCount p) @
     [sampleFormat p, 0] @ put64 (startFrame p) @ put64 (presentationTimestampNanoseconds p) @
     put16 (of_nat (length (pcmPayload p))) @ put16 (frameCount p) @ put32 (streamId p)"

lemma length_magic [simp]: "length magic = 4"
  by (simp add: magic_def)

lemma length_header [simp]: "length (header p) = 52"
  by (simp add: header_def)

lemma serialize_valid: "packet_valid p \<Longrightarrow> serialize p = Inr (header p @ pcmPayload p)"
  using validate_iff [of p]
  by (simp add: serialize_def append_simps header_def packet_valid_def Let_def)

lemma serialize_Inr_iff:
  "serialize p = Inr bs \<longleftrightarrow> packet_valid p \<and> bs = header p @ pcmPayload p"
proof (cases rule: validate_cases [of p])
  case valid
  then show ?thesis by (auto simp: serialize_valid)
next
  case (invalid m)
  then show ?thesis by (simp add: serialize_def)
qed

lemma decode_header:
  "decode (header p @ pcmPayload p) = p"
  by (simp add: decode_def header_def nth_append)

lemma unat_payload_size:
  assumes "packet_valid p"
  shows "unat (of_nat (length (pcmPayload p)) :: u16) = length (pcmPayload p)"
proof -
  have "length (pcmPayload p) \<le> 1148"
    using assms by (simp add: packet_valid_def)
  then show ?thesis by (simp add: unsigned_of_nat take_bit_nat_eq_self_iff)
qed

lemma header_fields:
  "take 4 (header p @ xs) = magic"
  "(header p @ xs) ! 5 = 52"
  "get16 (drop 44 (header p @ xs)) = of_nat (length (pcmPayload p))"
  by (simp_all add: header_def nth_append)

lemma validate_then_Inr_iff:
  "and_then (validate q) (\<lambda>_. Inr q) = Inr p \<longleftrightarrow> p = q \<and> packet_valid q"
  by (cases rule: validate_cases [of q]) auto

lemma deserialize_Inr_iff:
  "deserialize bs = Inr p \<longleftrightarrow>
     52 \<le> length bs \<and> length bs \<le> 1200 \<and> take 4 bs = magic \<and> bs ! 5 = 52 \<and>
     length bs = 52 + unat (get16 (drop 44 bs)) \<and> p = decode bs \<and> packet_valid p"
proof -
  have five: "unat (bs ! 5) = 52 \<longleftrightarrow> bs ! 5 = 52"
    using word_unat_eq_iff [of "bs ! 5" 52] by simp
  have size: "length bs - 52 = unat (get16 (drop 44 bs)) \<longleftrightarrow>
      length bs = 52 + unat (get16 (drop 44 bs))" if "52 \<le> length bs"
    using that by linarith
  show ?thesis
    unfolding deserialize_eq five guard_Inr_iff validate_then_Inr_iff not_less
    using size by blast
qed

text \<open>The datagram cut into the fields of the header table, with the reserved byte cleared.\<close>

lemma reserved_byte_split:
  assumes "52 \<le> length bs"
  shows "bs[27 := 0] = take 4 bs @ [bs ! 4, bs ! 5] @ take 2 (drop 6 bs) @
      take 8 (drop 8 bs) @ take 4 (drop 16 bs) @ take 4 (drop 20 bs) @ take 2 (drop 24 bs) @
      [bs ! 26, 0] @ take 8 (drop 28 bs) @ take 8 (drop 36 bs) @ take 2 (drop 44 bs) @
      take 2 (drop 46 bs) @ take 4 (drop 48 bs) @ drop 52 bs"
proof -
  have piece: "drop m bs = take k (drop m bs) @ drop (m + k) bs" for m k
    using append_take_drop_id [of k "drop m bs"] by (simp add: add.commute)
  have front: "take (m + k) bs = take m bs @ take k (drop m bs)" for m k
    by (rule take_add)
  have next_one: "take (m + 1) bs = take m bs @ [bs ! m]" if "m < 52" for m
    using that assms by (simp add: take_Suc_conv_app_nth)
  have "bs[27 := 0] = take 27 bs @ 0 # drop 28 bs"
    using assms by (simp add: upd_conv_take_nth_drop)
  moreover have "take 27 bs = take 4 bs @ [bs ! 4, bs ! 5] @ take 2 (drop 6 bs) @
      take 8 (drop 8 bs) @ take 4 (drop 16 bs) @ take 4 (drop 20 bs) @ take 2 (drop 24 bs) @
      [bs ! 26]"
    using front [of 6 2] front [of 8 8] front [of 16 4] front [of 20 4] front [of 24 2]
      next_one [of 4] next_one [of 5] next_one [of 26] by simp
  moreover have "drop 28 bs = take 8 (drop 28 bs) @ take 8 (drop 36 bs) @ take 2 (drop 44 bs) @
      take 2 (drop 46 bs) @ take 4 (drop 48 bs) @ drop 52 bs"
    using piece [of 28 8] piece [of 36 8] piece [of 44 2] piece [of 46 2] piece [of 48 4] by simp
  ultimately show ?thesis by simp
qed

section \<open>Round trips, layout and errors\<close>

text \<open>
  An example packet: 8000 Hz mono, two frames, sequence number 3; and its datagram.
\<close>

definition example_packet :: AudioPacket where
  "example_packet = default_AudioPacket\<lparr>
     sessionId := 7, sequenceNumber := 3, sampleRate := 8000, channelCount := 1,
     startFrame := 258, presentationTimestampNanoseconds := 1000, frameCount := 2,
     pcmPayload := [1, 0, 255, 127]\<rparr>"

definition example_datagram :: "u8 list" where
  "example_datagram =
     [83, 65, 85, 68, 2, 52, 0, 0, 0, 0, 0, 0, 0, 0, 0, 7, 0, 0, 0, 3, 0, 0, 31, 64, 0, 1, 1, 0,
      0, 0, 0, 0, 0, 0, 1, 2, 0, 0, 0, 0, 0, 0, 3, 232, 0, 4, 0, 2, 0, 0, 0, 1, 1, 0, 255, 127]"

lemma example_packet_valid: "packet_valid example_packet"
  by (simp add: packet_valid_def example_packet_def default_AudioPacket_def
      CurrentProtocolVersion_def)

lemma serialize_example: "serialize example_packet = Inr example_datagram"
  unfolding serialize_valid [OF example_packet_valid]
  by (simp add: header_def example_packet_def default_AudioPacket_def example_datagram_def
      magic_def put16_def put32_def put64_def CurrentProtocolVersion_def PcmS16LittleEndian_def)

lemma deserialize_serialized:
  assumes "serialize p = Inr bs"
  shows "deserialize bs = Inr p"
proof -
  have valid: "packet_valid p" and bs: "bs = header p @ pcmPayload p"
    using assms by (simp_all add: serialize_Inr_iff)
  have "length (pcmPayload p) \<le> 1148"
    using valid by (simp add: packet_valid_def)
  then show ?thesis
    unfolding deserialize_Inr_iff bs decode_header
    using valid unfolding header_fields unat_payload_size [OF valid] by simp
qed

text \<open>
  C4. Every packet that serializes is read back unchanged, with every field and the whole
  payload: \<open>deserialize\<close> inverts \<open>serialize\<close>.
\<close>

theorem packet_roundtrip:
  assumes "serialize p = Inr bs"
  shows "deserialize bs = Inr p"
  by (rule deserialize_serialized [OF assms])

theorem packet_roundtrip_witness:
  "serialize example_packet = Inr example_datagram \<and>
   deserialize example_datagram = Inr example_packet"
  using serialize_example packet_roundtrip [OF serialize_example] by blast

text \<open>
  Every datagram that is accepted is the serialization of the packet it was read as, up to
  the reserved byte at offset 27, which the reader skips and the writer sets to zero: no two
  datagrams that differ elsewhere are read as the same packet.
\<close>

theorem datagram_roundtrip:
  assumes "deserialize bs = Inr p"
  shows "serialize p = Inr (bs[27 := 0])"
proof -
  have d: "52 \<le> length bs" "take 4 bs = magic" "bs ! 5 = 52"
      "length bs = 52 + unat (get16 (drop 44 bs))" "p = decode bs" "packet_valid p"
    using assms unfolding deserialize_Inr_iff by blast+
  have size: "(of_nat (length (drop 52 bs)) :: u16) = get16 (drop 44 bs)"
  proof -
    have "length (drop 52 bs) = unat v \<Longrightarrow> (of_nat (length (drop 52 bs)) :: u16) = v" for v
      by simp
    moreover have "length (drop 52 bs) = unat (get16 (drop 44 bs))"
      by (subst length_drop, subst d(4)) simp
    ultimately show ?thesis by blast
  qed
  have split: "bs[27 := 0] = take 4 bs @ [bs ! 4, bs ! 5] @ take 2 (drop 6 bs) @
      take 8 (drop 8 bs) @ take 4 (drop 16 bs) @ take 4 (drop 20 bs) @ take 2 (drop 24 bs) @
      [bs ! 26, 0] @ take 8 (drop 28 bs) @ take 8 (drop 36 bs) @ take 2 (drop 44 bs) @
      take 2 (drop 46 bs) @ take 4 (drop 48 bs) @ drop 52 bs"
    using d(1) by (rule reserved_byte_split)
  have f: "put16 (get16 (drop k bs)) = take 2 (drop k bs)"
      "put32 (get32 (drop k bs)) = take 4 (drop k bs)"
      "k \<le> 44 \<Longrightarrow> put64 (get64 (drop k bs)) = take 8 (drop k bs)" if "k \<le> 48" for k
    using that d(1) by (simp_all add: put16_get16 put32_get32 put64_get64)
  have "header (decode bs) = take 4 bs @ [bs ! 4, bs ! 5] @ take 2 (drop 6 bs) @
      take 8 (drop 8 bs) @ take 4 (drop 16 bs) @ take 4 (drop 20 bs) @ take 2 (drop 24 bs) @
      [bs ! 26, 0] @ take 8 (drop 28 bs) @ take 8 (drop 36 bs) @ take 2 (drop 44 bs) @
      take 2 (drop 46 bs) @ take 4 (drop 48 bs)"
    unfolding header_def decode_def AudioPacket.select_convs size d(2,3) by (simp add: f)
  then have "header p @ pcmPayload p = bs[27 := 0]"
    unfolding split d(5) by (simp add: decode_def)
  then show ?thesis
    using d(6) by (simp add: serialize_Inr_iff)
qed

theorem datagram_roundtrip_witness:
  "deserialize example_datagram = Inr example_packet \<and>
   serialize example_packet = Inr (example_datagram[27 := 0])"
  using packet_roundtrip [OF serialize_example]
    datagram_roundtrip [OF packet_roundtrip [OF serialize_example]] by blast

text \<open>
  Every serialized packet has the documented layout: 52 header bytes and the payload, at most
  1200 bytes in all, the magic, version 2 and header size 52, the reserved byte zero, and each
  integer field in network byte order at the offset of the README's table.
\<close>

theorem serialize_layout:
  assumes "serialize p = Inr bs"
  shows "length bs = 52 + length (pcmPayload p) \<and> length bs \<le> 1200 \<and>
    take 4 bs = magic \<and> bs ! 4 = 2 \<and> bs ! 5 = 52 \<and> bs ! 27 = 0 \<and>
    be_value (take 2 (drop 6 bs)) = unat (flags p) \<and>
    be_value (take 8 (drop 8 bs)) = unat (sessionId p) \<and>
    be_value (take 4 (drop 16 bs)) = unat (sequenceNumber p) \<and>
    be_value (take 4 (drop 20 bs)) = unat (sampleRate p) \<and>
    be_value (take 2 (drop 24 bs)) = unat (channelCount p) \<and>
    bs ! 26 = sampleFormat p \<and>
    be_value (take 8 (drop 28 bs)) = unat (startFrame p) \<and>
    be_value (take 8 (drop 36 bs)) = unat (presentationTimestampNanoseconds p) \<and>
    be_value (take 2 (drop 44 bs)) = length (pcmPayload p) \<and>
    be_value (take 2 (drop 46 bs)) = unat (frameCount p) \<and>
    be_value (take 4 (drop 48 bs)) = unat (streamId p) \<and>
    drop 52 bs = pcmPayload p"
proof -
  have valid: "packet_valid p" and bs: "bs = header p @ pcmPayload p"
    using assms by (simp_all add: serialize_Inr_iff)
  have size: "length (pcmPayload p) \<le> 1148" and version: "protocolVersion p = 2"
    using valid by (simp_all add: packet_valid_def)
  show ?thesis
    unfolding bs using size version unat_payload_size [OF valid]
    by (simp add: header_def nth_append)
qed

theorem serialize_layout_witness:
  "serialize example_packet = Inr example_datagram \<and>
   be_value (take 4 (drop 20 example_datagram)) = 8000"
  using serialize_example serialize_layout [OF serialize_example]
  by (simp add: example_packet_def)

text \<open>
  \<open>serialize\<close> accepts exactly the packets with a supported version, sample rate, channel
  count and format, nonzero stream and frame count, a frame range and a timestamp inside their
  types, and a payload of exactly the announced frames that fits the datagram; on any other
  packet it throws \<open>invalid_argument\<close>.
\<close>

theorem serialize_accepts_iff:
  "is_ok (serialize p) = packet_valid p \<and>
   (packet_valid p \<or> (\<exists>m. serialize p = Inl (Invalid_Argument m)))"
proof (cases rule: validate_cases [of p])
  case valid
  then show ?thesis by (simp add: serialize_valid)
next
  case (invalid m)
  then show ?thesis by (simp add: serialize_def)
qed

text \<open>
  \<open>deserialize\<close> returns or throws \<open>invalid_argument\<close> on every byte string, whatever the
  network delivers: no other exception, which the receiver thread would not catch, and no read
  outside the datagram.
\<close>

theorem deserialize_errors:
  "is_ok (deserialize bs) \<or> (\<exists>m. deserialize bs = Inl (Invalid_Argument m))"
  by (cases rule: validate_cases [of "decode bs"]) (auto simp: deserialize_eq)

section \<open>Order of evaluation\<close>

text \<open>
  \<open>readU16\<close> combines two calls of \<open>readU8\<close> with the operator \<open>|\<close>, whose operands C++ may evaluate
  in either order; the model above follows the order the authors intend, left to right. This is
  the same expression evaluated right to left: the right operand reads the first byte.
\<close>

definition readU16_right_first :: "Reader \<Rightarrow> exn + (u16 \<times> Reader)" where
  "readU16_right_first r =
     and_then (readU8 r) (\<lambda>(lo, r1). and_then (readU8 r1) (\<lambda>(hi, r2). Inr (join16 hi lo, r2)))"

lemma join16_eq_iff: "join16 a b = join16 c d \<longleftrightarrow> a = c \<and> b = d"
  by (metis split_join16)

text \<open>
  The two orders of evaluation that the language allows for \<open>readU16\<close> give the same field only
  when its two bytes are equal: with the other order every 16-bit field is read byte-swapped.
\<close>

theorem readU16_order_matters:
  assumes "2 \<le> remaining r"
  shows "readU16_right_first r = readU16 r \<longleftrightarrow> reader_rest r ! 0 = reader_rest r ! 1"
proof -
  have two: "2 \<le> length (reader_rest r)"
    using assms by (simp add: length_reader_rest)
  then have "reader_rest r \<noteq> []" and "drop 1 (reader_rest r) \<noteq> []" by auto
  then have "readU16_right_first r =
      Inr (join16 (reader_rest r ! 1) (reader_rest r ! 0), reader_adv 2 r)"
    using two by (simp add: readU16_right_first_def packet_reader.read_simps numeral_2_eq_2)
  moreover have "readU16 r = Inr (join16 (reader_rest r ! 0) (reader_rest r ! 1), reader_adv 2 r)"
    using two by (simp add: readU16_def packet_reader.read16 get16_def)
  ultimately show ?thesis by (auto simp: join16_eq_iff)
qed

theorem readU16_order_matters_witness:
  "2 \<le> remaining (make_reader [1, 2]) \<and>
   readU16_right_first (make_reader [1, 2]) \<noteq> readU16 (make_reader [1, 2])"
  using readU16_order_matters [of "make_reader [1, 2]"]
  by (simp add: remaining_def make_reader_def reader_rest_def)

end
