(* ===== verification/Float_Round.thy ===== *)
theory Float_Round
  imports Prelude "HOL-Library.Log_Nat"
begin

text \<open>
  Floating point arithmetic of the sources. A finite \<open>double\<close> or \<open>long double\<close> is the rational
  number it denotes, and every operation of the code is the exact rational operation followed by
  \<open>fl p\<close>, rounding to the nearest number with a \<open>p\<close>-bit significand, ties to even, as IEEE 754
  prescribes. \<open>dbl\<close> is binary64 (53 bits), \<open>ldbl\<close> the 64-bit significand of the x87 extended
  format that \<open>long double\<close> is on x86 Linux and macOS. The exponent range is unbounded: the values
  the modelled code computes from 64-bit integers and validated inputs stay far from overflow and
  from the subnormal numbers.

  The locale \<open>rounding\<close> is what the proofs use of a rounding: it is monotone, odd, and exact on
  the numbers of its format. It is interpreted for both formats.
\<close>

section \<open>Rounding to the nearest integer, ties to even\<close>

definition round_even :: "rat \<Rightarrow> int" where
  "round_even x =
     (let f = \<lfloor>x\<rfloor>; d = x - of_int f in
      if d < 1 / 2 then f else if 1 / 2 < d then f + 1 else if even f then f else f + 1)"

lemma round_even_of_int [simp]: "round_even (of_int n) = n"
  by (simp add: round_even_def)

lemma round_even_bounds:
  "of_int (round_even x) - 1 / 2 \<le> x" "x \<le> of_int (round_even x) + 1 / 2"
proof -
  define f where "f = \<lfloor>x\<rfloor>"
  have "of_int f \<le> x" "x < of_int f + 1" unfolding f_def by linarith+
  then show "of_int (round_even x) - 1 / 2 \<le> x" "x \<le> of_int (round_even x) + 1 / 2"
    unfolding round_even_def Let_def f_def [symmetric] by (auto split: if_splits)
qed

lemma round_even_tie:
  assumes "x = of_int n + 1 / 2"
  shows "round_even x = (if even n then n else n + 1)"
proof -
  have "\<lfloor>x\<rfloor> = n" unfolding assms by (simp add: floor_eq_iff)
  then show ?thesis by (simp add: round_even_def assms)
qed

lemma round_even_near:
  assumes "of_int n - 1 / 2 < x" "x < of_int n + 1 / 2"
  shows "round_even x = n"
proof (cases "of_int n \<le> x")
  case True
  then have "\<lfloor>x\<rfloor> = n" using assms by (simp add: floor_eq_iff)
  then show ?thesis using assms by (simp add: round_even_def field_simps)
next
  case False
  then have "\<lfloor>x\<rfloor> = n - 1" using assms by linarith
  then show ?thesis using assms by (simp add: round_even_def field_simps)
qed

lemma round_even_cases:
  obtains (near) n where "of_int n - 1 / 2 < x" "x < of_int n + 1 / 2" "round_even x = n"
  | (tie) n where "x = of_int n + 1 / 2" "round_even x = (if even n then n else n + 1)"
proof (cases "x = of_int \<lfloor>x\<rfloor> + 1 / 2")
  case True
  then show thesis using tie round_even_tie by blast
next
  case False
  let ?n = "round_even x"
  have "of_int ?n - 1 / 2 < x \<and> x < of_int ?n + 1 / 2"
  proof -
    define f where "f = \<lfloor>x\<rfloor>"
    have "of_int f \<le> x" "x < of_int f + 1" unfolding f_def by linarith+
    with False show ?thesis
      unfolding round_even_def Let_def f_def [symmetric] by (auto split: if_splits)
  qed
  then show thesis using near by blast
qed

lemma round_even_mono: "x \<le> y \<Longrightarrow> round_even x \<le> round_even y"
proof (rule ccontr)
  assume le: "x \<le> y" and gt: "\<not> round_even x \<le> round_even y"
  have step: "of_int (round_even y) + 1 \<le> (of_int (round_even x) :: rat)"
    using gt by (metis add1_zle_eq not_le of_int_1 of_int_add of_int_le_iff)
  have "x = y"
    using le step round_even_bounds(1) [of x] round_even_bounds(2) [of y] by linarith
  with gt show False by simp
qed

lemma round_even_minus: "round_even (- x) = - round_even x"
proof (cases x rule: round_even_cases)
  case (near n)
  then show ?thesis by (intro round_even_near) simp_all
next
  case (tie n)
  then have "- x = of_int (- n - 1) + 1 / 2" by simp
  then show ?thesis using round_even_tie [of "- x" "- n - 1"] tie by auto
qed

section \<open>The binary exponent of a positive rational\<close>

definition exponent2 :: "rat \<Rightarrow> int" where
  "exponent2 x = (if 1 \<le> x then bitlen \<lfloor>x\<rfloor> - 1 else - bitlen (\<lceil>1 / x\<rceil> - 1))"

lemma bitlen_lower: "0 < n \<Longrightarrow> 2 powi (bitlen n - 1) \<le> (of_int n :: rat)"
  and bitlen_upper: "0 \<le> n \<Longrightarrow> of_int n + 1 \<le> (2 powi bitlen n :: rat)"
proof -
  show "2 powi (bitlen n - 1) \<le> (of_int n :: rat)" if "0 < n"
  proof -
    have "2 ^ nat (bitlen n - 1) \<le> n" and "0 < bitlen n"
      using that bitlen_bounds [of n] by (simp_all add: bitlen_eq_zero_iff bitlen_nonneg order.strict_iff_order)
    then have "(of_int (2 ^ nat (bitlen n - 1)) :: rat) \<le> of_int n"
      by (simp only: of_int_le_iff)
    with \<open>0 < bitlen n\<close> show ?thesis by (simp add: power_int_def)
  qed
  show "of_int n + 1 \<le> (2 powi bitlen n :: rat)" if "0 \<le> n"
  proof (cases "n = 0")
    case False
    then have "n + 1 \<le> 2 ^ nat (bitlen n)"
      using that bitlen_bounds [of n] by simp
    then have "(of_int (n + 1) :: rat) \<le> of_int (2 ^ nat (bitlen n))"
      by (rule of_int_le_iff [THEN iffD2])
    then show ?thesis using bitlen_nonneg [of n] by (simp add: power_int_def)
  qed simp
qed

lemma exponent2_bounds:
  assumes "0 < x"
  shows "2 powi exponent2 x \<le> x" "x < 2 powi (exponent2 x + 1)"
proof -
  have "2 powi exponent2 x \<le> x \<and> x < 2 powi (exponent2 x + 1)"
  proof (cases "1 \<le> x")
    case True
    then have "0 < \<lfloor>x\<rfloor>" by simp
    then show ?thesis
      using True bitlen_lower [of "\<lfloor>x\<rfloor>"] bitlen_upper [of "\<lfloor>x\<rfloor>"] floor_correct [of x]
      by (simp add: exponent2_def) linarith
  next
    case False
    define n where "n = \<lceil>1 / x\<rceil> - 1"
    have one: "1 < 1 / x" using assms False by (simp add: field_simps)
    then have n: "0 < n" unfolding n_def by (simp add: less_ceiling_iff)
    have low: "of_int n < 1 / x" and up: "1 / x \<le> of_int n + 1"
      unfolding n_def using ceiling_correct [of "1 / x"] by simp_all
    have e: "exponent2 x = - bitlen n" using False by (simp add: exponent2_def n_def)
    have "1 / x \<le> 2 powi bitlen n"
      using up bitlen_upper [of n] n by linarith
    then have "2 powi (- bitlen n) \<le> x"
      using assms by (simp add: power_int_minus field_simps)
    moreover have "2 powi (bitlen n - 1) < 1 / x"
      using low bitlen_lower [OF n] by linarith
    then have "x < inverse (2 powi (bitlen n - 1))"
      using assms by (simp add: field_simps)
    then have "x < 2 powi (- (bitlen n - 1))"
      by (simp only: power_int_minus)
    ultimately show ?thesis by (simp add: e)
  qed
  then show "2 powi exponent2 x \<le> x" "x < 2 powi (exponent2 x + 1)" by simp_all
qed

lemma powi2_le_iff: "(2 :: rat) powi a \<le> 2 powi b \<longleftrightarrow> a \<le> b"
  using power_int_increasing [of a b "2 :: rat"] power_int_strict_increasing [of b a "2 :: rat"]
  by (auto simp: not_le [symmetric])

lemma powi2_less_iff: "(2 :: rat) powi a < 2 powi b \<longleftrightarrow> a < b"
  by (simp add: powi2_le_iff not_le [symmetric])

lemma exponent2_mono:
  assumes "0 < x" "x \<le> y"
  shows "exponent2 x \<le> exponent2 y"
proof -
  have "2 powi exponent2 x < (2 :: rat) powi (exponent2 y + 1)"
    using exponent2_bounds(1) [of x] exponent2_bounds(2) [of y] assms by linarith
  then show ?thesis by (simp add: powi2_less_iff)
qed

section \<open>Rounding to a significand of \<open>p\<close> bits\<close>

definition ulp :: "nat \<Rightarrow> rat \<Rightarrow> rat" where
  "ulp p x = 2 powi (exponent2 \<bar>x\<bar> - int p + 1)"

definition fl :: "nat \<Rightarrow> rat \<Rightarrow> rat" where
  "fl p x = (if x = 0 then 0 else of_int (round_even (x / ulp p x)) * ulp p x)"

definition dbl :: "rat \<Rightarrow> rat" where "dbl = fl 53"
definition ldbl :: "rat \<Rightarrow> rat" where "ldbl = fl 64"

lemma ulp_pos [simp]: "0 < ulp p x"
  by (simp add: ulp_def)

lemma ulp_minus [simp]: "ulp p (- x) = ulp p x"
  by (simp add: ulp_def)

lemma fl_0 [simp]: "fl p 0 = 0"
  by (simp add: fl_def)

lemma fl_minus: "fl p (- x) = - fl p x"
  by (simp add: fl_def round_even_minus)

lemma ulp_shift: "ulp p x * 2 ^ k = 2 powi (exponent2 \<bar>x\<bar> - int p + 1 + int k)"
  using power_int_add [of "2 :: rat" "exponent2 \<bar>x\<bar> - int p + 1" "int k"]
  by (simp add: ulp_def)

lemma scaled_bounds:
  assumes "0 < x" "1 \<le> p"
  shows "2 ^ (p - 1) \<le> x / ulp p x" "x / ulp p x < 2 ^ p"
proof -
  have "ulp p x * 2 ^ (p - 1) = 2 powi exponent2 x"
    using assms by (simp add: ulp_shift of_nat_diff)
  then show "2 ^ (p - 1) \<le> x / ulp p x"
    using exponent2_bounds(1) [OF assms(1)] by (simp add: pos_le_divide_eq mult.commute)
  have "ulp p x * 2 ^ p = 2 powi (exponent2 x + 1)"
    using assms by (simp add: ulp_shift algebra_simps)
  then show "x / ulp p x < 2 ^ p"
    using exponent2_bounds(2) [OF assms(1)] by (simp add: pos_divide_less_eq mult.commute)
qed

lemma fl_pos_range:
  assumes "0 < x" "1 \<le> p"
  shows "2 powi exponent2 x \<le> fl p x" "fl p x \<le> 2 powi (exponent2 x + 1)"
proof -
  let ?m = "round_even (x / ulp p x)"
  have fl: "fl p x = of_int ?m * ulp p x" using assms by (simp add: fl_def)
  have "2 ^ (p - 1) \<le> ?m"
    using round_even_mono [OF scaled_bounds(1) [OF assms]] round_even_of_int [of "2 ^ (p - 1)"]
    by simp
  then have "(2 :: rat) ^ (p - 1) \<le> of_int ?m"
    by (metis of_int_le_iff of_int_numeral of_int_power)
  then have "2 ^ (p - 1) * ulp p x \<le> of_int ?m * ulp p x"
    by (intro mult_right_mono) (auto intro: less_imp_le)
  moreover have "2 ^ (p - 1) * ulp p x = 2 powi exponent2 x"
    using ulp_shift [of p x "p - 1"] assms by (simp add: of_nat_diff mult.commute)
  ultimately show "2 powi exponent2 x \<le> fl p x" by (simp only: fl)
  have "?m \<le> 2 ^ p"
    using round_even_mono [OF less_imp_le [OF scaled_bounds(2) [OF assms]]]
      round_even_of_int [of "2 ^ p"] by simp
  then have "of_int ?m \<le> (2 :: rat) ^ p"
    by (metis of_int_le_iff of_int_numeral of_int_power)
  then have "of_int ?m * ulp p x \<le> 2 ^ p * ulp p x"
    by (intro mult_right_mono) (auto intro: less_imp_le)
  moreover have "2 ^ p * ulp p x = 2 powi (exponent2 x + 1)"
    using ulp_shift [of p x p] assms by (simp add: mult.commute)
  ultimately show "fl p x \<le> 2 powi (exponent2 x + 1)" by (simp only: fl)
qed

lemma fl_pos: "0 < x \<Longrightarrow> 1 \<le> p \<Longrightarrow> 0 < fl p x"
  using fl_pos_range(1) [of x p] less_le_trans [of 0 "2 powi exponent2 x" "fl p x"] by simp

lemma fl_mono_pos:
  assumes "0 < x" "x \<le> y" "1 \<le> p"
  shows "fl p x \<le> fl p y"
proof (cases "exponent2 x = exponent2 y")
  case True
  then have u: "ulp p x = ulp p y" using assms by (simp add: ulp_def)
  have "round_even (x / ulp p y) \<le> round_even (y / ulp p y)"
    using assms by (intro round_even_mono divide_right_mono) (auto intro: less_imp_le)
  then show ?thesis
    using assms by (simp add: fl_def u mult_right_mono less_imp_le)
next
  case False
  then have "exponent2 x + 1 \<le> exponent2 y" using exponent2_mono [of x y] assms by simp
  then have "(2 :: rat) powi (exponent2 x + 1) \<le> 2 powi exponent2 y" by (simp add: powi2_le_iff)
  then show ?thesis
    using fl_pos_range(2) [of x p] fl_pos_range(1) [of y p] assms by linarith
qed

lemma fl_mono:
  assumes "x \<le> y" "1 \<le> p"
  shows "fl p x \<le> fl p y"
proof -
  consider "0 < x" | "x \<le> 0" "0 \<le> y" | "y < 0" by linarith
  then show ?thesis
  proof cases
    case 1
    with assms show ?thesis by (intro fl_mono_pos)
  next
    case 2
    have "fl p x \<le> 0"
      using 2 fl_pos [of "- x" p] assms by (cases "x = 0") (simp_all add: fl_minus)
    moreover have "0 \<le> fl p y"
      using 2 fl_pos [of y p] assms by (cases "y = 0") (simp_all add: less_imp_le)
    ultimately show ?thesis by simp
  next
    case 3
    then have "fl p (- y) \<le> fl p (- x)" using assms by (intro fl_mono_pos) simp_all
    then show ?thesis by (simp add: fl_minus)
  qed
qed

lemma fl_exact_pos:
  assumes "0 < m" "m \<le> 2 ^ p" "1 \<le> p" and x: "x = of_int m * 2 powi k"
  shows "fl p x = x"
proof -
  let ?e = "exponent2 x - int p + 1"
  have pos: "0 < x" using assms by simp
  obtain n where n: "x = of_int n * ulp p x"
  proof (cases "?e \<le> k")
    case True
    then obtain d where d: "k = ?e + int d" by (metis zle_iff_zadd)
    have "x = of_int (m * 2 ^ d) * ulp p x"
      using pos unfolding ulp_def by (subst x, subst d) (simp add: power_int_add)
    then show thesis by (rule that)
  next
    case False
    have "(of_int m :: rat) \<le> 2 ^ p"
      using assms(2) by (metis of_int_le_iff of_int_numeral of_int_power)
    then have "x \<le> 2 ^ p * 2 powi k" unfolding x by (intro mult_right_mono) simp_all
    also have "\<dots> = 2 powi (int p + k)" by (simp add: power_int_add)
    also have "\<dots> \<le> 2 powi exponent2 x" using False by (simp add: powi2_le_iff)
    finally have "x = 2 powi exponent2 x" using exponent2_bounds(1) [OF pos] by simp
    also have "\<dots> = of_int (2 ^ (p - 1)) * ulp p x"
      using assms(3) pos ulp_shift [of p x "p - 1"] by (simp add: of_nat_diff mult.commute)
    finally show thesis by (rule that)
  qed
  have "ulp p x \<noteq> 0" by (metis ulp_pos less_irrefl)
  then have "x / ulp p x = of_int n" by (metis n nonzero_mult_div_cancel_right)
  then show ?thesis using pos n by (simp add: fl_def)
qed

lemma fl_idem:
  assumes "1 \<le> p"
  shows "fl p (fl p x) = fl p x"
proof -
  have pos: "fl p (fl p x) = fl p x" if "0 < x" for x
  proof -
    let ?m = "round_even (x / ulp p x)"
    have fl: "fl p x = of_int ?m * 2 powi (exponent2 \<bar>x\<bar> - int p + 1)"
      using that by (simp add: fl_def ulp_def)
    have "0 < of_int ?m * (2 powi (exponent2 \<bar>x\<bar> - int p + 1) :: rat)"
      using fl_pos [OF that assms] unfolding fl .
    then have "0 < (of_int ?m :: rat)" by (rule zero_less_mult_pos2) simp
    then have "0 < ?m" by simp
    moreover have "?m \<le> 2 ^ p"
      using round_even_mono [OF less_imp_le [OF scaled_bounds(2) [OF that assms]]]
        round_even_of_int [of "2 ^ p"] by simp
    ultimately show ?thesis by (rule fl_exact_pos [OF _ _ assms fl])
  qed
  show ?thesis
    using pos [of x] pos [of "- x"] by (cases x "0 :: rat" rule: linorder_cases) (auto simp: fl_minus)
qed

section \<open>The interface of a rounding\<close>

text \<open>
  \<open>rnd\<close> rounds to \<open>prec\<close> bits: monotone, odd, exact on every \<open>m * 2 powi k\<close> whose significand
  fits. What follows are the facts the components use: comparisons with representable bounds
  survive rounding, and integer and half-integer arithmetic within \<open>2 ^ prec\<close> is exact.
\<close>

locale rounding =
  fixes rnd :: "rat \<Rightarrow> rat"
    and prec :: nat
  assumes mono: "x \<le> y \<Longrightarrow> rnd x \<le> rnd y"
    and odd: "rnd (- x) = - rnd x"
    and exact_pos: "0 < m \<Longrightarrow> m \<le> 2 ^ prec \<Longrightarrow> rnd (of_int m * 2 powi k) = of_int m * 2 powi k"
    and zero: "rnd 0 = 0"
    and idem: "rnd (rnd x) = rnd x"
begin

lemma exact: "\<bar>m\<bar> \<le> 2 ^ prec \<Longrightarrow> rnd (of_int m * 2 powi k) = of_int m * 2 powi k"
  using exact_pos [of m k] exact_pos [of "- m" k] odd [of "of_int m * 2 powi k"] zero
  by (cases m "0 :: int" rule: linorder_cases) auto

lemma exact_int: "\<bar>m\<bar> \<le> 2 ^ prec \<Longrightarrow> rnd (of_int m) = of_int m"
  using exact [of m 0] by simp

lemma exact_half: "\<bar>m\<bar> \<le> 2 ^ prec \<Longrightarrow> rnd (of_int m / 2) = of_int m / 2"
  using exact [of m "- 1"] by (simp add: power_int_minus)

lemma lower: "rnd l = l \<Longrightarrow> l \<le> x \<Longrightarrow> l \<le> rnd x"
  using mono [of l x] by simp

lemma upper: "rnd u = u \<Longrightarrow> x \<le> u \<Longrightarrow> rnd x \<le> u"
  using mono [of x u] by simp

lemma nonneg: "0 \<le> x \<Longrightarrow> 0 \<le> rnd x"
  by (rule lower) (simp_all add: zero)

lemma nonpos: "x \<le> 0 \<Longrightarrow> rnd x \<le> 0"
  by (rule upper) (simp_all add: zero)

lemma clamp_range:
  assumes "rnd l = l" "rnd u = u" "l \<le> u"
  shows "l \<le> rnd (max l (min u x))" "rnd (max l (min u x)) \<le> u"
  using assms by (auto intro: lower upper)

lemma exact_grid: "\<bar>m\<bar> \<le> 2 ^ prec \<Longrightarrow> rnd (of_int m / 2 ^ k) = of_int m / 2 ^ k"
  using exact [of m "- int k"] by (simp add: power_int_minus divide_inverse)

text \<open>Between two points of a grid both of which are representable, a value moves at most one step.\<close>

lemma near:
  assumes "\<bar>x\<bar> * 2 ^ k + 1 \<le> 2 ^ prec"
  shows "\<bar>rnd x - x\<bar> \<le> 1 / 2 ^ k"
proof -
  define a b where "a = \<lfloor>x * 2 ^ k\<rfloor>" and "b = \<lceil>x * 2 ^ k\<rceil>"
  have grid: "of_int a \<le> x * 2 ^ k" "x * 2 ^ k \<le> of_int b" "x * 2 ^ k - 1 \<le> of_int a"
    "of_int b \<le> x * 2 ^ k + 1"
    unfolding a_def b_def by linarith+
  have "\<bar>x * 2 ^ k\<bar> + 1 \<le> 2 ^ prec" using assms by (simp add: abs_mult)
  then have "\<bar>of_int a :: rat\<bar> \<le> 2 ^ prec" "\<bar>of_int b :: rat\<bar> \<le> 2 ^ prec" using grid by linarith+
  then have "of_int \<bar>a\<bar> \<le> (of_int (2 ^ prec) :: rat)" "of_int \<bar>b\<bar> \<le> (of_int (2 ^ prec) :: rat)"
    by simp_all
  then have "\<bar>a\<bar> \<le> 2 ^ prec" "\<bar>b\<bar> \<le> 2 ^ prec" by (simp_all only: of_int_le_iff)
  then have rep: "rnd (of_int a / 2 ^ k) = of_int a / 2 ^ k" "rnd (of_int b / 2 ^ k) = of_int b / 2 ^ k"
    by (simp_all add: exact_grid)
  have below: "of_int a / 2 ^ k \<le> x" "x - 1 / 2 ^ k \<le> of_int a / 2 ^ k"
    and above: "x \<le> of_int b / 2 ^ k" "of_int b / 2 ^ k \<le> x + 1 / 2 ^ k"
    using grid
    by (simp_all add: pos_le_divide_eq pos_divide_le_eq left_diff_distrib distrib_right add.commute)
  have "of_int a / 2 ^ k \<le> rnd x" "rnd x \<le> of_int b / 2 ^ k"
    using lower [OF rep(1) below(1)] upper [OF rep(2) above(1)] by simp_all
  then show ?thesis using below(2) above(2) by (simp add: abs_le_iff)
qed

lemma exact_nonneg_int: "0 \<le> m \<Longrightarrow> m \<le> 2 ^ prec \<Longrightarrow> rnd (of_int m) = of_int m"
  by (rule exact_int) simp

end

lemma rounding_fl: "1 \<le> p \<Longrightarrow> rounding (fl p) p"
  by unfold_locales (simp_all add: fl_mono fl_minus fl_exact_pos fl_idem)

interpretation binary64: rounding dbl 53
  unfolding dbl_def by (rule rounding_fl) simp

interpretation extended: rounding ldbl 64
  unfolding ldbl_def by (rule rounding_fl) simp

section \<open>Rounding to the nearest integer, halfway cases away from zero\<close>

text \<open>\<open>std::llround\<close> and \<open>std::lround\<close>.\<close>

definition llround :: "rat \<Rightarrow> int" where
  "llround x = (if 0 \<le> x then \<lfloor>x + 1 / 2\<rfloor> else - \<lfloor>1 / 2 - x\<rfloor>)"

lemma llround_of_int [simp]: "llround (of_int n) = n"
proof -
  have "\<lfloor>of_int m + 1 / 2 :: rat\<rfloor> = m" for m
    by (simp add: floor_eq_iff)
  from this [of n] this [of "- n"] show ?thesis by (auto simp: llround_def)
qed

lemma llround_half:
  "llround (of_int n / 2) = (if 0 \<le> n then (n + 1) div 2 else - ((1 - n) div 2))"
proof -
  have "\<lfloor>of_int m / 2 + 1 / 2 :: rat\<rfloor> = (m + 1) div 2" for m
    using floor_divide_of_int_eq [of "m + 1" 2, where ?'a = rat] by (simp add: add_divide_distrib)
  from this [of n] this [of "- n"] show ?thesis by (auto simp: llround_def add.commute)
qed

lemma llround_mono: "x \<le> y \<Longrightarrow> llround x \<le> llround y"
proof -
  assume le: "x \<le> y"
  consider "0 \<le> x" | "x < 0" "0 \<le> y" | "y < 0" by linarith
  then show ?thesis
  proof cases
    case 1
    with le show ?thesis by (simp add: llround_def floor_mono)
  next
    case 2
    have "- \<lfloor>1 / 2 - x\<rfloor> \<le> \<lfloor>y + 1 / 2\<rfloor>" using 2 by linarith
    with 2 show ?thesis by (simp add: llround_def)
  next
    case 3
    with le show ?thesis by (simp add: llround_def floor_mono)
  qed
qed

end
