(* ===== verification/Clock_Sync.thy ===== *)
theory Clock_Sync
  imports Wire_Bytes Float_Round
begin

text \<open>
  The \<open>SCLK\<close> clock probe: \<open>ClockSyncMessage\<close>, \<open>ClockSyncSerializer\<close> and \<open>ClockSyncMath\<close> of
  \<open>core/include/ClockSync.hpp\<close> and \<open>core/src/ClockSync.cpp\<close>. The writers store into a 40-byte
  array at a running offset and the readers index a span at one, without checks: an index out of
  range would be undefined behaviour and is the error \<open>Out_Of_Bounds\<close> here, which the theorems
  exclude. \<open>estimate\<close> computes in \<open>long double\<close>, modelled with a 64-bit significand.
\<close>

section \<open>Messages\<close>

type_synonym ClockSyncMessageType = u8

definition Request :: ClockSyncMessageType where "Request = 1"
definition Response :: ClockSyncMessageType where "Response = 2"

record ClockSyncMessage =
  msg_type :: ClockSyncMessageType
  requestId :: u32
  clientSendTimestampNanoseconds :: u64
  hostReceiveTimestampNanoseconds :: u64
  hostSendTimestampNanoseconds :: u64

definition default_ClockSyncMessage :: ClockSyncMessage where
  "default_ClockSyncMessage = \<lparr>msg_type = Request, requestId = 0,
     clientSendTimestampNanoseconds = 0, hostReceiveTimestampNanoseconds = 0,
     hostSendTimestampNanoseconds = 0\<rparr>"

definition ProtocolVersion :: u8 where "ProtocolVersion = 1"

definition MessageSize :: nat where "MessageSize = 40"

lemma MessageSize_eq [simp]: "MessageSize = 40"
  by (simp add: MessageSize_def)

text \<open>The magic bytes, the ASCII codes of \<open>SCLK\<close>.\<close>

definition clock_magic :: "u8 list" where
  "clock_magic = [83, 67, 76, 75]"

lemma length_clock_magic [simp]: "length clock_magic = 4"
  by (simp add: clock_magic_def)

section \<open>Writers: a fixed array and an offset\<close>

type_synonym cursor = "u8 list \<times> nat"

definition storeU8 :: "cursor \<Rightarrow> u8 \<Rightarrow> exn + cursor" where
  "storeU8 c value =
     (case c of (output, offset) \<Rightarrow>
        if offset < length output then Inr (output[offset := value], offset + 1)
        else Inl Out_Of_Bounds)"

definition storeU16 :: "cursor \<Rightarrow> u16 \<Rightarrow> exn + cursor" where
  "storeU16 c value =
     and_then (storeU8 c (ucast (drop_bit 8 value))) (\<lambda>c. storeU8 c (ucast value))"

definition storeU32 :: "cursor \<Rightarrow> u32 \<Rightarrow> exn + cursor" where
  "storeU32 c value =
     and_then (storeU16 c (ucast (drop_bit 16 value))) (\<lambda>c. storeU16 c (ucast value))"

definition storeU64 :: "cursor \<Rightarrow> u64 \<Rightarrow> exn + cursor" where
  "storeU64 c value =
     and_then (storeU32 c (ucast (drop_bit 32 value))) (\<lambda>c. storeU32 c (ucast value))"

text \<open>
  A cursor whose first \<open>offset\<close> bytes are \<open>done\<close> and whose array has \<open>n\<close> more zero bytes: storing
  a field appends its bytes to what is done.
\<close>

definition filled :: "u8 list \<Rightarrow> nat \<Rightarrow> cursor" where
  "filled done n = (done @ replicate n 0, length done)"

lemma store8: "storeU8 (filled done (Suc n)) b = Inr (filled (done @ [b]) n)"
  by (simp add: storeU8_def filled_def list_update_append)

lemma store16: "storeU16 (filled done (n + 2)) v = Inr (filled (done @ put16 v) n)"
  by (simp add: storeU16_def store8 put16_def)

lemma store32: "storeU32 (filled done (n + 4)) v = Inr (filled (done @ put32 v) n)"
proof -
  have "n + 4 = (n + 2) + 2" by simp
  then show ?thesis
    by (simp only: storeU32_def store16 and_then_simps put32_def append_assoc)
qed

lemma store64: "storeU64 (filled done (n + 8)) v = Inr (filled (done @ put64 v) n)"
proof -
  have "n + 8 = (n + 4) + 4" by simp
  then show ?thesis
    by (simp only: storeU64_def store32 and_then_simps put64_def append_assoc)
qed

definition clock_serialize :: "ClockSyncMessage \<Rightarrow> exn + u8 list" where
  "clock_serialize message =
     (if msg_type message \<noteq> Request \<and> msg_type message \<noteq> Response
      then Inl (Invalid_Argument ''Clock-sync message type is invalid'')
      else
        let output = clock_magic @ drop (length clock_magic) (replicate MessageSize 0) in
        and_then (storeU8 (output, length clock_magic) ProtocolVersion) (\<lambda>c.
        and_then (storeU8 c (msg_type message)) (\<lambda>c.
        and_then (storeU16 c (of_nat MessageSize)) (\<lambda>c.
        and_then (storeU32 c (requestId message)) (\<lambda>c.
        and_then (storeU32 c 0) (\<lambda>c.
        and_then (storeU64 c (clientSendTimestampNanoseconds message)) (\<lambda>c.
        and_then (storeU64 c (hostReceiveTimestampNanoseconds message)) (\<lambda>c.
        and_then (storeU64 c (hostSendTimestampNanoseconds message)) (\<lambda>(output, offset).
        Inr output)))))))))"

section \<open>Readers: a span and an offset, unchecked\<close>

definition loadU8 :: "cursor \<Rightarrow> exn + (u8 \<times> cursor)" where
  "loadU8 c =
     (case c of (data, offset) \<Rightarrow>
        if offset < length data then Inr (data ! offset, (data, offset + 1))
        else Inl Out_Of_Bounds)"

definition loadU16 :: "cursor \<Rightarrow> exn + (u16 \<times> cursor)" where
  "loadU16 = read_be16 loadU8"

definition loadU32 :: "cursor \<Rightarrow> exn + (u32 \<times> cursor)" where
  "loadU32 = read_be32 loadU8"

definition loadU64 :: "cursor \<Rightarrow> exn + (u64 \<times> cursor)" where
  "loadU64 = read_be64 loadU8"

definition cursor_rest :: "cursor \<Rightarrow> u8 list" where
  "cursor_rest c = drop (snd c) (fst c)"

definition cursor_adv :: "nat \<Rightarrow> cursor \<Rightarrow> cursor" where
  "cursor_adv n c = (fst c, snd c + n)"

interpretation clock_reader: byte_source loadU8 cursor_rest cursor_adv Out_Of_Bounds
proof unfold_locales
  fix c :: cursor and b bs n m
  show "loadU8 c = Inl Out_Of_Bounds" if "cursor_rest c = []"
    using that by (simp add: loadU8_def cursor_rest_def case_prod_unfold)
  show "loadU8 c = Inr (b, cursor_adv 1 c)" if cons: "cursor_rest c = b # bs"
  proof -
    have "snd c < length (fst c)"
      using cons by (cases "snd c < length (fst c)") (simp_all add: cursor_rest_def)
    moreover have "fst c ! snd c = b"
      using cons by (simp add: cursor_rest_def nth_via_drop)
    ultimately show ?thesis
      by (simp add: loadU8_def cursor_adv_def case_prod_unfold)
  qed
  show "cursor_rest (cursor_adv n c) = drop n (cursor_rest c)"
    by (simp add: cursor_rest_def cursor_adv_def add.commute)
  show "cursor_adv m (cursor_adv n c) = cursor_adv (n + m) c"
    by (simp add: cursor_adv_def add.assoc)
qed

definition clock_deserialize :: "u8 list \<Rightarrow> exn + ClockSyncMessage" where
  "clock_deserialize data =
     (if length data \<noteq> MessageSize \<or> take (length clock_magic) data \<noteq> clock_magic
      then Inl (Invalid_Argument ''Clock-sync message header is invalid'')
      else
        and_then (loadU8 (data, length clock_magic)) (\<lambda>(version, c).
        if version \<noteq> ProtocolVersion
        then Inl (Invalid_Argument ''Clock-sync protocol version is unsupported'')
        else
        let result = default_ClockSyncMessage in
        and_then (loadU8 c) (\<lambda>(v, c).
        let result = result\<lparr>msg_type := v\<rparr> in
        if msg_type result \<noteq> Request \<and> msg_type result \<noteq> Response
        then Inl (Invalid_Argument ''Clock-sync message type is invalid'')
        else
        and_then (loadU16 c) (\<lambda>(size, c).
        if unat size \<noteq> MessageSize
        then Inl (Invalid_Argument ''Clock-sync message size is invalid'')
        else
        and_then (loadU32 c) (\<lambda>(v, c). let result = result\<lparr>requestId := v\<rparr> in
        and_then (loadU32 c) (\<lambda>(_, c).
        and_then (loadU64 c) (\<lambda>(v, c).
        let result = result\<lparr>clientSendTimestampNanoseconds := v\<rparr> in
        and_then (loadU64 c) (\<lambda>(v, c).
        let result = result\<lparr>hostReceiveTimestampNanoseconds := v\<rparr> in
        and_then (loadU64 c) (\<lambda>(v, c).
        let result = result\<lparr>hostSendTimestampNanoseconds := v\<rparr> in
        Inr result)))))))))"

section \<open>The bytes of a message and the message of the bytes\<close>

definition type_ok :: "ClockSyncMessage \<Rightarrow> bool" where
  "type_ok m \<longleftrightarrow> msg_type m = Request \<or> msg_type m = Response"

definition clock_bytes :: "ClockSyncMessage \<Rightarrow> u8 list" where
  "clock_bytes m =
     clock_magic @ [ProtocolVersion, msg_type m] @ put16 40 @ put32 (requestId m) @ put32 0 @
     put64 (clientSendTimestampNanoseconds m) @ put64 (hostReceiveTimestampNanoseconds m) @
     put64 (hostSendTimestampNanoseconds m)"

lemma length_clock_bytes [simp]: "length (clock_bytes m) = 40"
  by (simp add: clock_bytes_def)

lemma clock_serialize_eq:
  "clock_serialize m =
     (if type_ok m then Inr (clock_bytes m)
      else Inl (Invalid_Argument ''Clock-sync message type is invalid''))"
proof (cases "type_ok m")
  case True
  have start: "(clock_magic @ drop (length clock_magic) (replicate MessageSize 0),
      length clock_magic) = filled clock_magic 36"
    by (simp add: filled_def)
  have s: "storeU8 (filled d 36) a = Inr (filled (d @ [a]) 35)"
      "storeU8 (filled d 35) a = Inr (filled (d @ [a]) 34)"
      "storeU16 (filled d 34) v = Inr (filled (d @ put16 v) 32)"
      "storeU32 (filled d 32) x = Inr (filled (d @ put32 x) 28)"
      "storeU32 (filled d 28) x = Inr (filled (d @ put32 x) 24)"
      "storeU64 (filled d 24) t = Inr (filled (d @ put64 t) 16)"
      "storeU64 (filled d 16) t = Inr (filled (d @ put64 t) 8)"
      "storeU64 (filled d 8) t = Inr (filled (d @ put64 t) 0)" for d a v x t
    using store8 [of d 35 a] store8 [of d 34 a] store16 [of d 32 v] store32 [of d 28 x]
      store32 [of d 24 x] store64 [of d 16 t] store64 [of d 8 t] store64 [of d 0 t]
    by simp_all
  have finish: "(case filled d 0 of (output, offset) \<Rightarrow> Inr output) = Inr d" for d
    by (simp add: filled_def)
  have guard: "\<not> (msg_type m \<noteq> Request \<and> msg_type m \<noteq> Response)"
    using True by (auto simp: type_ok_def)
  show ?thesis
    unfolding clock_serialize_def Let_def if_not_P [OF guard] start if_P [OF True]
    by (simp add: s finish clock_bytes_def)
next
  case False
  then show ?thesis by (simp add: clock_serialize_def type_ok_def)
qed

definition clock_decode :: "u8 list \<Rightarrow> ClockSyncMessage" where
  "clock_decode data = \<lparr>
     msg_type = data ! 5,
     requestId = get32 (drop 8 data),
     clientSendTimestampNanoseconds = get64 (drop 16 data),
     hostReceiveTimestampNanoseconds = get64 (drop 24 data),
     hostSendTimestampNanoseconds = get64 (drop 32 data)\<rparr>"

lemmas load_simps =
  loadU16_def loadU32_def loadU64_def clock_reader.read_simps

lemma cursor_rest_start [simp]: "cursor_rest (data, n) = drop n data"
  by (simp add: cursor_rest_def)

lemma clock_deserialize_eq:
  "clock_deserialize data =
     (if length data \<noteq> 40 \<or> take 4 data \<noteq> clock_magic
      then Inl (Invalid_Argument ''Clock-sync message header is invalid'')
      else if data ! 4 \<noteq> ProtocolVersion
      then Inl (Invalid_Argument ''Clock-sync protocol version is unsupported'')
      else if \<not> type_ok (clock_decode data)
      then Inl (Invalid_Argument ''Clock-sync message type is invalid'')
      else if unat (get16 (drop 6 data)) \<noteq> 40
      then Inl (Invalid_Argument ''Clock-sync message size is invalid'')
      else Inr (clock_decode data))"
proof -
  have type: "type_ok (clock_decode data) \<longleftrightarrow> data ! 5 = Request \<or> data ! 5 = Response"
    by (simp add: type_ok_def clock_decode_def)
  consider (header) "length data \<noteq> 40 \<or> take 4 data \<noteq> clock_magic"
    | (version) "length data = 40" "take 4 data = clock_magic" "data ! 4 \<noteq> ProtocolVersion"
    | (bad_type) "length data = 40" "take 4 data = clock_magic" "data ! 4 = ProtocolVersion"
        "data ! 5 \<noteq> Request" "data ! 5 \<noteq> Response"
    | (reads) "length data = 40" "take 4 data = clock_magic" "data ! 4 = ProtocolVersion"
        "data ! 5 = Request \<or> data ! 5 = Response"
    by blast
  then show ?thesis
  proof cases
    case header
    then show ?thesis by (auto simp: clock_deserialize_def)
  next
    case version
    then show ?thesis by (simp add: clock_deserialize_def load_simps)
  next
    case bad_type
    then show ?thesis by (simp add: clock_deserialize_def load_simps type)
  next
    case reads
    then have "\<not> (data ! 5 \<noteq> Request \<and> data ! 5 \<noteq> Response)" by blast
    then show ?thesis
      using reads(1-3) unfolding type
      by (simp add: clock_deserialize_def load_simps Let_def default_ClockSyncMessage_def
          clock_decode_def)
  qed
qed

lemma clock_decode_bytes: "clock_decode (clock_bytes m) = m"
  by (simp add: clock_decode_def clock_bytes_def nth_append)

lemma clock_bytes_fields:
  "take 4 (clock_bytes m) = clock_magic" "clock_bytes m ! 4 = ProtocolVersion"
  "get16 (drop 6 (clock_bytes m)) = 40"
  by (simp_all add: clock_bytes_def nth_append)

section \<open>The offset and round trip of one exchange\<close>

record ClockSyncEstimate =
  hostMinusClientOffset :: int
  roundTripTime :: int
  samples :: u32
  clientSampleTimestampNanoseconds :: int

text \<open>
  \<open>rnd\<close> is the rounding of \<open>long double\<close>; \<open>estimate\<close> takes the 64-bit significand. The client
  timestamp is computed in unsigned arithmetic and then cast to \<open>int64_t\<close>.
\<close>

definition estimate_with ::
    "(rat \<Rightarrow> rat) \<Rightarrow> u64 \<Rightarrow> u64 \<Rightarrow> u64 \<Rightarrow> u64 \<Rightarrow> exn + ClockSyncEstimate" where
  "estimate_with rnd clientSend hostReceive hostSend clientReceive =
     (let maximum = 9223372036854775807 in
      if clientSend > maximum \<or> hostReceive > maximum \<or> hostSend > maximum \<or>
         clientReceive > maximum \<or> clientReceive < clientSend \<or> hostSend < hostReceive
      then Inl (Invalid_Argument ''Clock-sync timestamps are invalid'')
      else
        let t1 = rnd (of_int (uint clientSend));
            t2 = rnd (of_int (uint hostReceive));
            t3 = rnd (of_int (uint hostSend));
            t4 = rnd (of_int (uint clientReceive));
            roundTrip = rnd (rnd (t4 - t1) - rnd (t3 - t2));
            offset = rnd (rnd (rnd (t2 - t1) + rnd (t3 - t4)) / 2) in
        if roundTrip < 0 \<or> roundTrip > rnd (of_int (uint maximum)) \<or>
           \<bar>offset\<bar> > rnd (of_int (uint maximum))
        then Inl (Invalid_Argument ''Clock-sync timing sample is invalid'')
        else Inr \<lparr>
          hostMinusClientOffset = llround offset,
          roundTripTime = llround roundTrip,
          samples = 1,
          clientSampleTimestampNanoseconds =
            sint (clientSend + (clientReceive - clientSend) div 2)\<rparr>)"

definition estimate :: "u64 \<Rightarrow> u64 \<Rightarrow> u64 \<Rightarrow> u64 \<Rightarrow> exn + ClockSyncEstimate" where
  "estimate = estimate_with ldbl"

text \<open>The same computation in integers: the reference the floating-point code is compared with.\<close>

definition half_away :: "int \<Rightarrow> int" where
  "half_away n = (if 0 \<le> n then (n + 1) div 2 else - ((1 - n) div 2))"

definition estimate_int :: "int \<Rightarrow> int \<Rightarrow> int \<Rightarrow> int \<Rightarrow> exn + ClockSyncEstimate" where
  "estimate_int t1 t2 t3 t4 =
     (if \<not> (in_int64 t1 \<and> in_int64 t2 \<and> in_int64 t3 \<and> in_int64 t4) \<or> t4 < t1 \<or> t3 < t2
      then Inl (Invalid_Argument ''Clock-sync timestamps are invalid'')
      else if (t4 - t1) - (t3 - t2) < 0
      then Inl (Invalid_Argument ''Clock-sync timing sample is invalid'')
      else Inr \<lparr>
        hostMinusClientOffset = half_away ((t2 - t1) + (t3 - t4)),
        roundTripTime = (t4 - t1) - (t3 - t2),
        samples = 1,
        clientSampleTimestampNanoseconds = t1 + (t4 - t1) div 2\<rparr>)"

lemma llround_eq_half_away: "llround (of_int n / 2) = half_away n"
  by (simp add: llround_half half_away_def)

lemma sint_small:
  assumes "unat (w :: u64) < 2 ^ 63"
  shows "sint w = int (unat w)"
proof -
  have "sint w = signed_take_bit 63 (int (unat w))"
    by (simp add: sint_uint)
  also have "\<dots> = int (unat w)"
  proof (rule signed_take_bit_int_eq_self)
    show "- (2 ^ 63) \<le> int (unat w)"
      by (rule order_trans [OF _ of_nat_0_le_iff]) simp
    show "int (unat w) < 2 ^ 63"
      using assms by (metis of_nat_less_iff of_nat_numeral of_nat_power)
  qed
  finally show ?thesis .
qed

lemma midpoint_sint:
  assumes "unat a \<le> unat (b :: u64)" "unat b < 2 ^ 63"
  shows "sint (a + (b - a) div 2) = uint a + (uint b - uint a) div 2"
proof -
  have half: "unat ((b - a) div 2) = (unat b - unat a) div 2"
    using assms(1) by (simp add: unat_div unat_sub word_le_nat_alt)
  have less: "unat a + (unat b - unat a) div 2 < 2 ^ 63" using assms by linarith
  have mid: "unat (a + (b - a) div 2) = unat a + (unat b - unat a) div 2"
    unfolding half [symmetric] using less half by (intro unat_add_no_wrap) simp
  have "sint (a + (b - a) div 2) = int (unat a + (unat b - unat a) div 2)"
    using sint_small [of "a + (b - a) div 2"] less unfolding mid by simp
  also have "\<dots> = int (unat a) + (int (unat b) - int (unat a)) div 2"
    using assms(1) by (simp only: of_nat_add zdiv_int of_nat_diff of_nat_numeral)
  finally show ?thesis by (simp only: uint_nat)
qed

context rounding
begin

lemma exact_diff:
  assumes "\<bar>a\<bar> \<le> 2 ^ prec" "\<bar>b\<bar> \<le> 2 ^ prec" "\<bar>a - b\<bar> \<le> 2 ^ prec"
  shows "rnd (rnd (of_int a) - rnd (of_int b)) = of_int (a - b)"
  using assms exact_int [of "a - b"] by (simp add: exact_int)

text \<open>
  When the timestamps leave one bit of the significand free, no operation of the code rounds and
  the result is the integer computation's.
\<close>

lemma estimate_exact:
  assumes le: "uint clientSend < 2 ^ (prec - 1)" "uint hostReceive < 2 ^ (prec - 1)"
    "uint hostSend < 2 ^ (prec - 1)" "uint clientReceive < 2 ^ (prec - 1)"
    and prec: "1 \<le> prec"
  shows "estimate_with rnd clientSend hostReceive hostSend clientReceive =
    estimate_int (uint clientSend) (uint hostReceive) (uint hostSend) (uint clientReceive)"
proof -
  define t1 t2 t3 t4 where t: "t1 = uint clientSend" "t2 = uint hostReceive"
    "t3 = uint hostSend" "t4 = uint clientReceive"
  note le = le [folded t]
  have dbl: "(2 :: int) ^ prec = 2 * 2 ^ (prec - 1)"
    using prec by (cases prec) simp_all
  have pos: "0 \<le> t1" "0 \<le> t2" "0 \<le> t3" "0 \<le> t4" by (simp_all add: t)
  have exact_ts: "rnd (of_int t1) = of_int t1" "rnd (of_int t2) = of_int t2"
    "rnd (of_int t3) = of_int t3" "rnd (of_int t4) = of_int t4"
    using le pos dbl by (simp_all add: exact_int)
  have d: "rnd (of_int a - of_int b) = of_int (a - b)" if "\<bar>a - b\<bar> \<le> 2 ^ prec" for a b
    using exact_int [OF that] by simp
  have diffs: "rnd (of_int t4 - of_int t1) = of_int (t4 - t1)"
    "rnd (of_int t3 - of_int t2) = of_int (t3 - t2)"
    "rnd (of_int t2 - of_int t1) = of_int (t2 - t1)"
    "rnd (of_int t3 - of_int t4) = of_int (t3 - t4)"
    using le pos dbl by (intro d; linarith)+
  have rtt: "rnd (of_int (t4 - t1) - of_int (t3 - t2)) = of_int ((t4 - t1) - (t3 - t2))"
    using le pos dbl by (intro d) linarith
  define n where "n = (t2 - t1) + (t3 - t4)"
  define r where "r = (t4 - t1) - (t3 - t2)"
  have n_bound: "\<bar>n\<bar> \<le> 2 ^ prec"
    unfolding n_def using le pos dbl by linarith
  have sum: "rnd (of_int (t2 - t1) + of_int (t3 - t4)) = of_int n"
    using exact_int [OF n_bound] by (simp add: n_def)
  note half = exact_half [OF n_bound]
  let ?max = "9223372036854775807 :: int"
  have guard: "(clientSend > 9223372036854775807 \<or> hostReceive > 9223372036854775807 \<or>
      hostSend > 9223372036854775807 \<or> clientReceive > 9223372036854775807 \<or>
      clientReceive < clientSend \<or> hostSend < hostReceive) \<longleftrightarrow>
    \<not> (in_int64 t1 \<and> in_int64 t2 \<and> in_int64 t3 \<and> in_int64 t4) \<or> t4 < t1 \<or> t3 < t2"
  proof -
    have "in_int64 t1 \<longleftrightarrow> t1 \<le> int64_max" "in_int64 t2 \<longleftrightarrow> t2 \<le> int64_max"
      "in_int64 t3 \<longleftrightarrow> t3 \<le> int64_max" "in_int64 t4 \<longleftrightarrow> t4 \<le> int64_max"
      using pos by (simp_all add: in_int64_def)
    then show ?thesis by (auto simp: t word_less_def not_le)
  qed
  show ?thesis
  proof (cases "\<not> (in_int64 t1 \<and> in_int64 t2 \<and> in_int64 t3 \<and> in_int64 t4) \<or> t4 < t1 \<or> t3 < t2")
    case True
    then show ?thesis
      unfolding estimate_with_def estimate_int_def Let_def t [symmetric] guard by simp
  next
    case False
    have rtt_le: "rnd (of_int ?max) \<ge> of_int ((t4 - t1) - (t3 - t2))"
    proof -
      have "(t4 - t1) - (t3 - t2) \<le> ?max"
        using False pos by (simp add: in_int64_def)
      then have "of_int ((t4 - t1) - (t3 - t2)) \<le> (of_int ?max :: rat)"
        by (simp only: of_int_le_iff)
      then have "rnd (of_int ((t4 - t1) - (t3 - t2))) \<le> rnd (of_int ?max)"
        by (rule mono)
      moreover have "rnd (of_int ((t4 - t1) - (t3 - t2))) = of_int ((t4 - t1) - (t3 - t2))"
        using le pos dbl by (intro exact_int) linarith
      ultimately show ?thesis by (simp only:)
    qed
    have off_le: "\<bar>of_int n / 2\<bar> \<le> rnd (of_int ?max)"
    proof -
      have "n \<le> 2 * ?max" "- n \<le> 2 * ?max"
        using False pos by (simp_all add: in_int64_def n_def)
      then have n_half: "of_int n \<le> (of_int (2 * ?max) :: rat)" "of_int (- n) \<le> (of_int (2 * ?max) :: rat)"
        by (simp_all only: of_int_le_iff)
      have "of_int n / 2 \<le> (of_int ?max :: rat)" "- (of_int n / 2) \<le> (of_int ?max :: rat)"
        using n_half by simp_all
      then have "rnd (of_int n / 2) \<le> rnd (of_int ?max)" "rnd (- (of_int n / 2)) \<le> rnd (of_int ?max)"
        by (simp_all only: mono)
      then show ?thesis by (simp add: half odd abs_le_iff)
    qed
    have mid: "sint (clientSend + (clientReceive - clientSend) div 2) = t1 + (t4 - t1) div 2"
    proof -
      have u: "int (unat clientSend) = t1" "int (unat clientReceive) = t4"
        by (simp_all only: t uint_nat)
      have "int (unat clientSend) \<le> int (unat clientReceive)" "int (unat clientReceive) < int (2 ^ 63)"
        unfolding u using False by (simp_all add: in_int64_def)
      then have "unat clientSend \<le> unat clientReceive" "unat clientReceive < 2 ^ 63"
        by (simp_all only: of_nat_le_iff of_nat_less_iff)
      then show ?thesis unfolding t by (rule midpoint_sint)
    qed
    show ?thesis
      using False rtt_le off_le
      unfolding estimate_with_def estimate_int_def Let_def t [symmetric] guard exact_ts diffs rtt
        sum half mid r_def [symmetric] n_def [symmetric]
      by (simp add: llround_eq_half_away not_less)
  qed
qed

end

section \<open>Properties of the messages\<close>

definition example_probe :: ClockSyncMessage where
  "example_probe = \<lparr>msg_type = Response, requestId = 259, clientSendTimestampNanoseconds = 1000,
     hostReceiveTimestampNanoseconds = 5600, hostSendTimestampNanoseconds = 5700\<rparr>"

lemma example_probe_ok: "type_ok example_probe"
  by (simp add: type_ok_def example_probe_def)

text \<open>
  Every probe message that serializes is exactly 40 bytes, the stores stay inside the array,
  and reading the bytes back gives the same message.
\<close>

theorem probe_roundtrip:
  assumes "clock_serialize m = Inr bs"
  shows "length bs = 40 \<and> clock_deserialize bs = Inr m"
proof -
  have ok: "type_ok m" and bs: "bs = clock_bytes m"
    using assms by (simp_all add: clock_serialize_eq split: if_splits)
  then show ?thesis
    unfolding bs by (simp add: clock_deserialize_eq clock_bytes_fields clock_decode_bytes)
qed

theorem probe_roundtrip_witness:
  "clock_serialize example_probe = Inr (clock_bytes example_probe) \<and>
   clock_deserialize (clock_bytes example_probe) = Inr example_probe"
proof -
  have "clock_serialize example_probe = Inr (clock_bytes example_probe)"
    using example_probe_ok by (simp add: clock_serialize_eq)
  with probe_roundtrip [OF this] show ?thesis by blast
qed

text \<open>
  The unchecked readers of the clock serializer never index outside the datagram: on every
  byte string \<open>deserialize\<close> returns or throws \<open>invalid_argument\<close>, and it returns exactly when the
  string is 40 bytes with the magic, version 1, size 40 and a known message type.
\<close>

theorem probe_reads_in_bounds:
  "clock_deserialize bs \<noteq> Inl Out_Of_Bounds \<and>
   is_ok (clock_deserialize bs) =
     (length bs = 40 \<and> take 4 bs = clock_magic \<and> bs ! 4 = 1 \<and>
      (bs ! 5 = 1 \<or> bs ! 5 = 2) \<and> unat (get16 (drop 6 bs)) = 40)"
  by (auto simp: clock_deserialize_eq type_ok_def clock_decode_def ProtocolVersion_def
      Request_def Response_def)

section \<open>Properties of the estimate\<close>

text \<open>
  The \<open>long double\<close> computation of the code never rounds before its final conversion: on
  all four 64-bit timestamps \<open>estimate\<close> is the integer computation, offset halved with ties away
  from zero, the checks included.
\<close>

theorem estimate_is_integer:
  "estimate t1 t2 t3 t4 = estimate_int (uint t1) (uint t2) (uint t3) (uint t4)"
proof (cases "uint t1 < 2 ^ 63 \<and> uint t2 < 2 ^ 63 \<and> uint t3 < 2 ^ 63 \<and> uint t4 < 2 ^ 63")
  case True
  then show ?thesis
    unfolding estimate_def by (intro extended.estimate_exact) simp_all
next
  case False
  then have guard: "t1 > 9223372036854775807 \<or> t2 > 9223372036854775807 \<or>
      t3 > 9223372036854775807 \<or> t4 > 9223372036854775807 \<or> t4 < t1 \<or> t3 < t2"
    by (auto simp: word_less_def)
  moreover have "\<not> (in_int64 (uint t1) \<and> in_int64 (uint t2) \<and> in_int64 (uint t3) \<and> in_int64 (uint t4))"
    using False by (auto simp: in_int64_def)
  ultimately show ?thesis
    unfolding estimate_def estimate_with_def Let_def if_P [OF guard]
    by (simp add: estimate_int_def)
qed

lemma half_away_bounds: "2 * \<bar>half_away n\<bar> \<le> \<bar>n\<bar> + 1" "\<bar>2 * half_away n - n\<bar> \<le> 1"
  by (auto simp: half_away_def)

lemma half_away_even: "half_away (2 * k) = k"
  by (auto simp: half_away_def)

text \<open>
  When the host clock is ahead of the client clock by \<open>offset\<close> and the request and response
  travelled for \<open>there\<close> and \<open>back\<close> nanoseconds, an accepted sample reports exactly the sum of the
  two delays as round trip, and an offset that is wrong by at most half the round trip (rounded
  up); equal delays give the exact offset.
\<close>

theorem estimate_error_bound:
  assumes "estimate t1 t2 t3 t4 = Inr e"
    and "uint t2 = uint t1 + offset + there" and "uint t4 = uint t3 - offset + back"
    and "0 \<le> there" and "0 \<le> back"
  shows "roundTripTime e = there + back \<and>
    2 * \<bar>hostMinusClientOffset e - offset\<bar> \<le> roundTripTime e + 1 \<and>
    (there = back \<longrightarrow> hostMinusClientOffset e = offset)"
proof -
  have e: "hostMinusClientOffset e = half_away (2 * offset + (there - back))"
    "roundTripTime e = there + back"
    using assms(1-3) unfolding estimate_is_integer
    by (auto simp: estimate_int_def algebra_simps split: if_splits)
  define h where "h = half_away (2 * offset + (there - back))"
  have "\<bar>2 * h - (2 * offset + (there - back))\<bar> \<le> 1"
    unfolding h_def by (rule half_away_bounds)
  then have "2 * \<bar>h - offset\<bar> \<le> there + back + 1"
    using assms(4,5) by arith
  moreover have "there = back \<Longrightarrow> h = offset"
    using half_away_even [of offset] by (simp add: h_def)
  ultimately show ?thesis unfolding e h_def [symmetric] by blast
qed

lemma estimate_example:
  "estimate 1000 5600 5700 1400 = Inr \<lparr>hostMinusClientOffset = 4450, roundTripTime = 300,
     samples = 1, clientSampleTimestampNanoseconds = 1200\<rparr>"
  unfolding estimate_is_integer by (simp add: estimate_int_def in_int64_def half_away_def)

theorem estimate_error_bound_witness:
  "\<exists>e. estimate 1000 5600 5700 1400 = Inr e \<and> roundTripTime e = 300 \<and>
    2 * \<bar>hostMinusClientOffset e - 4400\<bar> \<le> roundTripTime e + 1"
  using estimate_example estimate_error_bound [OF estimate_example, of 4400 200 100] by simp

text \<open>
  \<open>estimate\<close> accepts exactly the timestamps that fit \<open>int64_t\<close>, are ordered on each clock, and
  whose round trip is not shorter than the host's processing time; what it returns fits
  \<open>int64_t\<close>, has a nonnegative round trip and a sampling time between send and receive.
\<close>

theorem estimate_accepts_iff:
  "is_ok (estimate t1 t2 t3 t4) =
     (uint t4 \<le> int64_max \<and> uint t3 \<le> int64_max \<and> uint t1 \<le> uint t4 \<and> uint t2 \<le> uint t3 \<and>
      uint t3 - uint t2 \<le> uint t4 - uint t1) \<and>
   (case estimate t1 t2 t3 t4 of
      Inl e \<Rightarrow> \<exists>m. e = Invalid_Argument m
    | Inr r \<Rightarrow> in_int64 (hostMinusClientOffset r) \<and> 0 \<le> roundTripTime r \<and>
        roundTripTime r \<le> int64_max \<and>
        uint t1 \<le> clientSampleTimestampNanoseconds r \<and>
        clientSampleTimestampNanoseconds r \<le> uint t4)"
proof -
  have pos: "in_int64 (uint t) \<longleftrightarrow> uint t \<le> int64_max" for t :: u64
    unfolding in_int64_def using order_trans [OF _ uint_ge_0, of int64_min t] by simp
  define a b c d where t: "a = uint t1" "b = uint t2" "c = uint t3" "d = uint t4"
  have ge: "0 \<le> a" "0 \<le> b" "0 \<le> c" "0 \<le> d" by (simp_all add: t)
  have "in_int64 (half_away ((b - a) + (c - d)))" if "a \<le> d" "b \<le> c" "c \<le> int64_max" "d \<le> int64_max"
    using that ge half_away_bounds(1) [of "(b - a) + (c - d)"] unfolding in_int64_def by linarith
  then show ?thesis
    using ge pos [of t1] pos [of t2] pos [of t3] pos [of t4]
    unfolding estimate_is_integer t [symmetric]
    by (auto simp: estimate_int_def)
qed

text \<open>
  Where \<open>long double\<close> is only a \<open>double\<close>, as with the Windows compiler, the estimate is the
  same as long as the clocks read less than 2 to the 52 nanoseconds, some 52 days of uptime.
\<close>

theorem estimate_double_agrees:
  assumes "uint t1 < 2 ^ 52" "uint t2 < 2 ^ 52" "uint t3 < 2 ^ 52" "uint t4 < 2 ^ 52"
  shows "estimate_with dbl t1 t2 t3 t4 = estimate t1 t2 t3 t4"
  unfolding estimate_is_integer using assms by (intro binary64.estimate_exact) simp_all

theorem estimate_double_agrees_witness:
  "uint (1400 :: u64) < 2 ^ 52 \<and> estimate_with dbl 1000 5600 5700 1400 = estimate 1000 5600 5700 1400"
  using estimate_double_agrees [of 1000 5600 5700 1400] by simp

end
