(* ===== verification/Clock_Transport.thy ===== *)
theory Clock_Transport
  imports Clock_Sync "HOL-Library.Multiset"
begin

text \<open>
  The clock probes on UDP: \<open>ClockSyncServer::Impl::run\<close> and \<open>ClockSyncClient::measure\<close> of
  \<open>desktop/src/ClockSyncTransport.cpp\<close>. Sockets and the steady clock are outside the model: what
  \<open>recvfrom\<close> and the clock return is the input of each iteration, and the loops are recursions
  over the list of iterations. The end of the list is the stop flag for the server and the
  deadline for the client.
\<close>

section \<open>The server\<close>

text \<open>
  \<open>recvfrom\<close> delivered bytes, timed out, or failed for another reason; with each datagram come
  the two clock readings \<open>t2\<close> and \<open>t3\<close> of the iteration.
\<close>

datatype server_event =
    Server_Datagram "u8 list" u64 u64
  | Server_Timeout
  | Server_Socket_Error

text \<open>The body of the \<open>try\<close> block; an exception or a non-request sends nothing.\<close>

definition serve_reply :: "u8 list \<Rightarrow> u64 \<Rightarrow> u64 \<Rightarrow> u8 list option" where
  "serve_reply bytes t2 t3 =
     (case clock_deserialize bytes of
        Inl e \<Rightarrow> None
      | Inr message \<Rightarrow>
          if msg_type message \<noteq> Request then None
          else
            let message = message\<lparr>msg_type := Response,
                  hostReceiveTimestampNanoseconds := t2,
                  hostSendTimestampNanoseconds := t3\<rparr> in
            (case clock_serialize message of Inl e \<Rightarrow> None | Inr response \<Rightarrow> Some response))"

text \<open>
  The loop: the responses sent, in order, and whether the loop is still running at the end. A
  timeout continues, any other socket error returns from the thread.
\<close>

fun server_run :: "server_event list \<Rightarrow> u8 list list \<times> bool" where
  "server_run [] = ([], True)"
| "server_run (Server_Timeout # es) = server_run es"
| "server_run (Server_Socket_Error # es) = ([], False)"
| "server_run (Server_Datagram bytes t2 t3 # es) =
     (let (sent, alive) = server_run es in
      (case serve_reply bytes t2 t3 of None \<Rightarrow> sent | Some r \<Rightarrow> r # sent, alive))"

section \<open>The client\<close>

datatype client_event =
    Send_Failed u64 string
  | Recv_Timeout u64
  | Recv_Failed u64 string
  | Reply u64 "u8 list" u64

text \<open>
  One accepted response becomes a sample; a malformed, foreign or inconsistent one is skipped.
\<close>

definition reply_sample :: "ClockSyncMessage \<Rightarrow> u8 list \<Rightarrow> u64 \<Rightarrow> ClockSyncEstimate option" where
  "reply_sample request bytes t4 =
     (case clock_deserialize bytes of
        Inl e \<Rightarrow> None
      | Inr response \<Rightarrow>
          if msg_type response \<noteq> Response \<or> requestId response \<noteq> requestId request \<or>
             clientSendTimestampNanoseconds response \<noteq> clientSendTimestampNanoseconds request
          then None
          else
            (case estimate (clientSendTimestampNanoseconds response)
                (hostReceiveTimestampNanoseconds response)
                (hostSendTimestampNanoseconds response) t4 of
               Inl e \<Rightarrow> None | Inr s \<Rightarrow> Some s))"

definition make_request :: "u32 \<Rightarrow> u64 \<Rightarrow> ClockSyncMessage" where
  "make_request n t1 = default_ClockSyncMessage
     \<lparr>requestId := n, clientSendTimestampNanoseconds := t1\<rparr>"

fun measure_loop ::
    "nat \<Rightarrow> u32 \<Rightarrow> ClockSyncEstimate list \<Rightarrow> client_event list \<Rightarrow> exn + ClockSyncEstimate list" where
  "measure_loop desired n got [] = Inr got"
| "measure_loop desired n got (e # es) =
     (if \<not> length got < desired then Inr got
      else case e of
        Send_Failed t1 err \<Rightarrow>
          Inl (Runtime_Error (''Unable to send clock-sync request: '' @ err))
      | Recv_Timeout t1 \<Rightarrow> measure_loop desired (n + 1) got es
      | Recv_Failed t1 err \<Rightarrow>
          Inl (Runtime_Error (''Unable to receive clock-sync response: '' @ err))
      | Reply t1 bytes t4 \<Rightarrow>
          (case reply_sample (make_request n t1) bytes t4 of
             None \<Rightarrow> measure_loop desired (n + 1) got es
           | Some s \<Rightarrow> measure_loop desired (n + 1) (got @ [s]) es))"

text \<open>
  The selection: sort by round trip, sort the three best by offset, take the middle one, and
  report the smallest round trip and the number of samples with it. \<open>std::sort\<close> leaves the order
  of equal elements open, so the two sorts are parameters; \<open>clock_measure\<close> instantiates them.
\<close>

definition select_estimate ::
    "(ClockSyncEstimate list \<Rightarrow> ClockSyncEstimate list) \<Rightarrow>
     (ClockSyncEstimate list \<Rightarrow> ClockSyncEstimate list) \<Rightarrow>
     ClockSyncEstimate list \<Rightarrow> exn + ClockSyncEstimate" where
  "select_estimate sort_rtt sort_offset got =
     (if got = []
      then Inl (Runtime_Error
        ''Clock sync timed out; ensure the host and control port are reachable'')
      else
        let sorted = sort_rtt got;
            selectedCount = min 3 (length sorted);
            minimumRtt = roundTripTime (hd sorted);
            reordered = sort_offset (take selectedCount sorted) @ drop selectedCount sorted;
            result = reordered ! (selectedCount div 2)
        in Inr (result\<lparr>roundTripTime := minimumRtt, samples := of_nat (length sorted)\<rparr>))"

definition clock_measure :: "u16 \<Rightarrow> int \<Rightarrow> u32 \<Rightarrow> client_event list \<Rightarrow> exn + ClockSyncEstimate" where
  "clock_measure port overallTimeout desiredSamples events =
     (if port = 0 \<or> desiredSamples = 0 \<or> overallTimeout \<le> 0
      then Inl (Invalid_Argument ''Clock-sync measurement settings are invalid'')
      else and_then (measure_loop (unat desiredSamples) 1 [] events)
        (select_estimate (sort_key roundTripTime) (sort_key hostMinusClientOffset)))"

section \<open>The contract of \<open>std::sort\<close>\<close>

text \<open>\<open>sort_by\<close> permutes its argument into ascending order of \<open>key\<close>.\<close>

locale std_sort =
  fixes sort_by :: "'a list \<Rightarrow> 'a list"
    and key :: "'a \<Rightarrow> int"
  assumes perm: "mset (sort_by xs) = mset xs"
    and ascending: "sorted (map key (sort_by xs))"
begin

lemma length_sort_by [simp]: "length (sort_by xs) = length xs"
  using perm mset_eq_length by blast

lemma set_sort_by [simp]: "set (sort_by xs) = set xs"
  using perm mset_eq_setD by blast

lemma key_mono: "i \<le> j \<Longrightarrow> j < length xs \<Longrightarrow> key (sort_by xs ! i) \<le> key (sort_by xs ! j)"
  using ascending [of xs] by (auto simp: sorted_iff_nth_mono)

lemma head_least:
  assumes "x \<in> set xs"
  shows "key (hd (sort_by xs)) \<le> key x"
proof -
  obtain j where j: "j < length xs" "x = sort_by xs ! j"
    using assms by (metis in_set_conv_nth length_sort_by set_sort_by)
  then have "sort_by xs \<noteq> []" by (metis length_0_conv length_sort_by not_less_zero)
  then show ?thesis using key_mono [of 0 j xs] j by (simp add: hd_conv_nth)
qed

text \<open>Every element past the first \<open>k\<close> has a key at least as large as each of the first \<open>k\<close>.\<close>

lemma take_least:
  assumes "x \<in> set (take k (sort_by xs))" "y \<in> set (drop k (sort_by xs))"
  shows "key x \<le> key y"
proof -
  obtain i where i: "i < k" "i < length xs" "x = sort_by xs ! i"
    using assms(1) by (auto simp: in_set_conv_nth)
  obtain j where j: "k + j < length xs" "y = sort_by xs ! (k + j)"
  proof -
    obtain j where "j < length (drop k (sort_by xs))" "drop k (sort_by xs) ! j = y"
      using assms(2) unfolding in_set_conv_nth by blast
    then show thesis by (intro that [of j]) simp_all
  qed
  show ?thesis using key_mono [of i "k + j" xs] i j by simp
qed

end

text \<open>
  The selection for any two sorts with that contract. The chosen sample \<open>s\<close> is one of the at most
  three in \<open>best\<close>, whose round trips are the smallest, and it is their median in offset.
\<close>

locale clock_selection =
  rtt: std_sort sort_rtt roundTripTime + off: std_sort sort_off hostMinusClientOffset
  for sort_rtt :: "ClockSyncEstimate list \<Rightarrow> ClockSyncEstimate list"
    and sort_off :: "ClockSyncEstimate list \<Rightarrow> ClockSyncEstimate list"
begin

lemma selection:
  assumes "select_estimate sort_rtt sort_off got = Inr r"
  obtains best others s where "got \<noteq> []" and "mset got = mset best + mset others"
    and "length best = min 3 (length got)"
    and "\<And>x y. x \<in> set best \<Longrightarrow> y \<in> set others \<Longrightarrow> roundTripTime x \<le> roundTripTime y"
    and "sorted (map hostMinusClientOffset best)" and "s = best ! (length best div 2)"
    and "r = s\<lparr>roundTripTime := Min (roundTripTime ` set got), samples := of_nat (length got)\<rparr>"
proof -
  have ne: "got \<noteq> []" using assms by (auto simp: select_estimate_def split: if_splits)
  define k where "k = min 3 (length got)"
  have k: "0 < k" "k \<le> length got" using ne by (simp_all add: k_def)
  define best where "best = sort_off (take k (sort_rtt got))"
  define others where "others = drop k (sort_rtt got)"
  have len: "length best = k" using k by (simp add: best_def)
  have "mset best + mset others = mset (take k (sort_rtt got) @ drop k (sort_rtt got))"
    unfolding best_def others_def by (simp only: off.perm mset_append)
  then have m: "mset got = mset best + mset others"
    by (simp add: rtt.perm)
  have order: "roundTripTime x \<le> roundTripTime y" if "x \<in> set best" "y \<in> set others" for x y
    using that rtt.take_least unfolding best_def others_def by simp
  have hd_min: "roundTripTime (hd (sort_rtt got)) = Min (roundTripTime ` set got)"
  proof (rule Min_eqI [symmetric])
    have "sort_rtt got \<noteq> []" using ne by (metis length_0_conv rtt.length_sort_by)
    then have "hd (sort_rtt got) \<in> set got" using hd_in_set rtt.set_sort_by by blast
    then show "roundTripTime (hd (sort_rtt got)) \<in> roundTripTime ` set got" by simp
  qed (auto intro: rtt.head_least)
  have "k div 2 < k" using k by simp
  then have "(best @ others) ! (k div 2) = best ! (length best div 2)"
    by (simp add: nth_append len)
  then have "r = (best ! (length best div 2))
      \<lparr>roundTripTime := Min (roundTripTime ` set got), samples := of_nat (length got)\<rparr>"
    using assms ne hd_min
    by (simp add: select_estimate_def Let_def k_def best_def others_def)
  moreover have "sorted (map hostMinusClientOffset best)"
    unfolding best_def by (rule off.ascending)
  ultimately show thesis
    using that ne m order len k_def by blast
qed

end

interpretation by_rtt: std_sort "sort_key roundTripTime" roundTripTime
  by unfold_locales simp_all

interpretation by_offset: std_sort "sort_key hostMinusClientOffset" hostMinusClientOffset
  by unfold_locales simp_all

interpretation sort_keys: clock_selection "sort_key roundTripTime" "sort_key hostMinusClientOffset"
  by unfold_locales

section \<open>Properties\<close>

lemma serve_reply_request:
  assumes "clock_deserialize bytes = Inr m" "msg_type m = Request"
  shows "serve_reply bytes t2 t3 =
    Some (clock_bytes (m\<lparr>msg_type := Response, hostReceiveTimestampNanoseconds := t2,
      hostSendTimestampNanoseconds := t3\<rparr>))"
  using assms by (simp add: serve_reply_def Let_def clock_serialize_eq type_ok_def)

lemma deserialize_clock_bytes: "type_ok m \<Longrightarrow> clock_deserialize (clock_bytes m) = Inr m"
  by (simp add: clock_deserialize_eq clock_bytes_fields clock_decode_bytes)

lemma type_ok_request [simp]: "type_ok (make_request n t1)"
  by (simp add: type_ok_def make_request_def default_ClockSyncMessage_def)

text \<open>
  C5. One probe exchange, end to end: the bytes of a request, answered by the server at \<open>t2\<close> and
  \<open>t3\<close> and received by the client at \<open>t4\<close>, make a sample exactly when \<open>estimate\<close> accepts the four
  timestamps, and the sample is its result; the answer to any other request, by number or by send
  time, is skipped.
\<close>

theorem probe_exchange:
  assumes "clock_serialize (make_request n t1) = Inr request"
    and "serve_reply request t2 t3 = Some response"
  shows "reply_sample (make_request n' t1') response t4 =
    (if n' = n \<and> t1' = t1
     then (case estimate t1 t2 t3 t4 of Inl _ \<Rightarrow> None | Inr s \<Rightarrow> Some s) else None)"
proof -
  have "request = clock_bytes (make_request n t1)"
    using assms(1) by (simp add: clock_serialize_eq)
  then have "clock_deserialize request = Inr (make_request n t1)"
    by (simp add: deserialize_clock_bytes)
  moreover have "msg_type (make_request n t1) = Request"
    by (simp add: make_request_def default_ClockSyncMessage_def)
  ultimately have "response = clock_bytes ((make_request n t1)\<lparr>msg_type := Response,
      hostReceiveTimestampNanoseconds := t2, hostSendTimestampNanoseconds := t3\<rparr>)"
    using assms(2) by (simp add: serve_reply_request)
  then show ?thesis
    by (auto simp: reply_sample_def deserialize_clock_bytes type_ok_def make_request_def
        default_ClockSyncMessage_def)
qed

theorem probe_exchange_witness:
  "\<exists>request response. clock_serialize (make_request 1 1000) = Inr request \<and>
     serve_reply request 5600 5700 = Some response \<and>
     reply_sample (make_request 1 1000) response 1400 =
       Some \<lparr>hostMinusClientOffset = 4450, roundTripTime = 300, samples = 1,
         clientSampleTimestampNanoseconds = 1200\<rparr>"
proof -
  have req: "clock_serialize (make_request 1 1000) = Inr (clock_bytes (make_request 1 1000))"
    by (simp add: clock_serialize_eq)
  have "msg_type (make_request 1 1000) = Request"
    by (simp add: make_request_def default_ClockSyncMessage_def)
  then obtain response where res: "serve_reply (clock_bytes (make_request 1 1000)) 5600 5700 = Some response"
    using serve_reply_request [OF deserialize_clock_bytes [OF type_ok_request]] by blast
  show ?thesis
    using req res probe_exchange [OF req res, of 1 1000 1400] estimate_example by auto
qed

lemma measure_loop_prefix:
  "measure_loop desired n got es = Inr all \<Longrightarrow> length got \<le> desired \<Longrightarrow>
    length all \<le> desired \<and> take (length got) all = got"
proof (induction es arbitrary: n got)
  case Nil
  then show ?case by simp
next
  case (Cons e es)
  show ?case
  proof (cases "length got < desired")
    case False
    with Cons.prems show ?thesis by simp
  next
    case True
    show ?thesis
    proof (cases e)
      case (Reply t1 bytes t4)
      show ?thesis
      proof (cases "reply_sample (make_request n t1) bytes t4")
        case None
        with Cons Reply True show ?thesis by simp
      next
        case (Some s)
        with Cons.prems Reply True have "measure_loop desired (n + 1) (got @ [s]) es = Inr all"
          by simp
        then have "length all \<le> desired \<and> take (length got + 1) all = got @ [s]"
          using Cons.IH [of "n + 1" "got @ [s]"] True by simp
        then show ?thesis by (metis append_eq_conv_conj append_take_drop_id take_add append_assoc)
      qed
    qed (use Cons True in auto)
  qed
qed

definition example_response :: "u64 \<Rightarrow> u64 \<Rightarrow> u64 \<Rightarrow> ClockSyncMessage" where
  "example_response t1 t2 t3 = (make_request 1 t1)\<lparr>msg_type := Response,
     hostReceiveTimestampNanoseconds := t2, hostSendTimestampNanoseconds := t3\<rparr>"

definition example_events :: "client_event list" where
  "example_events = [Reply 1000 (clock_bytes (example_response 1000 5600 5700)) 1400]"

definition example_sample :: ClockSyncEstimate where
  "example_sample = \<lparr>hostMinusClientOffset = 4450, roundTripTime = 300, samples = 1,
     clientSampleTimestampNanoseconds = 1200\<rparr>"

lemma example_measure_loop: "measure_loop 1 1 [] example_events = Inr [example_sample]"
proof -
  have "clock_deserialize (clock_bytes (example_response 1000 5600 5700)) =
      Inr (example_response 1000 5600 5700)"
    by (rule deserialize_clock_bytes) (simp add: type_ok_def example_response_def)
  then show ?thesis
    using estimate_example
    by (simp add: example_events_def reply_sample_def example_response_def make_request_def
        default_ClockSyncMessage_def example_sample_def)
qed

lemma example_clock_measure: "clock_measure 47003 5000000000 1 example_events = Inr example_sample"
  by (simp add: clock_measure_def example_measure_loop [simplified] select_estimate_def Let_def
      example_sample_def)

text \<open>
  C6. A measurement that returns has collected at least one and at most the desired number of
  samples and reports how many; its round trip is the smallest of all; its offset and sampling
  time are those of one sample that is the median in offset among the at most three samples with
  the smallest round trips.
\<close>

theorem clock_measure_median:
  assumes "clock_measure port timeout desired events = Inr r"
  shows "\<exists>got best others s. measure_loop (unat desired) 1 [] events = Inr got \<and>
    0 < length got \<and> length got \<le> unat desired \<and> mset got = mset best + mset others \<and>
    length best = min 3 (length got) \<and>
    (\<forall>x \<in> set best. \<forall>y \<in> set others. roundTripTime x \<le> roundTripTime y) \<and>
    sorted (map hostMinusClientOffset best) \<and> s = best ! (length best div 2) \<and>
    r = s\<lparr>roundTripTime := Min (roundTripTime ` set got), samples := of_nat (length got)\<rparr>"
proof -
  obtain got where got: "measure_loop (unat desired) 1 [] events = Inr got"
    and r: "select_estimate (sort_key roundTripTime) (sort_key hostMinusClientOffset) got = Inr r"
    using assms by (auto simp: clock_measure_def res_simps split: if_splits)
  have "length got \<le> unat desired"
    using measure_loop_prefix [OF got] by simp
  then show ?thesis
    using got by (rule_tac sort_keys.selection [OF r]) blast
qed

theorem clock_measure_median_witness:
  "\<exists>got s. got = [example_sample] \<and> length got \<le> 1 \<and> s \<in> set got \<and>
     example_sample = s\<lparr>roundTripTime := Min (roundTripTime ` set got), samples := 1\<rparr>"
proof -
  obtain got best others s where *: "measure_loop (unat (1 :: u32)) 1 [] example_events = Inr got"
    "length got \<le> unat (1 :: u32)" "mset got = mset best + mset others"
    "length best = min 3 (length got)" "s = best ! (length best div 2)"
    "example_sample = s\<lparr>roundTripTime := Min (roundTripTime ` set got),
       samples := of_nat (length got)\<rparr>"
    using clock_measure_median [OF example_clock_measure] by blast
  then have got: "got = [example_sample]" using example_measure_loop by simp
  then have "length best = 1" "set best \<subseteq> set got"
    using * by (auto simp flip: set_mset_mset)
  then show ?thesis using * got by (cases best) auto
qed

text \<open>
  The measured offset is as good as the worst of the three best samples: if each sample lies
  within \<open>lo\<close> and \<open>hi\<close> when fewer than three are faster, so does the result, however far off the
  slower samples are.
\<close>

theorem clock_measure_within:
  assumes "clock_measure port timeout desired events = Inr r"
    and "measure_loop (unat desired) 1 [] events = Inr got"
    and "\<And>s. s \<in> set got \<Longrightarrow> length (filter (\<lambda>x. roundTripTime x < roundTripTime s) got) < 3 \<Longrightarrow>
      lo \<le> hostMinusClientOffset s \<and> hostMinusClientOffset s \<le> hi"
  shows "lo \<le> hostMinusClientOffset r \<and> hostMinusClientOffset r \<le> hi"
proof -
  have r: "select_estimate (sort_key roundTripTime) (sort_key hostMinusClientOffset) got = Inr r"
    using assms(1,2) by (auto simp: clock_measure_def split: if_splits)
  obtain best others s where ne: "got \<noteq> []" and m: "mset got = mset best + mset others"
    and len: "length best = min 3 (length got)"
    and order: "\<And>x y. x \<in> set best \<Longrightarrow> y \<in> set others \<Longrightarrow> roundTripTime x \<le> roundTripTime y"
    and s: "s = best ! (length best div 2)"
    and rs: "r = s\<lparr>roundTripTime := Min (roundTripTime ` set got), samples := of_nat (length got)\<rparr>"
    by (rule sort_keys.selection [OF r]) blast
  have "length best \<noteq> 0" using ne len by simp
  then have "best \<noteq> []" by simp
  then have in_best: "s \<in> set best" unfolding s by (intro nth_mem) simp
  have "set got = set best \<union> set others" using m by (metis set_mset_mset set_mset_union)
  then have in_got: "s \<in> set got" using in_best by blast
  let ?faster = "\<lambda>x. roundTripTime x < roundTripTime s"
  have none: "filter ?faster others = []"
    using order [OF in_best] by (auto simp: filter_empty_conv not_less)
  have "mset (filter ?faster got) = mset (filter ?faster best) + mset (filter ?faster others)"
    using m by simp
  then have "length (filter ?faster got) = length (filter ?faster best)"
    using none by (metis add.right_neutral mset.simps(1) size_mset)
  also have "\<dots> < length best"
    using in_best by (intro length_filter_less) auto
  finally have "length (filter ?faster got) < 3" using len by simp
  then show ?thesis using assms(3) [OF in_got] by (simp add: rs)
qed

theorem clock_measure_within_witness:
  "4400 \<le> hostMinusClientOffset example_sample \<and> hostMinusClientOffset example_sample \<le> 4500"
proof (rule clock_measure_within [OF example_clock_measure, of "[example_sample]"])
  show "measure_loop (unat (1 :: u32)) 1 [] example_events = Inr [example_sample]"
    using example_measure_loop by simp
qed (simp add: example_sample_def)

end
