(* ===== verification/Playback_Clock.thy ===== *)
theory Playback_Clock
  imports Prelude Complex_Main
begin

text \<open>
  The playback timeline of \<open>core/src/PlaybackClock.cpp\<close>: frames of a stream against timestamps of
  the steady clock. A \<open>Timestamp\<close> and a \<open>Duration\<close> are signed 64-bit counts of nanoseconds, an
  \<open>int\<close> here with the range of the C++ type written out; a \<open>Frame\<close> is a 64-bit word. Reading the
  clock (\<open>now\<close>, \<open>elapsed\<close>) is outside the model: the reading is an argument.
\<close>

section \<open>The clock\<close>

record PlaybackClock =
  clockRate :: u32
  clockStart :: int

definition PlaybackClock_new :: "u32 \<Rightarrow> int \<Rightarrow> exn + PlaybackClock" where
  "PlaybackClock_new rate start =
     (if rate = 0 then Inl (Invalid_Argument ''PlaybackClock sample rate must be non-zero'')
      else Inr \<lparr>clockRate = rate, clockStart = start\<rparr>)"

definition elapsedAt :: "PlaybackClock \<Rightarrow> int \<Rightarrow> exn + int" where
  "elapsedAt c timestamp = signed64 (timestamp - clockStart c)"

definition nanosecondsPerSecond :: u64 where
  "nanosecondsPerSecond = 1000000000"

definition frameToDuration :: "PlaybackClock \<Rightarrow> u64 \<Rightarrow> exn + int" where
  "frameToDuration c frame =
     (let rate = ucast (clockRate c) :: u64;
          wholeSeconds = frame div rate;
          remainingFrames = frame mod rate;
          maximum = 9223372036854775807 :: u64 in
      if wholeSeconds > maximum div nanosecondsPerSecond
      then Inl (Overflow_Error ''Playback duration exceeds the supported range'')
      else
        let wholeNanoseconds = wholeSeconds * nanosecondsPerSecond;
            partialNanoseconds = (remainingFrames * nanosecondsPerSecond + rate - 1) div rate in
        if partialNanoseconds > maximum - wholeNanoseconds
        then Inl (Overflow_Error ''Playback duration exceeds the supported range'')
        else Inr (sint (wholeNanoseconds + partialNanoseconds)))"

definition frameToTimestamp :: "PlaybackClock \<Rightarrow> u64 \<Rightarrow> exn + int" where
  "frameToTimestamp c frame =
     and_then (frameToDuration c frame) (\<lambda>offset.
       if clockStart c > int64_max - offset
       then Inl (Overflow_Error ''Playback timestamp exceeds the supported range'')
       else Inr (clockStart c + offset))"

definition timestampToFrame :: "PlaybackClock \<Rightarrow> int \<Rightarrow> exn + u64" where
  "timestampToFrame c timestamp =
     (if timestamp \<le> clockStart c then Inr 0
      else and_then (elapsedAt c timestamp) (\<lambda>nanoseconds.
        let rate = ucast (clockRate c) :: u64;
            wholeSeconds = word_of_int nanoseconds div nanosecondsPerSecond;
            remainingNanoseconds = word_of_int nanoseconds mod nanosecondsPerSecond in
        if wholeSeconds > u64_max div rate
        then Inl (Overflow_Error ''Playback frame exceeds the supported range'')
        else
          let wholeFrames = wholeSeconds * rate;
              partialFrames = remainingNanoseconds * rate div nanosecondsPerSecond in
          if partialFrames > u64_max - wholeFrames
          then Inl (Overflow_Error ''Playback frame exceeds the supported range'')
          else Inr (wholeFrames + partialFrames)))"

text \<open>What the constructor guarantees of a clock, given a start time that is a \<open>Timestamp\<close>.\<close>

definition clock_ok :: "PlaybackClock \<Rightarrow> bool" where
  "clock_ok c \<longleftrightarrow> clockRate c \<noteq> 0 \<and> in_int64 (clockStart c)"

lemma clock_ok_new: "PlaybackClock_new rate start = Inr c \<Longrightarrow> in_int64 start \<Longrightarrow> clock_ok c"
  by (auto simp: PlaybackClock_new_def clock_ok_def split: if_splits)

section \<open>Exact values\<close>

text \<open>The rational position of frame \<open>f\<close>, rounded up to a nanosecond, and its inverse.\<close>

definition duration_of :: "nat \<Rightarrow> nat \<Rightarrow> nat" where
  "duration_of rate f = (f * 1000000000 + (rate - 1)) div rate"

definition frames_in :: "nat \<Rightarrow> nat \<Rightarrow> nat" where
  "frames_in rate ns = ns * rate div 1000000000"

lemma duration_of_le_iff:
  assumes "0 < rate"
  shows "duration_of rate f \<le> ns \<longleftrightarrow> f \<le> frames_in rate ns"
proof -
  have "duration_of rate f \<le> ns \<longleftrightarrow> f * 1000000000 + (rate - 1) < (ns + 1) * rate"
    unfolding duration_of_def
    by (subst div_less_iff_less_mult [OF assms, symmetric]) (simp add: less_Suc_eq_le)
  also have "\<dots> \<longleftrightarrow> f * 1000000000 \<le> ns * rate"
    using assms by (simp add: add_mult_distrib) linarith
  also have "\<dots> \<longleftrightarrow> f \<le> frames_in rate ns"
    by (simp add: frames_in_def less_eq_div_iff_mult_less_eq)
  finally show ?thesis .
qed

lemma frames_in_duration_of:
  assumes "0 < rate" "rate \<le> 1000000000"
  shows "frames_in rate (duration_of rate f) = f"
proof (rule antisym)
  show "f \<le> frames_in rate (duration_of rate f)"
    using duration_of_le_iff [OF assms(1)] by blast
  have "duration_of rate f * rate \<le> f * 1000000000 + (rate - 1)"
    by (simp add: duration_of_def)
  then have "duration_of rate f * rate < (f + 1) * 1000000000"
    using assms by (simp add: add_mult_distrib)
  then have "frames_in rate (duration_of rate f) < f + 1"
    unfolding frames_in_def by (simp add: div_less_iff_less_mult)
  then show "frames_in rate (duration_of rate f) \<le> f" by simp
qed

lemma duration_of_split:
  assumes "0 < rate"
  shows "duration_of rate f =
    f div rate * 1000000000 + (f mod rate * 1000000000 + (rate - 1)) div rate"
proof -
  define q m where "q = f div rate" and "m = f mod rate"
  have f: "f = q * rate + m" by (simp add: q_def m_def)
  have "f * 1000000000 + (rate - 1) = (m * 1000000000 + (rate - 1)) + q * 1000000000 * rate"
    unfolding f by (simp add: algebra_simps)
  then have "duration_of rate f = q * 1000000000 + (m * 1000000000 + (rate - 1)) div rate"
    using assms unfolding duration_of_def by (simp only: div_mult_self1 neq0_conv)
  then show ?thesis by (simp only: q_def m_def)
qed

lemma frames_in_split:
  "frames_in rate ns = ns div 1000000000 * rate + ns mod 1000000000 * rate div 1000000000"
proof -
  define q m where "q = ns div 1000000000" and "m = ns mod 1000000000"
  have ns: "ns = q * 1000000000 + m" by (simp add: q_def m_def)
  have "ns * rate = m * rate + (q * rate) * 1000000000"
    unfolding ns by (simp add: algebra_simps)
  then have "frames_in rate ns = q * rate + m * rate div 1000000000"
    unfolding frames_in_def by (simp only: div_mult_self1 neq0_conv)
  then show ?thesis by (simp only: q_def m_def)
qed


lemma partial_duration_bounds:
  fixes rate m :: nat
  assumes "0 < rate" "m < rate"
  shows "(m * 1000000000 + (rate - 1)) div rate \<le> 1000000000"
proof -
  have "m * 1000000000 + (rate - 1) < (1000000000 + 1) * rate"
    using assms by (simp add: add_mult_distrib)
  then have "(m * 1000000000 + (rate - 1)) div rate < 1000000000 + 1"
    using assms(1) by (subst div_less_iff_less_mult)
  then show ?thesis by simp
qed

lemma unat_nanosecondsPerSecond [simp]: "unat nanosecondsPerSecond = 1000000000"
  by (simp add: nanosecondsPerSecond_def)

lemma unat_u64_mult: "unat (a :: u64) * unat b < 18446744073709551616 \<Longrightarrow> unat (a * b) = unat a * unat b"
  by (subst unat_mult_lem [symmetric]) simp

lemma unat_u64_sub: "b \<le> (a :: u64) \<Longrightarrow> unat (a - b) = unat a - unat b"
  by (rule unat_sub)

text \<open>The 64-bit computation never wraps: it is the exact rounding up, or the overflow error.\<close>

lemma frameToDuration_eq:
  assumes "clockRate c \<noteq> 0"
  shows "frameToDuration c f =
    (if duration_of (unat (clockRate c)) (unat f) \<le> 9223372036854775807
     then Inr (int (duration_of (unat (clockRate c)) (unat f)))
     else Inl (Overflow_Error ''Playback duration exceeds the supported range''))"
proof -
  define rate where "rate = unat (clockRate c)"
  define R :: u64 where "R = ucast (clockRate c)"
  have R: "unat R = rate" by (simp add: R_def rate_def)
  have rate: "0 < rate" "rate < 4294967296"
    using assms unat_u32_less [of "clockRate c"] by (simp_all add: rate_def unat_gt_0)
  define q m where "q = unat f div rate" and "m = unat f mod rate"
  have m: "m < rate" using rate by (simp add: m_def)
  define p where "p = (m * 1000000000 + (rate - 1)) div rate"
  have p: "p \<le> 1000000000" unfolding p_def by (rule partial_duration_bounds [OF rate(1) m])
  have dur: "duration_of rate (unat f) = q * 1000000000 + p"
    unfolding p_def q_def m_def by (rule duration_of_split [OF rate(1)])
  have whole: "unat (f div R) = q" by (simp add: unat_div R q_def)
  have rest: "unat (f mod R) = m" by (simp add: unat_mod R m_def)
  have prod: "unat ((f mod R) * nanosecondsPerSecond) = m * 1000000000"
    using m rate by (subst unat_u64_mult) (simp_all add: rest)
  have sum: "unat ((f mod R) * nanosecondsPerSecond + R) = m * 1000000000 + rate"
    using m rate by (subst unat_add_no_wrap) (simp_all add: prod R)
  have "unat ((f mod R) * nanosecondsPerSecond + R - 1) = m * 1000000000 + (rate - 1)"
    using rate sum by (subst unat_u64_sub) (simp_all add: word_le_nat_alt)
  then have part: "unat (((f mod R) * nanosecondsPerSecond + R - 1) div R) = p"
    by (simp add: unat_div R p_def)
  have guard1: "f div R > 9223372036854775807 div nanosecondsPerSecond \<longleftrightarrow> 9223372036 < q"
    by (simp add: word_less_nat_alt unat_div R q_def)
  show ?thesis
  proof (cases "9223372036 < q")
    case True
    then have "\<not> q * 1000000000 + p \<le> 9223372036854775807" by simp
    with True show ?thesis
      by (simp add: frameToDuration_def Let_def guard1 R_def [symmetric] rate_def [symmetric] dur)
  next
    case False
    then have wn: "unat (f div R * nanosecondsPerSecond) = q * 1000000000"
      by (subst unat_u64_mult) (simp_all add: whole)
    have le: "q * 1000000000 \<le> 9223372036854775807" using False by simp
    have "unat (9223372036854775807 - f div R * nanosecondsPerSecond :: u64) =
        9223372036854775807 - q * 1000000000"
      using le by (subst unat_u64_sub) (simp_all add: word_le_nat_alt wn)
    then have guard2: "((f mod R) * nanosecondsPerSecond + R - 1) div R >
        9223372036854775807 - f div R * nanosecondsPerSecond \<longleftrightarrow>
        \<not> q * 1000000000 + p \<le> 9223372036854775807"
      using le by (simp add: word_less_nat_alt part) linarith
    have total: "unat (f div R * nanosecondsPerSecond +
        ((f mod R) * nanosecondsPerSecond + R - 1) div R) = q * 1000000000 + p"
      using le p by (subst unat_add_no_wrap) (simp_all add: wn part)
    have int_total: "sint (f div R * nanosecondsPerSecond + ((f mod R) * nanosecondsPerSecond + R - 1) div R)
        = int (q * 1000000000 + p)" if "q * 1000000000 + p \<le> 9223372036854775807"
      using that total by (subst sint_u64) simp_all
    with False guard2 show ?thesis
      by (simp only: frameToDuration_def Let_def guard1 R_def [symmetric] rate_def [symmetric] dur
          if_False if_True not_False_eq_True split: if_splits) auto
  qed
qed


lemma timestampToFrame_eq:
  assumes "clockRate c \<noteq> 0" and "in_int64 (t - clockStart c)"
  shows "timestampToFrame c t =
    (if frames_in (unat (clockRate c)) (nat (t - clockStart c)) \<le> 18446744073709551615
     then Inr (of_nat (frames_in (unat (clockRate c)) (nat (t - clockStart c))))
     else Inl (Overflow_Error ''Playback frame exceeds the supported range''))"
proof (cases "t \<le> clockStart c")
  case True
  then show ?thesis by (simp add: timestampToFrame_def frames_in_def)
next
  case False
  define rate where "rate = unat (clockRate c)"
  define R :: u64 where "R = ucast (clockRate c)"
  have R: "unat R = rate" by (simp add: R_def rate_def)
  have rate: "0 < rate" "rate < 4294967296"
    using assms unat_u32_less [of "clockRate c"] by (simp_all add: rate_def unat_gt_0)
  define d where "d = nat (t - clockStart c)"
  have d: "t - clockStart c = int d" "d \<le> 9223372036854775807"
    using False assms(2) by (simp_all add: d_def in_int64_def)
  define D :: u64 where "D = word_of_int (int d)"
  have D: "unat D = d"
    using d(2) by (simp add: D_def unat_of_nat take_bit_nat_eq_self_iff)
  define q m where "q = d div 1000000000" and "m = d mod 1000000000"
  have m: "m < 1000000000" by (simp add: m_def)
  define p where "p = m * rate div 1000000000"
  have fr: "frames_in rate d = q * rate + p"
    unfolding p_def q_def m_def by (rule frames_in_split)
  have whole: "unat (D div nanosecondsPerSecond) = q" by (simp add: unat_div D q_def)
  have rest: "unat (D mod nanosecondsPerSecond) = m" by (simp add: unat_mod D m_def)
  have "m * rate \<le> 1000000000 * 4294967296" using m rate by (intro mult_le_mono) simp_all
  then have "unat (D mod nanosecondsPerSecond * R) = m * rate"
    by (subst unat_u64_mult) (simp_all add: rest R)
  then have part: "unat (D mod nanosecondsPerSecond * R div nanosecondsPerSecond) = p"
    by (simp add: unat_div p_def)
  have guard1: "D div nanosecondsPerSecond > u64_max div R \<longleftrightarrow> \<not> q * rate \<le> 18446744073709551615"
  proof -
    have "D div nanosecondsPerSecond > u64_max div R \<longleftrightarrow> 18446744073709551615 div rate < q"
      by (simp add: word_less_nat_alt unat_div R D q_def unat_u64_max)
    also have "\<dots> \<longleftrightarrow> \<not> q \<le> 18446744073709551615 div rate" by (simp add: not_le)
    also have "\<dots> \<longleftrightarrow> \<not> q * rate \<le> 18446744073709551615"
      using rate(1) by (simp add: less_eq_div_iff_mult_less_eq)
    finally show ?thesis .
  qed
  have step: "timestampToFrame c t =
     (if D div nanosecondsPerSecond > u64_max div R
      then Inl (Overflow_Error ''Playback frame exceeds the supported range'')
      else if D mod nanosecondsPerSecond * R div nanosecondsPerSecond
              > u64_max - D div nanosecondsPerSecond * R
      then Inl (Overflow_Error ''Playback frame exceeds the supported range'')
      else Inr (D div nanosecondsPerSecond * R +
        D mod nanosecondsPerSecond * R div nanosecondsPerSecond))"
    using False assms(2) d(1)
    by (simp add: timestampToFrame_def elapsedAt_def Let_def R_def D_def cong: if_cong)
  show ?thesis
  proof (cases "q * rate \<le> 18446744073709551615")
    case False
    then have "\<not> frames_in rate d \<le> 18446744073709551615" by (simp add: fr)
    with False guard1 step show ?thesis by (simp add: rate_def d_def)
  next
    case True
    then have wn: "unat (D div nanosecondsPerSecond * R) = q * rate"
      by (subst unat_u64_mult) (simp_all add: whole R)
    then have "unat (u64_max - D div nanosecondsPerSecond * R) = 18446744073709551615 - q * rate"
      using True by (subst unat_u64_sub) (simp_all add: word_le_nat_alt unat_u64_max)
    then have guard2: "D mod nanosecondsPerSecond * R div nanosecondsPerSecond
        > u64_max - D div nanosecondsPerSecond * R \<longleftrightarrow> \<not> frames_in rate d \<le> 18446744073709551615"
      using True unfolding word_less_nat_alt part fr by linarith
    have "D div nanosecondsPerSecond * R + D mod nanosecondsPerSecond * R div nanosecondsPerSecond =
        of_nat (frames_in rate d)" if "frames_in rate d \<le> 18446744073709551615"
    proof -
      have "unat (D div nanosecondsPerSecond * R +
          D mod nanosecondsPerSecond * R div nanosecondsPerSecond) = frames_in rate d"
        using that unfolding fr by (subst unat_add_no_wrap) (simp_all add: wn part)
      then show ?thesis by (metis of_nat_unat ucast_id)
    qed
    with guard1 guard2 True step show ?thesis
      by (simp add: rate_def [symmetric] d_def [symmetric])
  qed
qed

text \<open>What a frame position is: no wrap-around and no error inside the range of a timestamp.\<close>

lemma frameToTimestamp_Inr_iff:
  assumes "clock_ok c"
  shows "frameToTimestamp c f = Inr t \<longleftrightarrow>
    t = clockStart c + int (duration_of (unat (clockRate c)) (unat f)) \<and>
    duration_of (unat (clockRate c)) (unat f) \<le> 9223372036854775807 \<and> t \<le> int64_max"
  using assms
  by (auto simp: frameToTimestamp_def frameToDuration_eq clock_ok_def split: if_splits)


section \<open>The contract of a timeline\<close>

text \<open>
  What the player and the host rely on: \<open>to_frame t\<close> is the last frame due at \<open>t\<close>. Everything a
  client derives from a clock (order of frames, no frame early, none skipped) follows from it.
\<close>

locale timeline =
  fixes ok :: "'c \<Rightarrow> bool"
    and origin :: "'c \<Rightarrow> int"
    and to_time :: "'c \<Rightarrow> u64 \<Rightarrow> exn + int"
    and to_frame :: "'c \<Rightarrow> int \<Rightarrow> exn + u64"
  assumes due_iff: "ok c \<Longrightarrow> to_time c f = Inr a \<Longrightarrow> to_frame c t = Inr g \<Longrightarrow> origin c \<le> t \<Longrightarrow>
      a \<le> t \<longleftrightarrow> f \<le> g"
    and not_before_origin: "ok c \<Longrightarrow> to_time c f = Inr a \<Longrightarrow> origin c \<le> a"
begin

lemma current_is_due:
  "ok c \<Longrightarrow> origin c \<le> t \<Longrightarrow> to_frame c t = Inr g \<Longrightarrow> to_time c g = Inr a \<Longrightarrow> a \<le> t"
  by (simp add: due_iff)

lemma next_is_not_due:
  assumes "ok c" "origin c \<le> t" "to_frame c t = Inr g" "g < f" "to_time c f = Inr a"
  shows "t < a"
  using due_iff [of c f a t g] assms by (meson linorder_not_le)

lemma frame_mono:
  assumes "ok c" "origin c \<le> s" "s \<le> t" "to_frame c s = Inr g" "to_frame c t = Inr h"
    and "to_time c g = Inr a"
  shows "g \<le> h"
proof -
  have "a \<le> s" using current_is_due assms by blast
  then show ?thesis using due_iff [of c g a t h] assms by simp
qed

lemma time_mono:
  assumes "ok c" "f \<le> g" "to_time c f = Inr a" "to_time c g = Inr b" "to_frame c b = Inr h"
  shows "a \<le> b"
proof -
  have b: "origin c \<le> b" using not_before_origin assms by blast
  then have "g \<le> h" using due_iff [of c g b b h] assms by simp
  then show ?thesis using due_iff [of c f a b h] assms b by simp
qed

lemma boundary_reaches_frame:
  "ok c \<Longrightarrow> to_time c f = Inr a \<Longrightarrow> to_frame c a = Inr g \<Longrightarrow> f \<le> g"
  using due_iff [of c f a a g] not_before_origin by simp

end

lemma timestampToFrame_Inr_iff:
  assumes "clock_ok c" "clockStart c \<le> t"
  shows "timestampToFrame c t = Inr g \<longleftrightarrow> t - clockStart c \<le> int64_max \<and>
    unat g = frames_in (unat (clockRate c)) (nat (t - clockStart c))"
proof (cases "in_int64 (t - clockStart c)")
  case True
  define n where "n = frames_in (unat (clockRate c)) (nat (t - clockStart c))"
  have eq: "timestampToFrame c t = (if n \<le> 18446744073709551615 then Inr (of_nat n)
     else Inl (Overflow_Error ''Playback frame exceeds the supported range''))"
    unfolding n_def by (rule timestampToFrame_eq) (use assms True in \<open>simp_all add: clock_ok_def\<close>)
  have "of_nat n = g \<longleftrightarrow> unat g = n" if "n \<le> 18446744073709551615"
    using that by (auto simp: unat_of_nat take_bit_nat_eq_self_iff)
  then have "timestampToFrame c t = Inr g \<longleftrightarrow> unat g = n"
    using unat_u64_less [of g] unfolding eq by auto
  then show ?thesis using True by (simp add: n_def in_int64_def)
next
  case False
  then have "\<not> t \<le> clockStart c" "\<not> t - clockStart c \<le> int64_max"
    using assms(2) by (auto simp: in_int64_def)
  with False show ?thesis
    by (simp add: timestampToFrame_def elapsedAt_def signed64_def)
qed

interpretation playback: timeline clock_ok clockStart frameToTimestamp timestampToFrame
proof
  fix c f a t g
  assume c: "clock_ok c" and a: "frameToTimestamp c f = Inr a"
  then have a_eq: "a = clockStart c + int (duration_of (unat (clockRate c)) (unat f))"
    using frameToTimestamp_Inr_iff by blast
  then show "clockStart c \<le> a" by simp
  assume g: "timestampToFrame c t = Inr g" and t: "clockStart c \<le> t"
  have rate: "0 < unat (clockRate c)" using c by (simp add: clock_ok_def unat_gt_0)
  have "a \<le> t \<longleftrightarrow> duration_of (unat (clockRate c)) (unat f) \<le> nat (t - clockStart c)"
    using t unfolding a_eq by linarith
  also have "\<dots> \<longleftrightarrow> unat f \<le> unat g"
    using g timestampToFrame_Inr_iff [OF c t] duration_of_le_iff [OF rate] by simp
  finally show "a \<le> t \<longleftrightarrow> f \<le> g" by (simp add: word_le_nat_alt)
qed

section \<open>Properties\<close>

lemma duration_of_ceiling:
  assumes "0 < rate"
  shows "int (duration_of rate f) = \<lceil>of_nat f * 10 ^ 9 / (of_nat rate :: real)\<rceil>"
proof -
  have le: "duration_of rate f \<le> n \<longleftrightarrow> \<lceil>of_nat f * 10 ^ 9 / (of_nat rate :: real)\<rceil> \<le> int n" for n
  proof -
    have "duration_of rate f \<le> n \<longleftrightarrow> f * 1000000000 \<le> n * rate"
      using duration_of_le_iff [OF assms]
      by (simp add: frames_in_def less_eq_div_iff_mult_less_eq)
    also have "\<dots> \<longleftrightarrow> real (f * 1000000000) \<le> real (n * rate)" by (simp only: of_nat_le_iff)
    also have "\<dots> \<longleftrightarrow> of_nat f * 10 ^ 9 / (of_nat rate :: real) \<le> of_int (int n)"
      using assms by (simp add: pos_divide_le_eq)
    also have "\<dots> \<longleftrightarrow> \<lceil>of_nat f * 10 ^ 9 / (of_nat rate :: real)\<rceil> \<le> int n"
      by (rule ceiling_le_iff [symmetric])
    finally show ?thesis .
  qed
  define z where "z = \<lceil>of_nat f * 10 ^ 9 / (of_nat rate :: real)\<rceil>"
  have "0 \<le> z" unfolding z_def by (simp add: zero_le_ceiling) (smt (verit) divide_nonneg_nonneg mult_nonneg_nonneg of_nat_0_le_iff)
  then show ?thesis using le [of "nat z"] le [of "duration_of rate f"] unfolding z_def [symmetric]
    by simp
qed

text \<open>
  A frame boundary is placed at the start time plus the exact position of the frame rounded up
  to a nanosecond; the call succeeds exactly when that timestamp and that duration fit their signed
  64-bit type, and nothing in the computation wraps around.
\<close>

theorem frame_boundary_exact:
  assumes "clock_ok c"
  shows "frameToTimestamp c f = Inr t \<longleftrightarrow>
    t = clockStart c + \<lceil>of_nat (unat f) * 10 ^ 9 / (of_nat (unat (clockRate c)) :: real)\<rceil> \<and>
    t - clockStart c \<le> int64_max \<and> t \<le> int64_max"
proof -
  define n where "n = duration_of (unat (clockRate c)) (unat f)"
  define z where "z = \<lceil>of_nat (unat f) * 10 ^ 9 / (of_nat (unat (clockRate c)) :: real)\<rceil>"
  have "0 < unat (clockRate c)" using assms by (simp add: clock_ok_def unat_gt_0)
  then have "int n = z" unfolding n_def z_def by (rule duration_of_ceiling)
  then show ?thesis
    unfolding frameToTimestamp_Inr_iff [OF assms] n_def [symmetric] z_def [symmetric] by auto
qed

definition example_clock :: PlaybackClock where
  "example_clock = \<lparr>clockRate = 44100, clockStart = 5000000000\<rparr>"

lemma example_clock_ok [simp]: "clock_ok example_clock"
  by (simp add: clock_ok_def example_clock_def in_int64_def)

lemma example_boundary: "frameToTimestamp example_clock 1 = Inr 5000022676"
  using frameToTimestamp_Inr_iff [OF example_clock_ok]
  by (simp add: example_clock_def duration_of_def)

theorem frame_boundary_exact_witness:
  "5000022676 = clockStart example_clock +
     \<lceil>of_nat (unat (1 :: u64)) * 10 ^ 9 / (of_nat (unat (clockRate example_clock)) :: real)\<rceil>"
  using frame_boundary_exact [OF example_clock_ok] example_boundary by blast

text \<open>
  The current frame is the last one whose boundary has been reached: for any timestamp from the
  start on, frame \<open>f\<close> is due by then exactly when it is at most \<open>timestampToFrame\<close>. No frame plays
  early, none is skipped.
\<close>

theorem frame_due_iff:
  assumes "clock_ok c" "clockStart c \<le> t"
    and "frameToTimestamp c f = Inr a" "timestampToFrame c t = Inr g"
  shows "a \<le> t \<longleftrightarrow> f \<le> g"
  by (rule playback.due_iff [OF assms(1,3,4,2)])

theorem frame_due_iff_witness:
  "(5000022676 :: int) \<le> 5000022675 \<longleftrightarrow> (1 :: u64) \<le> 0"
proof (rule frame_due_iff [OF example_clock_ok _ example_boundary])
  show "timestampToFrame example_clock 5000022675 = Inr 0"
    by (subst timestampToFrame_Inr_iff [OF example_clock_ok])
      (simp_all add: example_clock_def frames_in_def)
qed (simp add: example_clock_def)

text \<open>
  Converting the boundary of a frame back gives that frame, for every rate up to one frame per
  nanosecond; the rounding up in \<open>frameToDuration\<close> is what makes it so.
\<close>

theorem frame_roundtrip:
  assumes "clock_ok c" "unat (clockRate c) \<le> 1000000000" "frameToTimestamp c f = Inr t"
  shows "timestampToFrame c t = Inr f"
proof -
  have rate: "0 < unat (clockRate c)" using assms(1) by (simp add: clock_ok_def unat_gt_0)
  have t: "t = clockStart c + int (duration_of (unat (clockRate c)) (unat f))"
    "duration_of (unat (clockRate c)) (unat f) \<le> 9223372036854775807"
    using assms(3) frameToTimestamp_Inr_iff [OF assms(1)] by blast+
  then have "unat f = frames_in (unat (clockRate c)) (nat (t - clockStart c))"
    using frames_in_duration_of [OF rate assms(2)] by simp
  then show ?thesis
    using t by (subst timestampToFrame_Inr_iff [OF assms(1)]) simp_all
qed

theorem frame_roundtrip_witness: "timestampToFrame example_clock 5000022676 = Inr 1"
  by (rule frame_roundtrip [OF example_clock_ok _ example_boundary]) (simp add: example_clock_def)

end
