(* ===== verification/Output_Latency.thy ===== *)
theory Output_Latency
  imports Prelude
begin

text \<open>
  The time from submitting audio to hearing it, \<open>core/src/OutputLatency.cpp\<close>: the system's estimate
  plus a manual adjustment, and the time at which to submit for a given time of arrival at the ear.
  Durations and time points are signed 64-bit nanosecond counts.
\<close>

datatype OutputRouteType = UnknownRoute | BuiltIn | Wired | Bluetooth | Usb
datatype CalibrationConfidence = UnknownConfidence | SystemEstimate | Manual | Measured

record OutputLatency =
  outputRouteId :: string
  outputRouteType :: OutputRouteType
  calibrationConfidence :: CalibrationConfidence
  systemEstimate :: int
  manualAdjustment :: int

definition effectiveLatency :: "OutputLatency \<Rightarrow> exn + int" where
  "effectiveLatency l =
     (if systemEstimate l < 0 \<or> systemEstimate l > 5000000000 \<or>
         manualAdjustment l < -1000000000 \<or> manualAdjustment l > 1000000000
      then Inl (Invalid_Argument ''Output latency estimate is outside supported range'')
      else signed64 (systemEstimate l + manualAdjustment l))"

definition submissionTime :: "OutputLatency \<Rightarrow> int \<Rightarrow> exn + int" where
  "submissionTime l acousticPresentationTime =
     and_then (effectiveLatency l) (\<lambda>latency. signed64 (acousticPresentationTime - latency))"

text \<open>The sum of an accepted estimate and adjustment always fits.\<close>

lemma effectiveLatency_eq:
  "effectiveLatency l =
     (if 0 \<le> systemEstimate l \<and> systemEstimate l \<le> 5000000000 \<and>
         \<bar>manualAdjustment l\<bar> \<le> 1000000000
      then Inr (systemEstimate l + manualAdjustment l)
      else Inl (Invalid_Argument ''Output latency estimate is outside supported range''))"
  by (auto simp: effectiveLatency_def in_int64_def)

lemma effectiveLatency_range:
  "effectiveLatency l = Inr d \<Longrightarrow> - 1000000000 \<le> d \<and> d \<le> 6000000000"
  by (auto simp: effectiveLatency_eq split: if_splits)

lemma submissionTime_bounds:
  assumes "submissionTime l t = Inr s"
  shows "t - 6000000000 \<le> s \<and> s \<le> t + 1000000000"
  using assms effectiveLatency_range [of l] by (auto simp: submissionTime_def res_simps)

end
