(* ===== verification/Ordered_Map.thy ===== *)
theory Ordered_Map
  imports Prelude
begin

text \<open>
  \<open>std::map\<close> as the program uses it: the entries in ascending order of key, iterated from
  \<open>begin()\<close>, and \<open>try_emplace\<close>, which inserts unless the key is there. The locale states the
  contract the components rely on; the sorted association list below is its implementation.
\<close>

locale ordered_map =
  fixes ok :: "'m \<Rightarrow> bool"
    and entries :: "'m \<Rightarrow> ('k::linorder \<times> 'v) list"
    and emplace :: "'k \<Rightarrow> 'v \<Rightarrow> 'm \<Rightarrow> 'm \<times> bool"
  assumes ascending: "ok m \<Longrightarrow> sorted_wrt (<) (map fst (entries m))"
    and emplace_ok: "ok m \<Longrightarrow> ok (fst (emplace k v m))"
    and emplace_inserted: "ok m \<Longrightarrow> snd (emplace k v m) \<longleftrightarrow> k \<notin> fst ` set (entries m)"
    and emplace_entries: "ok m \<Longrightarrow> set (entries (fst (emplace k v m))) =
      (if k \<in> fst ` set (entries m) then set (entries m) else insert (k, v) (set (entries m)))"
begin

lemma distinct_keys: "ok m \<Longrightarrow> distinct (map fst (entries m))"
  using ascending strict_sorted_iff by blast

lemma refused_unchanged:
  assumes "ok m" "\<not> snd (emplace k v m)"
  shows "entries (fst (emplace k v m)) = entries m"
proof -
  have "set (entries (fst (emplace k v m))) = set (entries m)"
    using assms by (simp add: emplace_inserted emplace_entries)
  moreover have "sorted_wrt (<) (map fst (entries (fst (emplace k v m))))"
    using assms ascending emplace_ok by blast
  ultimately show ?thesis
    using ascending [OF assms(1)] by (auto intro!: map_sorted_distinct_set_unique [of fst]
      simp: strict_sorted_iff distinct_map)
qed

lemma length_emplace:
  assumes "ok m"
  shows "length (entries (fst (emplace k v m))) =
    (if snd (emplace k v m) then Suc (length (entries m)) else length (entries m))"
proof -
  have card: "length (entries n) = card (set (entries n))" if "ok n" for n
    using distinct_keys [OF that] by (metis distinct_card distinct_map)
  have "(k, v) \<notin> set (entries m)" if "k \<notin> fst ` set (entries m)"
    using that by force
  then show ?thesis
    using assms emplace_ok [OF assms, of k v]
    by (simp add: card emplace_entries emplace_inserted)
qed

end

fun try_emplace :: "'k::linorder \<Rightarrow> 'v \<Rightarrow> ('k \<times> 'v) list \<Rightarrow> ('k \<times> 'v) list \<times> bool" where
  "try_emplace k v [] = ([(k, v)], True)"
| "try_emplace k v ((k', v') # m) =
     (if k < k' then ((k, v) # (k', v') # m, True)
      else if k = k' then ((k', v') # m, False)
      else let (m', inserted) = try_emplace k v m in ((k', v') # m', inserted))"

definition map_ok :: "('k::linorder \<times> 'v) list \<Rightarrow> bool" where
  "map_ok m \<longleftrightarrow> sorted_wrt (<) (map fst m)"

lemma map_ok_Cons [simp]: "map_ok (e # m) \<longleftrightarrow> (\<forall>e' \<in> set m. fst e < fst e') \<and> map_ok m"
  by (simp add: map_ok_def)

lemma map_ok_Nil [simp]: "map_ok []"
  by (simp add: map_ok_def)

lemma map_ok_drop: "map_ok m \<Longrightarrow> map_ok (drop n m)"
  by (simp add: map_ok_def drop_map [symmetric] sorted_wrt_drop)

lemma map_ok_tl: "map_ok m \<Longrightarrow> map_ok (tl m)"
  using map_ok_drop [of m 1] by (simp add: drop_Suc)

lemma map_ok_dropWhile: "map_ok m \<Longrightarrow> map_ok (dropWhile P m)"
  by (induction m) auto

lemma try_emplace_Cons:
  "fst (try_emplace k v (e # m)) =
     (if k < fst e then (k, v) # e # m else if k = fst e then e # m
      else e # fst (try_emplace k v m))"
  "snd (try_emplace k v (e # m)) =
     (if k < fst e then True else if k = fst e then False else snd (try_emplace k v m))"
  by (cases e; simp add: split_beta Let_def)+

lemma set_try_emplace:
  "map_ok m \<Longrightarrow> set (fst (try_emplace k v m)) =
    (if k \<in> fst ` set m then set m else insert (k, v) (set m))"
proof (induction m)
  case (Cons e m)
  then have "k \<notin> fst ` set m" if "k \<le> fst e" using that by auto
  with Cons show ?case
    by (cases k "fst e" rule: linorder_cases) (auto simp: try_emplace_Cons)
qed simp

lemma snd_try_emplace: "map_ok m \<Longrightarrow> snd (try_emplace k v m) \<longleftrightarrow> k \<notin> fst ` set m"
proof (induction m)
  case (Cons e m)
  then have "k \<notin> fst ` set m" if "k \<le> fst e" using that by auto
  with Cons show ?case
    by (cases k "fst e" rule: linorder_cases) (auto simp: try_emplace_Cons)
qed simp

lemma try_emplace_ok: "map_ok m \<Longrightarrow> map_ok (fst (try_emplace k v m))"
  by (induction m) (auto simp: try_emplace_Cons set_try_emplace split: if_splits)

interpretation packet_map: ordered_map map_ok "\<lambda>m. m" try_emplace
  by unfold_locales
    (simp_all add: map_ok_def [symmetric] try_emplace_ok snd_try_emplace set_try_emplace)

end
