(* ===== verification/Jitter_Buffer.thy ===== *)
theory Jitter_Buffer
  imports Audio_Packet Float_Round Ordered_Map
begin

text \<open>
  The reordering buffer of \<open>core/src/JitterBuffer.cpp\<close>: decoded packets in a \<open>std::map\<close> by start
  frame, filled by the receiver thread (\<open>push\<close>) and read by the audio callback (\<open>readFrames\<close>). Every
  operation holds the mutex, so operations are steps on one state; \<open>readFrames\<close> only tries to lock
  and takes the outcome as an argument, \<open>push\<close> takes the arrival time the steady clock returned. An
  exception leaves the state as it was when it was thrown, so a result and a state are returned
  together. Metrics in milliseconds are doubles, rounded by \<open>dbl\<close> after every operation.
\<close>

unbundle bit_operations_syntax

type_synonym i16 = "16 word"

record BufferedPacketTiming =
  timing_startFrame :: u64
  timing_presentation :: u64

record JitterBufferFormat =
  format_sampleRate :: u32
  format_channelCount :: u16

record JitterBufferMetrics =
  networkJitterMilliseconds :: rat
  targetBufferMilliseconds :: rat
  actualBufferMilliseconds :: rat
  latePackets :: u64
  duplicatePackets :: u64
  overflowPackets :: u64

record BufferedPacket =
  buffered_startFrame :: u64
  buffered_presentation :: u64
  buffered_frameCount :: u16
  buffered_samples :: "i16 list"

record JitterBuffer =
  packets :: "(u64 \<times> BufferedPacket) list"
  format :: "JitterBufferFormat option"
  latestEndFrame :: u64
  latestReadFrame :: u64
  lastPresentationNanoseconds :: u64
  lastArrival :: int
  buffer_metrics :: JitterBufferMetrics

definition JitterBuffer_new :: JitterBuffer where
  "JitterBuffer_new =
     \<lparr>packets = [], format = None, latestEndFrame = 0, latestReadFrame = 0,
      lastPresentationNanoseconds = 0, lastArrival = 0,
      buffer_metrics = \<lparr>networkJitterMilliseconds = 0, targetBufferMilliseconds = 180,
        actualBufferMilliseconds = 0, latePackets = 0, duplicatePackets = 0,
        overflowPackets = 0\<rparr>\<rparr>"

section \<open>Decoding\<close>

text \<open>Two bytes per sample, low byte first; a trailing odd byte is ignored.\<close>

fun decodePcm :: "u8 list \<Rightarrow> i16 list" where
  "decodePcm (low # high # rest) = (ucast low OR push_bit 8 (ucast high)) # decodePcm rest"
| "decodePcm _ = []"

section \<open>Push\<close>

definition end_frame :: "BufferedPacket \<Rightarrow> u64" where
  "end_frame p = buffered_startFrame p + ucast (buffered_frameCount p)"

definition evict_expired :: "JitterBuffer \<Rightarrow> JitterBuffer" where
  "evict_expired b =
     b\<lparr>packets := dropWhile (\<lambda>e. end_frame (snd e) \<le> latestReadFrame b) (packets b)\<rparr>"

definition milliseconds :: "rat \<Rightarrow> rat" where
  "milliseconds nanoseconds = dbl (dbl nanoseconds / 1000000)"

text \<open>The running jitter estimate and the target depth that follows it.\<close>

definition update_jitter :: "int \<Rightarrow> u64 \<Rightarrow> JitterBufferMetrics \<Rightarrow> JitterBufferMetrics" where
  "update_jitter arrivalNanoseconds streamNanoseconds m =
     (let arrivalGap = milliseconds (of_int arrivalNanoseconds);
          streamGap = milliseconds (of_nat (unat streamNanoseconds));
          deviation = \<bar>dbl (arrivalGap - streamGap)\<bar>;
          jitter = dbl (networkJitterMilliseconds m +
            dbl (dbl (deviation - networkJitterMilliseconds m) / 16));
          desired = max 120 (min 350 (dbl (150 + dbl (4 * jitter))));
          target = targetBufferMilliseconds m in
      m\<lparr>networkJitterMilliseconds := jitter,
        targetBufferMilliseconds :=
          (if desired > target then min desired (dbl (target + 10))
           else max desired (dbl (target - 1 / 4)))\<rparr>)"

definition packet_acceptable :: "AudioPacket \<Rightarrow> bool" where
  "packet_acceptable p \<longleftrightarrow> \<not> (sampleFormat p \<noteq> PcmS16LittleEndian \<or>
     sampleRate p < 8000 \<or> sampleRate p > 192000 \<or> channelCount p = 0 \<or> channelCount p > 2 \<or>
     frameCount p = 0 \<or> startFrame p > u64_max - ucast (frameCount p))"

definition buffered_of :: "AudioPacket \<Rightarrow> BufferedPacket" where
  "buffered_of p =
     \<lparr>buffered_startFrame = startFrame p,
      buffered_presentation = presentationTimestampNanoseconds p,
      buffered_frameCount = frameCount p, buffered_samples = decodePcm (pcmPayload p)\<rparr>"

text \<open>The part after a successful insertion: metrics, ends, and the bound on the map.\<close>

definition measured_metrics :: "AudioPacket \<Rightarrow> int \<Rightarrow> JitterBuffer \<Rightarrow> exn + JitterBufferMetrics" where
  "measured_metrics p arrival b =
     (if lastPresentationNanoseconds b \<noteq> 0 \<and>
         presentationTimestampNanoseconds p > lastPresentationNanoseconds b
      then and_then (signed64 (arrival - lastArrival b)) (\<lambda>gap.
        Inr (update_jitter gap
          (presentationTimestampNanoseconds p - lastPresentationNanoseconds b) (buffer_metrics b)))
      else Inr (buffer_metrics b))"

definition drop_overflow :: "JitterBuffer \<Rightarrow> JitterBuffer" where
  "drop_overflow b =
     (if length (packets b) > 1024
      then b\<lparr>packets := tl (packets b),
             buffer_metrics := (buffer_metrics b)
               \<lparr>overflowPackets := overflowPackets (buffer_metrics b) + 1\<rparr>\<rparr>
      else b)"

definition push_inserted :: "AudioPacket \<Rightarrow> int \<Rightarrow> JitterBuffer \<Rightarrow> (exn + bool) \<times> JitterBuffer" where
  "push_inserted p arrival b =
     (case measured_metrics p arrival b of
        Inl e \<Rightarrow> (Inl e, b)
      | Inr m \<Rightarrow>
          (Inr True, drop_overflow (b\<lparr>buffer_metrics := m, lastArrival := arrival,
            lastPresentationNanoseconds := presentationTimestampNanoseconds p,
            latestEndFrame := max (latestEndFrame b) (startFrame p + ucast (frameCount p))\<rparr>)))"

definition push :: "AudioPacket \<Rightarrow> int \<Rightarrow> JitterBuffer \<Rightarrow> (exn + bool) \<times> JitterBuffer" where
  "push p arrival b =
     (if \<not> packet_acceptable p
      then (Inl (Invalid_Argument ''Jitter buffer received an invalid audio format''), b)
      else if length (pcmPayload p) \<noteq> unat (frameCount p) * unat (channelCount p) * 2
      then (Inl (Invalid_Argument ''Jitter buffer PCM size does not match frames''), b)
      else
        let b = evict_expired b; m = buffer_metrics b;
            incoming = \<lparr>format_sampleRate = sampleRate p, format_channelCount = channelCount p\<rparr> in
        if startFrame p + ucast (frameCount p) \<le> latestReadFrame b
        then (Inr False, b\<lparr>buffer_metrics := m\<lparr>latePackets := latePackets m + 1\<rparr>\<rparr>)
        else if format b \<noteq> None \<and> format b \<noteq> Some incoming
        then (Inl (Invalid_Argument ''Audio stream format changed within a session''), b)
        else
          let b = b\<lparr>format := Some incoming\<rparr>;
              (entries, inserted) = try_emplace (startFrame p) (buffered_of p) (packets b);
              b = b\<lparr>packets := entries\<rparr> in
          if \<not> inserted
          then (Inr False, b\<lparr>buffer_metrics := m\<lparr>duplicatePackets := duplicatePackets m + 1\<rparr>\<rparr>)
          else push_inserted p arrival b)"

section \<open>Reading\<close>

text \<open>\<open>std::copy_n\<close> from a vector into a span, both at an offset.\<close>

definition copy_n :: "'a list \<Rightarrow> nat \<Rightarrow> nat \<Rightarrow> 'a list \<Rightarrow> nat \<Rightarrow> exn + 'a list" where
  "copy_n source sourceOffset n destination destinationOffset =
     (if sourceOffset + n \<le> length source \<and> destinationOffset + n \<le> length destination
      then Inr (take destinationOffset destination @ take n (drop sourceOffset source) @
        drop (destinationOffset + n) destination)
      else Inl Out_Of_Bounds)"

fun copy_packets :: "u64 \<Rightarrow> u64 \<Rightarrow> nat \<Rightarrow> (u64 \<times> BufferedPacket) list \<Rightarrow>
    i16 list \<Rightarrow> u32 \<Rightarrow> exn + i16 list \<times> u32" where
  "copy_packets start requestedEnd channels [] out copied = Inr (out, copied)"
| "copy_packets start requestedEnd channels ((k, p) # ps) out copied =
     (let packetStart = buffered_startFrame p; packetEnd = end_frame p in
      if packetEnd \<le> start then copy_packets start requestedEnd channels ps out copied
      else if packetStart \<ge> requestedEnd then Inr (out, copied)
      else
        let copyStart = max start packetStart; copyEnd = min requestedEnd packetEnd in
        if copyStart < copyEnd
        then
          let frames = copyEnd - copyStart in
          and_then (copy_n (buffered_samples p) (unat (copyStart - packetStart) * channels)
              (unat frames * channels) out (unat (copyStart - start) * channels))
            (\<lambda>out. copy_packets start requestedEnd channels ps out (copied + ucast frames))
        else copy_packets start requestedEnd channels ps out copied)"

text \<open>The result, the output span afterwards and the state afterwards.\<close>

definition readFrames :: "bool \<Rightarrow> u64 \<Rightarrow> i16 list \<Rightarrow> bool \<Rightarrow> JitterBuffer \<Rightarrow>
    (exn + u32) \<times> i16 list \<times> JitterBuffer" where
  "readFrames owns_lock start output retainLookahead b =
     (let out = replicate (length output) 0 in
      if \<not> owns_lock then (Inr 0, out, b)
      else case format b of
        None \<Rightarrow> (Inr 0, out, b)
      | Some f \<Rightarrow>
          let channels = unat (format_channelCount f) in
          if length output mod channels \<noteq> 0
          then (Inl (Invalid_Argument ''Jitter buffer output is not frame aligned''), out, b)
          else
            let requestedFrames = length output div channels;
                requestedEnd = start + of_nat requestedFrames;
                b = b\<lparr>latestReadFrame := max (latestReadFrame b)
                  (requestedEnd - (if retainLookahead then of_nat (min 2 requestedFrames) else 0))\<rparr> in
            case copy_packets start requestedEnd channels (packets b) out 0 of
              Inl e \<Rightarrow> (Inl e, out, b)
            | Inr (out', copied) \<Rightarrow> (Inr copied, out', b))"

section \<open>Queries\<close>

definition firstPacketAtOrAfter :: "u64 \<Rightarrow> JitterBuffer \<Rightarrow> BufferedPacketTiming option" where
  "firstPacketAtOrAfter hostTimestamp b =
     (case find (\<lambda>e. \<not> end_frame (snd e) \<le> latestReadFrame b \<and>
          buffered_presentation (snd e) \<ge> hostTimestamp) (packets b) of
        None \<Rightarrow> None
      | Some (k, p) \<Rightarrow> Some \<lparr>timing_startFrame = k, timing_presentation = buffered_presentation p\<rparr>)"

definition depthFrames :: "u64 \<Rightarrow> JitterBuffer \<Rightarrow> u64" where
  "depthFrames playbackFrame b =
     (if latestEndFrame b > playbackFrame then latestEndFrame b - playbackFrame else 0)"

definition packetCount :: "JitterBuffer \<Rightarrow> nat" where
  "packetCount b = length (filter (\<lambda>e. end_frame (snd e) > latestReadFrame b) (packets b))"

definition metrics :: "u64 \<Rightarrow> JitterBuffer \<Rightarrow> JitterBufferMetrics" where
  "metrics playbackFrame b =
     (case format b of
        None \<Rightarrow> buffer_metrics b
      | Some f \<Rightarrow>
          if latestEndFrame b > playbackFrame
          then (buffer_metrics b)\<lparr>actualBufferMilliseconds :=
            dbl (dbl (1000 * dbl (of_nat (unat (latestEndFrame b - playbackFrame)))) /
              of_nat (unat (format_sampleRate f)))\<rparr>
          else buffer_metrics b)"

section \<open>Invariant\<close>

definition metrics_ok :: "JitterBufferMetrics \<Rightarrow> bool" where
  "metrics_ok m \<longleftrightarrow> 0 \<le> networkJitterMilliseconds m \<and>
     dbl (networkJitterMilliseconds m) = networkJitterMilliseconds m \<and>
     150 \<le> targetBufferMilliseconds m \<and> targetBufferMilliseconds m \<le> 350"

definition format_ok :: "JitterBufferFormat \<Rightarrow> bool" where
  "format_ok f \<longleftrightarrow> 8000 \<le> unat (format_sampleRate f) \<and> unat (format_sampleRate f) \<le> 192000 \<and>
     0 < unat (format_channelCount f) \<and> unat (format_channelCount f) \<le> 2"

definition entry_ok :: "JitterBufferFormat option \<Rightarrow> u64 \<Rightarrow> u64 \<times> BufferedPacket \<Rightarrow> bool" where
  "entry_ok fo latest e \<longleftrightarrow>
     fst e = buffered_startFrame (snd e) \<and> 0 < unat (buffered_frameCount (snd e)) \<and>
     unat (buffered_startFrame (snd e)) + unat (buffered_frameCount (snd e)) < 18446744073709551616 \<and>
     end_frame (snd e) \<le> latest \<and>
     (\<exists>f. fo = Some f \<and> length (buffered_samples (snd e)) =
        unat (buffered_frameCount (snd e)) * unat (format_channelCount f))"

text \<open>
  A reading of the steady clock, which counts from the start of the machine: the difference of two
  readings fits.
\<close>

definition time_ok :: "int \<Rightarrow> bool" where
  "time_ok t \<longleftrightarrow> 0 \<le> t \<and> t \<le> int64_max"

lemma time_ok_diff: "time_ok s \<Longrightarrow> time_ok t \<Longrightarrow> in_int64 (s - t)"
  by (auto simp: time_ok_def in_int64_def)

definition buffer_ok :: "JitterBuffer \<Rightarrow> bool" where
  "buffer_ok b \<longleftrightarrow> map_ok (packets b) \<and>
     (\<forall>e \<in> set (packets b). entry_ok (format b) (latestEndFrame b) e) \<and>
     (\<forall>f. format b = Some f \<longrightarrow> format_ok f) \<and> metrics_ok (buffer_metrics b) \<and>
     length (packets b) \<le> 1024 \<and> time_ok (lastArrival b)"

lemma buffer_ok_new [simp]: "buffer_ok JitterBuffer_new"
  using binary64.zero by (simp add: buffer_ok_def JitterBuffer_new_def metrics_ok_def time_ok_def)

lemma unat_end_frame:
  "unat (buffered_startFrame p) + unat (buffered_frameCount p) < 18446744073709551616 \<Longrightarrow>
    unat (end_frame p) = unat (buffered_startFrame p) + unat (buffered_frameCount p)"
  unfolding end_frame_def by (subst unat_add_no_wrap) simp_all

lemma entry_ok_mono: "entry_ok fo l e \<Longrightarrow> l \<le> l' \<Longrightarrow> entry_ok fo l' e"
  by (auto simp: entry_ok_def)

subsection \<open>The metrics\<close>

lemma dbl_int: "0 \<le> i \<Longrightarrow> i \<le> 9007199254740992 \<Longrightarrow> dbl (of_int i) = of_int i"
  by (rule binary64.exact_int) simp

lemma jitter_step_nonneg:
  assumes "0 \<le> j" "dbl j = j" "0 \<le> d"
  shows "0 \<le> dbl (j + dbl (dbl (d - j) / 16))"
proof -
  have neg: "dbl (- j) = - j" using assms(2) by (simp add: binary64.odd)
  have "- j \<le> dbl (d - j)" using assms(3) by (intro binary64.lower [OF neg]) simp
  then have "- j \<le> dbl (d - j) / 16" using assms(1) by linarith
  then have "- j \<le> dbl (dbl (d - j) / 16)" by (rule binary64.lower [OF neg])
  then show ?thesis by (intro binary64.nonneg) simp
qed

lemma desired_range:
  assumes "0 \<le> j"
  shows "150 \<le> max 120 (min 350 (dbl (150 + dbl (4 * j))))"
    and "max 120 (min 350 (dbl (150 + dbl (4 * j)))) \<le> 350"
proof -
  have "0 \<le> dbl (4 * j)" using assms by (intro binary64.nonneg) simp
  then have "150 \<le> dbl (150 + dbl (4 * j))"
    using dbl_int [of 150] by (intro binary64.lower) simp_all
  then show "150 \<le> max 120 (min 350 (dbl (150 + dbl (4 * j))))" by simp
qed simp

lemma target_step_range:
  fixes desired target :: rat
  assumes "150 \<le> desired" "desired \<le> 350" "150 \<le> target" "target \<le> 350"
  shows "150 \<le> min desired (dbl (target + 10))" "max desired (dbl (target - 1 / 4)) \<le> 350"
proof -
  have "150 \<le> dbl (target + 10)"
    using assms dbl_int [of 150] by (intro binary64.lower) simp_all
  then show "150 \<le> min desired (dbl (target + 10))" using assms by simp
  have "dbl (target - 1 / 4) \<le> 350"
    using assms dbl_int [of 350] by (intro binary64.upper) simp_all
  then show "max desired (dbl (target - 1 / 4)) \<le> 350" using assms by simp
qed

lemma update_jitter_counters [simp]:
  "latePackets (update_jitter gap stream m) = latePackets m"
  "duplicatePackets (update_jitter gap stream m) = duplicatePackets m"
  "overflowPackets (update_jitter gap stream m) = overflowPackets m"
  by (simp_all add: update_jitter_def Let_def)

lemma update_jitter_ok:
  assumes "metrics_ok m"
  shows "metrics_ok (update_jitter gap stream m)"
proof -
  define d where "d = \<bar>dbl (milliseconds (of_int gap) - milliseconds (of_nat (unat stream)))\<bar>"
  define j where "j = dbl (networkJitterMilliseconds m + dbl (dbl (d - networkJitterMilliseconds m) / 16))"
  define desired where "desired = max 120 (min 350 (dbl (150 + dbl (4 * j))))"
  have j: "0 \<le> j" unfolding j_def
    by (rule jitter_step_nonneg) (use assms in \<open>simp_all add: metrics_ok_def d_def\<close>)
  have "dbl j = j" unfolding j_def by (rule binary64.idem)
  moreover have "update_jitter gap stream m = m\<lparr>networkJitterMilliseconds := j,
      targetBufferMilliseconds := if desired > targetBufferMilliseconds m
        then min desired (dbl (targetBufferMilliseconds m + 10))
        else max desired (dbl (targetBufferMilliseconds m - 1 / 4))\<rparr>"
    by (simp add: update_jitter_def Let_def j_def d_def desired_def)
  ultimately show ?thesis
    using assms j desired_range [OF j] target_step_range [of desired "targetBufferMilliseconds m"]
    by (auto simp: metrics_ok_def desired_def [symmetric] min.coboundedI1 max.coboundedI1)
qed

subsection \<open>Push keeps the invariant\<close>

lemma length_decodePcm: "length (decodePcm bs) = length bs div 2"
  by (induction bs rule: decodePcm.induct) simp_all

lemma evict_expired_fields [simp]:
  "format (evict_expired b) = format b" "latestEndFrame (evict_expired b) = latestEndFrame b"
  "latestReadFrame (evict_expired b) = latestReadFrame b"
  "buffer_metrics (evict_expired b) = buffer_metrics b"
  "lastPresentationNanoseconds (evict_expired b) = lastPresentationNanoseconds b"
  "lastArrival (evict_expired b) = lastArrival b"
  by (simp_all add: evict_expired_def)

lemma set_evict_expired: "set (packets (evict_expired b)) \<subseteq> set (packets b)"
  by (auto simp: evict_expired_def dest: set_dropWhileD)

lemma length_evict_expired: "length (packets (evict_expired b)) \<le> length (packets b)"
  by (simp add: evict_expired_def length_dropWhile_le)

lemma evict_expired_ok: "buffer_ok b \<Longrightarrow> buffer_ok (evict_expired b)"
  using set_evict_expired [of b]
  by (auto simp: buffer_ok_def intro: order_trans [OF length_evict_expired])
    (simp add: evict_expired_def map_ok_dropWhile)

lemma packet_acceptableD:
  assumes "packet_acceptable p"
  shows "unat (startFrame p) + unat (frameCount p) < 18446744073709551616"
    and "0 < unat (frameCount p)"
    and "format_ok \<lparr>format_sampleRate = sampleRate p, format_channelCount = channelCount p\<rparr>"
proof -
  show "unat (startFrame p) + unat (frameCount p) < 18446744073709551616"
    using assms u64_no_wrap_iff [where s = "startFrame p" and f = "frameCount p"]
    by (simp add: packet_acceptable_def)
  show "0 < unat (frameCount p)"
    using assms by (simp add: packet_acceptable_def unat_gt_0)
  show "format_ok \<lparr>format_sampleRate = sampleRate p, format_channelCount = channelCount p\<rparr>"
    using assms by (auto simp: packet_acceptable_def format_ok_def word_less_nat_alt unat_gt_0)
qed

lemma measured_metrics_ok:
  assumes "time_ok arrival" "time_ok (lastArrival b)" "metrics_ok (buffer_metrics b)"
  obtains m where "measured_metrics p arrival b = Inr m" "metrics_ok m"
    "latePackets m = latePackets (buffer_metrics b)"
    "duplicatePackets m = duplicatePackets (buffer_metrics b)"
    "overflowPackets m = overflowPackets (buffer_metrics b)"
proof (cases "lastPresentationNanoseconds b \<noteq> 0 \<and>
    presentationTimestampNanoseconds p > lastPresentationNanoseconds b")
  case True
  with assms show thesis
    by (intro that [of "update_jitter (arrival - lastArrival b)
      (presentationTimestampNanoseconds p - lastPresentationNanoseconds b) (buffer_metrics b)"])
      (simp_all add: measured_metrics_def time_ok_diff update_jitter_ok)
next
  case False
  with assms show thesis by (intro that) (auto simp: measured_metrics_def)
qed

text \<open>Everything of the invariant but the bound on the number of packets.\<close>

definition nearly_ok :: "JitterBuffer \<Rightarrow> bool" where
  "nearly_ok b \<longleftrightarrow> map_ok (packets b) \<and>
     (\<forall>e \<in> set (packets b). entry_ok (format b) (latestEndFrame b) e) \<and>
     (\<forall>f. format b = Some f \<longrightarrow> format_ok f) \<and> metrics_ok (buffer_metrics b) \<and>
     length (packets b) \<le> 1025 \<and> time_ok (lastArrival b)"

lemma drop_overflow_ok: "nearly_ok b \<Longrightarrow> buffer_ok (drop_overflow b)"
  by (cases "packets b")
    (auto simp: nearly_ok_def buffer_ok_def drop_overflow_def metrics_ok_def)


text \<open>
  What \<open>push\<close> does, one equation per branch; \<open>b\<close> has the expired entries removed already.
\<close>

definition incoming_format :: "AudioPacket \<Rightarrow> JitterBufferFormat" where
  "incoming_format p =
     \<lparr>format_sampleRate = sampleRate p, format_channelCount = channelCount p\<rparr>"

definition payload_matches :: "AudioPacket \<Rightarrow> bool" where
  "payload_matches p \<longleftrightarrow>
     length (pcmPayload p) = unat (frameCount p) * unat (channelCount p) * 2"

definition packet_late :: "AudioPacket \<Rightarrow> JitterBuffer \<Rightarrow> bool" where
  "packet_late p b \<longleftrightarrow> startFrame p + ucast (frameCount p) \<le> latestReadFrame b"

definition packet_duplicate :: "AudioPacket \<Rightarrow> JitterBuffer \<Rightarrow> bool" where
  "packet_duplicate p b \<longleftrightarrow> startFrame p \<in> fst ` set (packets (evict_expired b))"

lemma push_rejects:
  "\<not> packet_acceptable p \<or> \<not> payload_matches p \<Longrightarrow> \<exists>e. push p arrival b = (Inl (Invalid_Argument e), b)"
  by (auto simp: push_def payload_matches_def)

lemma push_late:
  assumes "packet_acceptable p" "payload_matches p" "packet_late p b"
  shows "push p arrival b = (Inr False, (evict_expired b)\<lparr>buffer_metrics :=
    (buffer_metrics b)\<lparr>latePackets := latePackets (buffer_metrics b) + 1\<rparr>\<rparr>)"
  using assms by (simp add: push_def payload_matches_def packet_late_def Let_def)

lemma push_format_changed:
  assumes "packet_acceptable p" "payload_matches p" "\<not> packet_late p b"
    and "format b = Some f" "f \<noteq> incoming_format p"
  shows "push p arrival b =
    (Inl (Invalid_Argument ''Audio stream format changed within a session''), evict_expired b)"
  using assms by (simp add: push_def payload_matches_def packet_late_def Let_def incoming_format_def)

definition inserted_buffer :: "AudioPacket \<Rightarrow> JitterBuffer \<Rightarrow> JitterBuffer" where
  "inserted_buffer p b = (evict_expired b)\<lparr>format := Some (incoming_format p),
     packets := fst (try_emplace (startFrame p) (buffered_of p) (packets (evict_expired b)))\<rparr>"

lemma push_emplaces:
  assumes "packet_acceptable p" "payload_matches p" "\<not> packet_late p b"
    and "format b = None \<or> format b = Some (incoming_format p)"
    and ok: "map_ok (packets (evict_expired b))"
  shows "push p arrival b =
    (if packet_duplicate p b
     then (Inr False, (inserted_buffer p b)\<lparr>buffer_metrics :=
       (buffer_metrics b)\<lparr>duplicatePackets := duplicatePackets (buffer_metrics b) + 1\<rparr>\<rparr>)
     else push_inserted p arrival (inserted_buffer p b))"
proof -
  have "snd (try_emplace (startFrame p) (buffered_of p) (packets (evict_expired b))) \<longleftrightarrow>
      \<not> packet_duplicate p b"
    using packet_map.emplace_inserted [OF ok] by (simp add: packet_duplicate_def)
  with assms show ?thesis
    by (auto simp: push_def payload_matches_def packet_late_def Let_def incoming_format_def
        split_beta inserted_buffer_def)
qed

lemma duplicate_same_packets:
  assumes "map_ok (packets (evict_expired b))" "packet_duplicate p b"
  shows "packets (inserted_buffer p b) = packets (evict_expired b)"
  using packet_map.refused_unchanged [OF assms(1)] packet_map.emplace_inserted [OF assms(1)] assms(2)
  by (simp add: inserted_buffer_def packet_duplicate_def)

lemma set_inserted_buffer:
  assumes "map_ok (packets (evict_expired b))" "\<not> packet_duplicate p b"
  shows "set (packets (inserted_buffer p b)) =
    insert (startFrame p, buffered_of p) (set (packets (evict_expired b)))"
  using packet_map.emplace_entries [OF assms(1)] assms(2)
  by (simp add: inserted_buffer_def packet_duplicate_def)

lemma buffered_of_ok:
  assumes "packet_acceptable p" "payload_matches p"
    and "startFrame p + ucast (frameCount p) \<le> l"
  shows "entry_ok (Some (incoming_format p)) l (startFrame p, buffered_of p)"
  using assms packet_acceptableD [OF assms(1)]
  by (auto simp: entry_ok_def buffered_of_def end_frame_def incoming_format_def payload_matches_def
      length_decodePcm)


lemma push_cases:
  obtains
    (Invalid) e where "push p arrival b = (Inl (Invalid_Argument e), b)"
      "\<not> packet_acceptable p \<or> \<not> payload_matches p"
  | (Late) "packet_acceptable p" "payload_matches p" "packet_late p b"
  | (Changed) f where "packet_acceptable p" "payload_matches p" "\<not> packet_late p b"
      "format b = Some f" "f \<noteq> incoming_format p"
  | (Emplaced) "packet_acceptable p" "payload_matches p" "\<not> packet_late p b"
      "format b = None \<or> format b = Some (incoming_format p)"
  using push_rejects by (cases "format b") blast+

lemma inserted_buffer_fields [simp]:
  "format (inserted_buffer p b) = Some (incoming_format p)"
  "latestEndFrame (inserted_buffer p b) = latestEndFrame b"
  "latestReadFrame (inserted_buffer p b) = latestReadFrame b"
  "buffer_metrics (inserted_buffer p b) = buffer_metrics b"
  "lastPresentationNanoseconds (inserted_buffer p b) = lastPresentationNanoseconds b"
  "lastArrival (inserted_buffer p b) = lastArrival b"
  by (simp_all add: inserted_buffer_def)

lemma metrics_ok_counters:
  "metrics_ok m \<Longrightarrow> metrics_ok (m\<lparr>latePackets := x\<rparr>)"
  "metrics_ok m \<Longrightarrow> metrics_ok (m\<lparr>duplicatePackets := x\<rparr>)"
  "metrics_ok m \<Longrightarrow> metrics_ok (m\<lparr>overflowPackets := x\<rparr>)"
  by (simp_all add: metrics_ok_def)

lemma entries_keep_format:
  assumes "buffer_ok b" "format b = None \<or> format b = Some f" "e \<in> set (packets (evict_expired b))"
  shows "entry_ok (Some f) (latestEndFrame b) e"
proof -
  have "entry_ok (format b) (latestEndFrame b) e"
    using assms(1,3) set_evict_expired [of b] unfolding buffer_ok_def by blast
  with assms(2) show ?thesis by (auto simp: entry_ok_def)
qed

lemma push_emplaced_cases:
  assumes ok: "buffer_ok b" and arrival: "time_ok arrival"
    and p: "packet_acceptable p" "payload_matches p" "\<not> packet_late p b"
    and fmt: "format b = None \<or> format b = Some (incoming_format p)"
  obtains
    (Duplicate) "packet_duplicate p b" "push p arrival b = (Inr False, (inserted_buffer p b)
      \<lparr>buffer_metrics := (buffer_metrics b)\<lparr>duplicatePackets := duplicatePackets (buffer_metrics b) + 1\<rparr>\<rparr>)"
      "packets (inserted_buffer p b) = packets (evict_expired b)"
  | (Inserted) b' m where "\<not> packet_duplicate p b" "push p arrival b = (Inr True, drop_overflow b')"
      "b' = (inserted_buffer p b)\<lparr>buffer_metrics := m, lastArrival := arrival,
        lastPresentationNanoseconds := presentationTimestampNanoseconds p,
        latestEndFrame := max (latestEndFrame b) (startFrame p + ucast (frameCount p))\<rparr>"
      "nearly_ok b'" "latePackets m = latePackets (buffer_metrics b)"
      "duplicatePackets m = duplicatePackets (buffer_metrics b)"
      "overflowPackets m = overflowPackets (buffer_metrics b)"
proof -
  have map_ok: "map_ok (packets (evict_expired b))"
    using evict_expired_ok [OF ok] by (simp add: buffer_ok_def)
  note eq = push_emplaces [OF p fmt map_ok, of arrival]
  show thesis
  proof (cases "packet_duplicate p b")
    case True
    with eq duplicate_same_packets [OF map_ok True] Duplicate show thesis by simp
  next
    case False
    obtain m where m: "measured_metrics p arrival (inserted_buffer p b) = Inr m" "metrics_ok m"
      "latePackets m = latePackets (buffer_metrics b)"
      "duplicatePackets m = duplicatePackets (buffer_metrics b)"
      "overflowPackets m = overflowPackets (buffer_metrics b)"
      using measured_metrics_ok [of arrival "inserted_buffer p b" p] ok arrival
      by (auto simp: buffer_ok_def)
    define b' where "b' = (inserted_buffer p b)\<lparr>buffer_metrics := m, lastArrival := arrival,
        lastPresentationNanoseconds := presentationTimestampNanoseconds p,
        latestEndFrame := max (latestEndFrame b) (startFrame p + ucast (frameCount p))\<rparr>"
    let ?l = "max (latestEndFrame b) (startFrame p + ucast (frameCount p))"
    have "push p arrival b = (Inr True, drop_overflow b')"
      using False eq m by (simp add: push_inserted_def b'_def)
    moreover have "entry_ok (Some (incoming_format p)) ?l e" if "e \<in> set (packets b')" for e
    proof -
      have "e = (startFrame p, buffered_of p) \<or> e \<in> set (packets (evict_expired b))"
        using that set_inserted_buffer [OF map_ok False] by (simp add: b'_def)
      then show ?thesis
        using buffered_of_ok [OF p(1,2), of ?l] entries_keep_format [OF ok fmt]
          entry_ok_mono [of _ "latestEndFrame b" e ?l] by (metis max.cobounded1 max.cobounded2)
    qed
    moreover have "map_ok (packets b')"
      using packet_map.emplace_ok [OF map_ok] by (simp add: b'_def inserted_buffer_def)
    moreover have "length (packets b') \<le> 1025"
      using packet_map.length_emplace [OF map_ok, of "startFrame p" "buffered_of p"]
        length_evict_expired [of b] ok
      by (simp add: b'_def inserted_buffer_def buffer_ok_def split: if_splits)
    ultimately show thesis
      using Inserted [OF False _ b'_def _ m(3-5)] arrival m(2) packet_acceptableD(3) [OF p(1)]
      by (simp add: nearly_ok_def b'_def incoming_format_def)
  qed
qed

lemma push_ok:
  assumes ok: "buffer_ok b" and arrival: "time_ok arrival"
  shows "buffer_ok (snd (push p arrival b))"
proof (cases rule: push_cases [where p = p and b = b and arrival = arrival])
  case (Invalid e)
  with ok show ?thesis by simp
next
  case Late
  with evict_expired_ok [OF ok] show ?thesis
    by (simp add: push_late buffer_ok_def metrics_ok_counters)
next
  case (Changed f)
  with evict_expired_ok [OF ok] show ?thesis by (simp add: push_format_changed)
next
  case Emplaced
  from ok arrival this show ?thesis
  proof (cases rule: push_emplaced_cases)
    case Duplicate
    have "format_ok (incoming_format p)"
      using packet_acceptableD(3) [OF Emplaced(1)] by (simp add: incoming_format_def)
    with Duplicate Emplaced(4) evict_expired_ok [OF ok] entries_keep_format [OF ok Emplaced(4)]
    show ?thesis by (simp add: buffer_ok_def metrics_ok_counters)
  next
    case (Inserted b' m)
    then show ?thesis using drop_overflow_ok by simp
  qed
qed

section \<open>What a read returns\<close>

text \<open>
  The abstract view: frame \<open>f\<close>, channel \<open>ch\<close> holds the sample of the last stored packet that covers
  \<open>f\<close>, and \<open>base\<close> where none does.
\<close>

definition covers :: "BufferedPacket \<Rightarrow> nat \<Rightarrow> bool" where
  "covers p f \<longleftrightarrow> unat (buffered_startFrame p) \<le> f \<and>
     f < unat (buffered_startFrame p) + unat (buffered_frameCount p)"

definition packet_sample :: "nat \<Rightarrow> BufferedPacket \<Rightarrow> nat \<Rightarrow> nat \<Rightarrow> i16" where
  "packet_sample channels p f ch =
     buffered_samples p ! ((f - unat (buffered_startFrame p)) * channels + ch)"

fun overlay :: "nat \<Rightarrow> (u64 \<times> BufferedPacket) list \<Rightarrow> nat \<Rightarrow> nat \<Rightarrow> i16 \<Rightarrow> i16" where
  "overlay channels [] f ch base = base"
| "overlay channels (e # ps) f ch base = overlay channels ps f ch
     (if covers (snd e) f then packet_sample channels (snd e) f ch else base)"

text \<open>The number of frames of \<open>[s, s + n)\<close> a packet covers.\<close>

definition overlap :: "nat \<Rightarrow> nat \<Rightarrow> BufferedPacket \<Rightarrow> nat" where
  "overlap s n p =
     min (s + n) (unat (buffered_startFrame p) + unat (buffered_frameCount p)) -
     max s (unat (buffered_startFrame p))"

lemma copy_n_Inr:
  assumes "so + n \<le> length src" "off + n \<le> length dst"
  shows "\<exists>out. copy_n src so n dst off = Inr out \<and> length out = length dst \<and>
    (\<forall>i < length dst. out ! i = (if off \<le> i \<and> i < off + n then src ! (so + (i - off)) else dst ! i))"
proof -
  define mid where "mid = take n (drop so src)"
  have mid: "length mid = n" "\<And>i. i < n \<Longrightarrow> mid ! i = src ! (so + i)"
    using assms(1) by (simp_all add: mid_def)
  have "copy_n src so n dst off = Inr (take off dst @ mid @ drop (off + n) dst)"
    using assms by (simp add: copy_n_def mid_def)
  then show ?thesis using assms(2) mid by (auto simp: nth_append)
qed

lemma frame_index:
  fixes a b c i ch :: nat
  assumes "ch < c"
  shows "a * c \<le> i * c + ch \<longleftrightarrow> a \<le> i" "i * c + ch < b * c \<longleftrightarrow> i < b"
proof -
  have d: "(i * c + ch) div c = i" using assms by simp
  have "a * c \<le> i * c + ch \<longleftrightarrow> a \<le> (i * c + ch) div c"
    using assms by (subst less_eq_div_iff_mult_less_eq) auto
  then show "a * c \<le> i * c + ch \<longleftrightarrow> a \<le> i" by (simp only: d)
  have "i * c + ch < b * c \<longleftrightarrow> (i * c + ch) div c < b"
    using assms by (subst div_less_iff_less_mult) auto
  then show "i * c + ch < b * c \<longleftrightarrow> i < b" by (simp only: d)
qed

lemma frame_index_bound: "i < n \<Longrightarrow> ch < c \<Longrightarrow> i * c + ch < n * (c :: nat)"
  by (simp add: frame_index)

lemma frame_index_diff: "d \<le> i \<Longrightarrow> i * c + ch - d * c = (i - d) * c + (ch :: nat)"
  by (auto simp: le_iff_add add_mult_distrib)

lemma overlay_uncovered: "(\<And>e. e \<in> set ps \<Longrightarrow> \<not> covers (snd e) f) \<Longrightarrow> overlay c ps f ch base = base"
  by (induction ps arbitrary: base) auto

lemma copy_packets_wrapped:
  "requestedEnd < start \<Longrightarrow> copy_packets start requestedEnd c ps out k = Inr (out, k)"
proof (induction ps)
  case (Cons e ps)
  obtain k p where e: "e = (k, p)" by fastforce
  have "\<not> max start (buffered_startFrame p) < min requestedEnd (end_frame p)"
    using Cons.prems by (metis less_trans max_less_iff_conj min_less_iff_conj not_less_iff_gr_or_eq)
  moreover have "\<not> start < requestedEnd" using Cons.prems by simp
  ultimately show ?case using Cons by (simp add: e Let_def)
qed simp

text \<open>One packet that overlaps the request: its frames land where they belong.\<close>

lemma copy_one:
  assumes p: "unat (buffered_startFrame p) + unat (buffered_frameCount p) < 18446744073709551616"
      "length (buffered_samples p) = unat (buffered_frameCount p) * c"
    and req: "unat start + n < 18446744073709551616" "length out = n * c"
    and cs: "copyStart = max start (buffered_startFrame p)"
    and ce: "copyEnd = min (start + of_nat n) (end_frame p)" and less: "copyStart < copyEnd"
  shows "\<exists>out'. copy_n (buffered_samples p) (unat (copyStart - buffered_startFrame p) * c)
      (unat (copyEnd - copyStart) * c) out (unat (copyStart - start) * c) = Inr out' \<and>
    length out' = n * c \<and> (\<forall>i < n. \<forall>ch < c. out' ! (i * c + ch) =
      (if covers p (unat start + i) then packet_sample c p (unat start + i) ch else out ! (i * c + ch)))"
    and "unat (copyEnd - copyStart) = overlap (unat start) n p"
proof -
  define s a m where "s = unat start" and "a = unat (buffered_startFrame p)"
    and "m = unat (buffered_frameCount p)"
  have reqEnd: "unat (start + of_nat n) = s + n"
    using req(1) unfolding s_def by (subst unat_add_no_wrap) (simp_all add: unat_of_nat take_bit_nat_eq_self_iff)
  have pend: "unat (end_frame p) = a + m" unfolding a_def m_def by (rule unat_end_frame [OF p(1)])
  have ucs: "unat copyStart = max s a"
    unfolding cs s_def a_def by (auto simp: max_def word_le_nat_alt)
  have uce: "unat copyEnd = min (s + n) (a + m)"
    unfolding ce by (auto simp: min_def word_le_nat_alt reqEnd pend)
  have lt: "max s a < min (s + n) (a + m)"
    using less by (simp add: word_less_nat_alt ucs uce)
  have frames: "unat (copyEnd - copyStart) = min (s + n) (a + m) - max s a"
    using less by (subst unat_sub) (simp_all add: ucs uce)
  then show "unat (copyEnd - copyStart) = overlap (unat start) n p"
    by (simp add: overlap_def s_def a_def m_def)
  have src: "unat (copyStart - buffered_startFrame p) = max s a - a"
    by (subst unat_sub) (simp_all add: cs, simp add: ucs [unfolded cs] a_def)
  have dst: "unat (copyStart - start) = max s a - s"
    by (subst unat_sub) (simp_all add: cs, simp add: ucs [unfolded cs] s_def)
  let ?n = "min (s + n) (a + m) - max s a"
  have "(max s a - a) * c + ?n * c \<le> m * c" "(max s a - s) * c + ?n * c \<le> n * c"
    unfolding add_mult_distrib [symmetric] using lt by (intro mult_le_mono1; linarith)+
  then obtain out' where out': "copy_n (buffered_samples p) ((max s a - a) * c) (?n * c) out
        ((max s a - s) * c) = Inr out'" "length out' = n * c"
      "\<And>j. j < n * c \<Longrightarrow> out' ! j = (if (max s a - s) * c \<le> j \<and> j < (max s a - s) * c + ?n * c
        then buffered_samples p ! ((max s a - a) * c + (j - (max s a - s) * c)) else out ! j)"
    using copy_n_Inr [of "(max s a - a) * c" "?n * c" "buffered_samples p" "(max s a - s) * c" out] p req
    unfolding m_def by auto
  have "out' ! (i * c + ch) = (if covers p (s + i) then packet_sample c p (s + i) ch
      else out ! (i * c + ch))" if i: "i < n" and ch: "ch < c" for i ch
  proof -
    have range: "(max s a - s) * c \<le> i * c + ch \<and> i * c + ch < (max s a - s) * c + ?n * c \<longleftrightarrow>
        max s a - s \<le> i \<and> i < (max s a - s) + ?n"
      using ch by (simp add: frame_index flip: add_mult_distrib)
    have cov: "covers p (s + i) \<longleftrightarrow> max s a - s \<le> i \<and> i < (max s a - s) + ?n"
      using lt i unfolding covers_def a_def [symmetric] m_def [symmetric] by linarith
    have "(max s a - a) * c + (i * c + ch - (max s a - s) * c) = (s + i - a) * c + ch"
      if "max s a - s \<le> i"
    proof -
      have "i * c + ch - (max s a - s) * c = (i - (max s a - s)) * c + ch"
        using that by (rule frame_index_diff)
      moreover have "(max s a - a) + (i - (max s a - s)) = s + i - a" using that by linarith
      ultimately show ?thesis by (metis add.assoc add_mult_distrib)
    qed
    then show ?thesis
      using out'(3) [OF frame_index_bound [OF i ch]] range cov
      by (auto simp: packet_sample_def a_def)
  qed
  then show "\<exists>out'. copy_n (buffered_samples p) (unat (copyStart - buffered_startFrame p) * c)
      (unat (copyEnd - copyStart) * c) out (unat (copyStart - start) * c) = Inr out' \<and>
    length out' = n * c \<and> (\<forall>i < n. \<forall>ch < c. out' ! (i * c + ch) =
      (if covers p (unat start + i) then packet_sample c p (unat start + i) ch else out ! (i * c + ch)))"
    using out' unfolding frames src dst s_def by blast
qed

lemma overlap_0:
  "s + n \<le> unat (buffered_startFrame p) \<Longrightarrow> overlap s n p = 0"
  "unat (buffered_startFrame p) + unat (buffered_frameCount p) \<le> s \<Longrightarrow> overlap s n p = 0"
  by (simp_all add: overlap_def)

definition copied_frames :: "nat \<Rightarrow> nat \<Rightarrow> (u64 \<times> BufferedPacket) list \<Rightarrow> nat" where
  "copied_frames s n ps = sum_list (map (\<lambda>e. overlap s n (snd e)) ps)"

lemma ucast_unat_add: "k + ucast (w :: u64) + of_nat m = (k :: u32) + of_nat (unat w + m)"
  by (simp add: add.assoc)

lemma copy_packets_overlay:
  assumes "map_ok ps" "\<forall>e \<in> set ps. entry_ok (Some f) l e" "c = unat (format_channelCount f)"
    and "unat start + n < 18446744073709551616" "length out = n * c"
  shows "\<exists>out'. copy_packets start (start + of_nat n) c ps out k =
      Inr (out', k + of_nat (copied_frames (unat start) n ps)) \<and> length out' = n * c \<and>
    (\<forall>i < n. \<forall>ch < c. out' ! (i * c + ch) = overlay c ps (unat start + i) ch (out ! (i * c + ch)))"
  using assms
proof (induction ps arbitrary: out k)
  case Nil
  then show ?case by (simp add: copied_frames_def)
next
  case (Cons e ps)
  obtain key p where e: "e = (key, p)" by fastforce
  have p: "unat (buffered_startFrame p) + unat (buffered_frameCount p) < 18446744073709551616"
    "length (buffered_samples p) = unat (buffered_frameCount p) * c" "key = buffered_startFrame p"
    using Cons.prems e by (simp_all add: entry_ok_def)
  have IH: "\<exists>out'. copy_packets start (start + of_nat n) c ps out k =
      Inr (out', k + of_nat (copied_frames (unat start) n ps)) \<and> length out' = n * c \<and>
    (\<forall>i < n. \<forall>ch < c. out' ! (i * c + ch) = overlay c ps (unat start + i) ch (out ! (i * c + ch)))"
    if "length out = n * c" for out k
    using Cons.IH [of out k] Cons.prems that by simp
  have reqEnd: "unat (start + of_nat n) = unat start + n"
    using Cons.prems(4) by (subst unat_add_no_wrap) (simp_all add: unat_of_nat take_bit_nat_eq_self_iff)
  let ?cs = "max start (buffered_startFrame p)" and ?ce = "min (start + of_nat n) (end_frame p)"
  consider (before) "end_frame p \<le> start"
    | (after) "\<not> end_frame p \<le> start" "buffered_startFrame p \<ge> start + of_nat n"
    | (hit) "\<not> end_frame p \<le> start" "\<not> buffered_startFrame p \<ge> start + of_nat n" "?cs < ?ce"
    | (empty) "\<not> end_frame p \<le> start" "\<not> buffered_startFrame p \<ge> start + of_nat n" "\<not> ?cs < ?ce"
    by blast
  then show ?case
  proof cases
    case before
    then have le: "unat (buffered_startFrame p) + unat (buffered_frameCount p) \<le> unat start"
      using unat_end_frame [OF p(1)] by (simp add: word_le_nat_alt)
    then have "\<not> covers p (unat start + i)" for i by (simp add: covers_def)
    with before IH [OF Cons.prems(5), of k] overlap_0(2) [OF le] show ?thesis
      by (simp add: e copied_frames_def)
  next
    case after
    then have le: "unat start + n \<le> unat (buffered_startFrame p)"
      using reqEnd by (simp add: word_le_nat_alt)
    have later: "unat start + n \<le> unat (buffered_startFrame (snd e'))" if "e' \<in> set ps" for e'
    proof -
      have "key < fst e'" "fst e' = buffered_startFrame (snd e')"
        using Cons.prems(1,2) that e by (auto simp: entry_ok_def)
      then show ?thesis using le p(3) by (simp add: word_less_nat_alt)
    qed
    have "copied_frames (unat start) n (e # ps) = 0"
      using le later by (auto simp: copied_frames_def e overlap_0(1))
    moreover have "overlay c (e # ps) (unat start + i) ch base = base" if "i < n" for i ch base
      using that le later by (intro overlay_uncovered) (auto simp: e covers_def dest: later)
    ultimately show ?thesis using after Cons.prems(5) by (simp add: e)
  next
    case hit
    obtain out1 where out1: "copy_n (buffered_samples p) (unat (?cs - buffered_startFrame p) * c)
        (unat (?ce - ?cs) * c) out (unat (?cs - start) * c) = Inr out1" "length out1 = n * c"
      "\<And>i ch. i < n \<Longrightarrow> ch < c \<Longrightarrow> out1 ! (i * c + ch) =
        (if covers p (unat start + i) then packet_sample c p (unat start + i) ch else out ! (i * c + ch))"
      using copy_one(1) [OF p(1,2) Cons.prems(4,5) refl refl hit(3)] by blast
    have frames: "unat (?ce - ?cs) = overlap (unat start) n p"
      by (rule copy_one(2) [OF p(1,2) Cons.prems(4,5) refl refl hit(3)])
    have "copied_frames (unat start) n (e # ps) =
        unat (?ce - ?cs) + copied_frames (unat start) n ps"
      by (simp add: copied_frames_def e frames)
    with hit out1 IH [OF out1(2), of "k + ucast (?ce - ?cs)"] show ?thesis
      by (auto simp: e Let_def ucast_unat_add)
  next
    case empty
    have "\<not> unat ?cs < unat ?ce" using empty(3) unfolding word_less_nat_alt .
    then have le: "unat start + n \<le> unat start"
      using empty(1,2) reqEnd unat_end_frame [OF p(1)] Cons.prems(2) e
      by (auto simp: entry_ok_def word_le_nat_alt max_def min_def split: if_splits)
    then have "overlap (unat start) n p = 0" by (simp add: overlap_def)
    with le empty IH [OF Cons.prems(5), of k] show ?thesis
      by (simp add: e copied_frames_def Let_def)
  qed
qed

section \<open>Reachable buffers\<close>

text \<open>
  The receiver thread and the callback interleave whole operations. An operation carries what its
  environment supplies: the packet and its arrival time, or the outcome of the lock attempt, the
  first frame, the size of the span and the lookahead flag.
\<close>

datatype buffer_op =
    Push AudioPacket int
  | Read bool u64 nat bool

fun op_ok :: "buffer_op \<Rightarrow> bool" where
  "op_ok (Push p arrival) = time_ok arrival"
| "op_ok (Read owns start len retain) = (len < 18446744073709551616)"

fun buffer_exec :: "buffer_op \<Rightarrow> JitterBuffer \<Rightarrow> JitterBuffer" where
  "buffer_exec (Push p arrival) b = snd (push p arrival b)"
| "buffer_exec (Read owns start len retain) b =
     snd (snd (readFrames owns start (replicate len 0) retain b))"

inductive buffer_reachable :: "JitterBuffer \<Rightarrow> bool" where
  new: "buffer_reachable JitterBuffer_new"
| step: "buffer_reachable b \<Longrightarrow> op_ok op \<Longrightarrow> buffer_reachable (buffer_exec op b)"

lemma read_state:
  "\<exists>r. snd (snd (readFrames owns start out retain b)) = b\<lparr>latestReadFrame := r\<rparr> \<and>
    latestReadFrame b \<le> r"
proof -
  have "b = b\<lparr>latestReadFrame := latestReadFrame b\<rparr>" by simp
  then show ?thesis
    unfolding readFrames_def Let_def
    by (auto split: option.split sum.split prod.split intro: exI [of _ "latestReadFrame b"])
qed

lemma buffer_ok_read_state: "buffer_ok (b\<lparr>latestReadFrame := r\<rparr>) = buffer_ok b"
  by (simp add: buffer_ok_def)

lemma buffer_exec_ok: "buffer_ok b \<Longrightarrow> op_ok op \<Longrightarrow> buffer_ok (buffer_exec op b)"
proof (cases op)
  case (Read owns start len retain)
  assume "buffer_ok b"
  then show ?thesis
    using read_state [of owns start "replicate len 0" retain b] Read
    by (auto simp: buffer_ok_read_state)
qed (simp add: push_ok)

lemma reachable_ok: "buffer_reachable b \<Longrightarrow> buffer_ok b"
  by (induction rule: buffer_reachable.induct) (simp_all add: buffer_exec_ok)

lemma drop_overflow_latestReadFrame [simp]: "latestReadFrame (drop_overflow b) = latestReadFrame b"
  by (simp add: drop_overflow_def)

lemma push_latestReadFrame: "latestReadFrame (snd (push p arrival b)) = latestReadFrame b"
  by (auto simp: push_def Let_def push_inserted_def split: prod.split sum.split)

lemma buffer_exec_read_mono: "latestReadFrame b \<le> latestReadFrame (buffer_exec op b)"
proof (cases op)
  case (Read owns start len retain)
  then show ?thesis using read_state [of owns start "replicate len 0" retain b] by auto
qed (simp add: push_latestReadFrame)

section \<open>Reading a buffer that satisfies the invariant\<close>

lemma read_unwrapped:
  assumes ok: "buffer_ok b" and f: "format b = Some f" and c: "c = unat (format_channelCount f)"
    and n: "length out = n * c" "unat start + n < 18446744073709551616"
  shows "\<exists>out' b'. readFrames True start out retain b =
      (Inr (of_nat (copied_frames (unat start) n (packets b))), out', b') \<and> length out' = n * c \<and>
    (\<forall>i < n. \<forall>ch < c. out' ! (i * c + ch) = overlay c (packets b) (unat start + i) ch 0)"
proof -
  have c0: "0 < c" using ok f c by (auto simp: buffer_ok_def format_ok_def)
  obtain out' where out': "copy_packets start (start + of_nat n) c (packets b) (replicate (n * c) 0) 0 =
      Inr (out', of_nat (copied_frames (unat start) n (packets b)))" "length out' = n * c"
    "\<And>i ch. i < n \<Longrightarrow> ch < c \<Longrightarrow> out' ! (i * c + ch) = overlay c (packets b) (unat start + i) ch 0"
    using copy_packets_overlay [of "packets b" f "latestEndFrame b" c start n
        "replicate (n * c) 0" 0] ok f c n
    by (auto simp: buffer_ok_def frame_index_bound)
  have "readFrames True start out retain b =
      (Inr (of_nat (copied_frames (unat start) n (packets b))), out',
       b\<lparr>latestReadFrame := max (latestReadFrame b)
          (start + of_nat n - (if retain then of_nat (min 2 n) else 0))\<rparr>)"
    using out'(1) c0 n(1) by (simp add: readFrames_def Let_def f c [symmetric])
  with out' show ?thesis by blast
qed

lemma read_wrapped:
  assumes ok: "buffer_ok b" and f: "format b = Some f" and c: "c = unat (format_channelCount f)"
    and n: "length out = n * c" "n < 18446744073709551616" "18446744073709551616 \<le> unat start + n"
  shows "\<exists>b'. readFrames True start out retain b = (Inr 0, replicate (n * c) 0, b')"
proof -
  have c0: "0 < c" using ok f c by (auto simp: buffer_ok_def format_ok_def)
  have "unat (start + of_nat n) = (unat start + n) mod 18446744073709551616"
    by (simp add: unat_word_ariths unat_of_nat take_bit_eq_mod mod_simps)
  also have "\<dots> < unat start"
  proof -
    have "(unat start + n) mod 18446744073709551616 = unat start + n - 18446744073709551616"
      using n unat_u64_less [of start] by (simp add: le_mod_geq)
    then show ?thesis using n(2,3) by linarith
  qed
  finally have "start + of_nat n < start" by (simp add: word_less_nat_alt)
  then show ?thesis
    using copy_packets_wrapped [of "start + of_nat n" start c "packets b" "replicate (n * c) 0" 0] c0 n(1)
    by (simp add: readFrames_def Let_def f c [symmetric])
qed

lemma read_aligned_ok:
  assumes ok: "buffer_ok b" and f: "format b = Some f"
    and out: "length out mod unat (format_channelCount f) = 0" "length out < 18446744073709551616"
  shows "\<exists>v. fst (readFrames True start out retain b) = Inr v"
proof -
  define n where "n = length out div unat (format_channelCount f)"
  have len: "length out = n * unat (format_channelCount f)"
    using out(1) by (simp add: n_def mod_eq_0_iff_dvd)
  have n: "n < 18446744073709551616"
    using out(2) div_le_dividend [of "length out"] unfolding n_def by (rule le_less_trans [rotated])
  show ?thesis
  proof (cases "unat start + n < 18446744073709551616")
    case True
    obtain out' b' where "readFrames True start out retain b =
        (Inr (of_nat (copied_frames (unat start) n (packets b))), out', b')"
      using read_unwrapped [OF ok f refl len True, of retain] by blast
    then show ?thesis by simp
  next
    case False
    obtain b' where "readFrames True start out retain b =
        (Inr 0, replicate (n * unat (format_channelCount f)) 0, b')"
      using read_wrapped [OF ok f refl len n, of start retain] False by auto
    then show ?thesis by simp
  qed
qed

text \<open>The last packet to cover a frame decides; with disjoint packets it is the only one.\<close>

lemma overlay_last:
  assumes "e \<in> set ps" "covers (snd e) f" "\<And>e'. e' \<in> set ps \<Longrightarrow> covers (snd e') f \<Longrightarrow> e' = e"
  shows "overlay c ps f ch base = packet_sample c (snd e) f ch"
  using assms
proof (induction ps arbitrary: base)
  case (Cons e' ps)
  note unique = Cons.prems(3)
  show ?case
  proof (cases "e \<in> set ps")
    case True
    have "overlay c ps f ch base' = packet_sample c (snd e) f ch" for base'
      by (rule Cons.IH [OF True Cons.prems(2)], rule unique) simp_all
    then show ?thesis by simp
  next
    case False
    then have "e' = e" using Cons.prems(1) by simp
    moreover have "overlay c ps f ch base' = base'" for base'
    proof (rule overlay_uncovered)
      fix e'' assume "e'' \<in> set ps"
      then show "\<not> covers (snd e'') f" using unique [of e''] False by auto
    qed
    ultimately show ?thesis using Cons.prems(2) by simp
  qed
qed simp

lemma overlay_eq:
  "overlay c ps f ch base =
    (case filter (\<lambda>e. covers (snd e) f) ps of
       [] \<Rightarrow> base
     | e # es \<Rightarrow> packet_sample c (snd (last (e # es))) f ch)"
  by (induction ps arbitrary: base) (auto split: list.split)

lemma overlap_card: "overlap s n p = card {i. i < n \<and> covers p (s + i)}"
proof -
  define a m where "a = unat (buffered_startFrame p)" and "m = unat (buffered_frameCount p)"
  have "{i. i < n \<and> covers p (s + i)} = {max s a - s ..< min (s + n) (a + m) - s}"
    unfolding covers_def a_def [symmetric] m_def [symmetric] by auto
  then show ?thesis
    by (simp add: overlap_def a_def [symmetric] m_def [symmetric])
qed

definition disjoint_packets :: "(u64 \<times> BufferedPacket) list \<Rightarrow> bool" where
  "disjoint_packets ps \<longleftrightarrow> sorted_wrt (\<lambda>e e'.
     unat (buffered_startFrame (snd e)) + unat (buffered_frameCount (snd e)) \<le>
       unat (buffered_startFrame (snd e'))) ps"

lemma copied_frames_card:
  "disjoint_packets ps \<Longrightarrow>
    copied_frames s n ps = card {i. i < n \<and> (\<exists>e \<in> set ps. covers (snd e) (s + i))}"
proof (induction ps)
  case Nil
  then show ?case by (simp add: copied_frames_def)
next
  case (Cons e ps)
  let ?A = "{i. i < n \<and> covers (snd e) (s + i)}"
  let ?B = "{i. i < n \<and> (\<exists>e \<in> set ps. covers (snd e) (s + i))}"
  have "?A \<inter> ?B = {}"
    using Cons.prems by (fastforce simp: disjoint_packets_def covers_def)
  then have "card (?A \<union> ?B) = card ?A + card ?B" by (intro card_Un_disjoint) auto
  moreover have "?A \<union> ?B = {i. i < n \<and> (\<exists>e \<in> set (e # ps). covers (snd e) (s + i))}" by auto
  ultimately show ?case
    using Cons by (simp add: copied_frames_def overlap_card disjoint_packets_def)
qed

lemma copied_single:
  assumes "map_ok ps" "e \<in> set ps" "\<And>i. i < n \<Longrightarrow> covers (snd e) (s + i)"
    and "\<And>e' i. e' \<in> set ps \<Longrightarrow> covers (snd e') (s + i) \<Longrightarrow> i < n \<Longrightarrow> e' = e"
  shows "copied_frames s n ps = n"
  using assms
proof (induction ps)
  case (Cons e' ps)
  note unique = Cons.prems(4)
  have other: "overlap s n (snd x) = 0" if "x \<in> set (e' # ps)" "x \<noteq> e" for x
  proof -
    have "{i. i < n \<and> covers (snd x) (s + i)} = {}"
      using unique [OF that(1)] that(2) by blast
    then show ?thesis unfolding overlap_card by simp
  qed
  show ?case
  proof (cases "e' = e")
    case True
    then have "e \<notin> set ps" using Cons.prems(1) by auto
    then have "copied_frames s n ps = 0"
      using other by (auto simp: copied_frames_def)
    moreover have "{i. i < n \<and> covers (snd e) (s + i)} = {..<n}"
      using Cons.prems(3) by auto
    then have "overlap s n (snd e) = n" unfolding overlap_card by simp
    ultimately show ?thesis using True by (simp add: copied_frames_def)
  next
    case False
    then have "copied_frames s n ps = n"
      using Cons.prems by (intro Cons.IH) auto
    then show ?thesis using other [of e'] False by (simp add: copied_frames_def)
  qed
qed simp

section \<open>Properties\<close>

definition example_buffer :: JitterBuffer where
  "example_buffer =
     \<lparr>packets = [(258, \<lparr>buffered_startFrame = 258, buffered_presentation = 1000,
        buffered_frameCount = 2, buffered_samples = [1, 32767]\<rparr>)],
      format = Some \<lparr>format_sampleRate = 8000, format_channelCount = 1\<rparr>,
      latestEndFrame = 260, latestReadFrame = 0, lastPresentationNanoseconds = 1000,
      lastArrival = 5, buffer_metrics = buffer_metrics JitterBuffer_new\<rparr>"

lemma example_push: "push example_packet 5 JitterBuffer_new = (Inr True, example_buffer)"
  by (simp add: push_def packet_acceptable_def example_packet_def default_AudioPacket_def
      PcmS16LittleEndian_def Let_def evict_expired_def JitterBuffer_new_def push_inserted_def
      buffered_of_def example_buffer_def measured_metrics_def drop_overflow_def max_def)

lemma example_buffer_reachable: "buffer_reachable example_buffer"
  using buffer_reachable.step [OF buffer_reachable.new, of "Push example_packet 5"] example_push
  by (simp add: time_ok_def)

text \<open>
  C3. Whatever packets arrive and however reads interleave with them, the buffer holds at most 1024
  packets in strictly ascending order of start frame, every one of them non-empty, inside the
  64-bit frame range, at or before the reported latest end and with exactly the samples its frames
  and the one format of the stream need; the adaptive target stays between 150 and 350 ms.
\<close>

theorem buffer_invariant:
  assumes "buffer_reachable b"
  shows "sorted_wrt (<) (map fst (packets b)) \<and> length (packets b) \<le> 1024 \<and>
    (\<forall>(k, p) \<in> set (packets b). k = buffered_startFrame p \<and> 0 < unat (buffered_frameCount p) \<and>
      unat k + unat (buffered_frameCount p) \<le> unat (latestEndFrame b) \<and>
      (\<exists>f. format b = Some f \<and> length (buffered_samples p) =
        unat (buffered_frameCount p) * unat (format_channelCount f))) \<and>
    150 \<le> targetBufferMilliseconds (buffer_metrics b) \<and>
    targetBufferMilliseconds (buffer_metrics b) \<le> 350"
proof -
  have "unat k + unat (buffered_frameCount p) \<le> unat (latestEndFrame b)"
    if "(k, p) \<in> set (packets b)" for k p
    using reachable_ok [OF assms] that unat_end_frame [of p]
    by (fastforce simp: buffer_ok_def entry_ok_def word_le_nat_alt)
  then show ?thesis
    using reachable_ok [OF assms]
    by (fastforce simp: buffer_ok_def map_ok_def entry_ok_def metrics_ok_def)
qed

theorem buffer_invariant_witness:
  "sorted_wrt (<) (map fst (packets example_buffer)) \<and>
   150 \<le> targetBufferMilliseconds (buffer_metrics example_buffer)"
  using buffer_invariant [OF example_buffer_reachable] by blast

text \<open>
  C2. A read that gets the lock returns, in every frame of the span and every channel, the sample
  of the stored packet that covers the frame (of the last one in frame order, should several) and
  silence where none does; it writes nothing outside the span.
\<close>

theorem read_returns_stored_audio:
  assumes "buffer_reachable b" "format b = Some f" "c = unat (format_channelCount f)"
    and "length out = n * c" "unat start + n < 18446744073709551616"
  shows "\<exists>copied out' b'. readFrames True start out retain b = (Inr copied, out', b') \<and>
    length out' = length out \<and>
    (\<forall>i < n. \<forall>ch < c. out' ! (i * c + ch) =
      (case filter (\<lambda>e. covers (snd e) (unat start + i)) (packets b) of
         [] \<Rightarrow> 0
       | e # es \<Rightarrow> packet_sample c (snd (last (e # es))) (unat start + i) ch))"
  using read_unwrapped [OF reachable_ok [OF assms(1)] assms(2-5), of retain]
  by (auto simp: assms(4) overlay_eq)

theorem read_returns_stored_audio_witness:
  "\<exists>copied out' b'. readFrames True 257 [9, 9, 9, 9] True example_buffer = (Inr copied, out', b') \<and>
    out' = [0, 1, 32767, 0]"
proof -
  obtain copied out' b' where *: "readFrames True 257 [9, 9, 9, 9] True example_buffer =
      (Inr copied, out', b')" "length out' = 4"
    "\<forall>i < 4. \<forall>ch < 1. out' ! (i * 1 + ch) =
      (case filter (\<lambda>e. covers (snd e) (unat (257 :: u64) + i)) (packets example_buffer) of
         [] \<Rightarrow> 0
       | e # es \<Rightarrow> packet_sample 1 (snd (last (e # es))) (unat (257 :: u64) + i) ch)"
    using read_returns_stored_audio [OF example_buffer_reachable, of
        "\<lparr>format_sampleRate = 8000, format_channelCount = 1\<rparr>" 1 "[9, 9, 9, 9]" 4 257 True]
    by (auto simp: example_buffer_def)
  have "out' ! 0 = 0" "out' ! 1 = 1" "out' ! 2 = 32767" "out' ! 3 = 0"
    using *(3) [rule_format, of 0 0] *(3) [rule_format, of 1 0] *(3) [rule_format, of 2 0]
      *(3) [rule_format, of 3 0]
    by (simp_all add: example_buffer_def covers_def packet_sample_def)
  then have "out' = [0, 1, 32767, 0]"
    using *(2) by (auto simp: list_eq_iff_nth_eq less_Suc_eq numeral_eq_Suc)
  with *(1) show ?thesis by blast
qed

text \<open>
  As long as the stored packets do not overlap, the number a read returns is the number of
  requested frames that some packet covers.
\<close>

theorem read_counts_covered_frames:
  assumes "buffer_reachable b" "format b = Some f" "length out = n * unat (format_channelCount f)"
    and "unat start + n < 18446744073709551616" "n < 4294967296" "disjoint_packets (packets b)"
  shows "\<exists>copied out' b'. readFrames True start out retain b = (Inr copied, out', b') \<and>
    unat copied = card {i. i < n \<and> (\<exists>e \<in> set (packets b). covers (snd e) (unat start + i))}"
proof -
  let ?N = "{i. i < n \<and> (\<exists>e \<in> set (packets b). covers (snd e) (unat start + i))}"
  have "card ?N \<le> card {..<n}" by (intro card_mono) auto
  then have "unat (of_nat (card ?N) :: u32) = card ?N"
    using assms(5) by (simp add: unat_of_nat take_bit_nat_eq_self_iff)
  then show ?thesis
    using read_unwrapped [OF reachable_ok [OF assms(1)] assms(2) refl assms(3,4), of retain]
      copied_frames_card [OF assms(6), of "unat start" n] by auto
qed

theorem read_counts_covered_frames_witness:
  "\<exists>copied out' b'. readFrames True 257 [9, 9, 9, 9] True example_buffer = (Inr copied, out', b') \<and>
    unat copied = card {i. i < 4 \<and> (\<exists>e \<in> set (packets example_buffer).
      covers (snd e) (unat (257 :: u64) + i))}"
  by (rule read_counts_covered_frames [OF example_buffer_reachable, where
        f = "\<lparr>format_sampleRate = 8000, format_channelCount = 1\<rparr>"])
    (simp_all add: example_buffer_def disjoint_packets_def)

text \<open>
  A read never touches memory outside the packets' samples or the span, also when the range of
  frames wraps around: the only way it fails is on a span that is not a whole number of frames, and
  it then leaves the span silent.
\<close>

theorem read_fails_only_unaligned:
  assumes "buffer_reachable b" "length out < 18446744073709551616"
  shows "fst (readFrames owns start out retain b) = Inl e \<longleftrightarrow>
    e = Invalid_Argument ''Jitter buffer output is not frame aligned'' \<and> owns \<and>
    (\<exists>f. format b = Some f \<and> length out mod unat (format_channelCount f) \<noteq> 0)"
proof -
  consider (silent) "\<not> owns \<or> format b = None"
    | (unaligned) f where "owns" "format b = Some f" "length out mod unat (format_channelCount f) \<noteq> 0"
    | (aligned) f where "owns" "format b = Some f" "length out mod unat (format_channelCount f) = 0"
    by (cases "format b") auto
  then show ?thesis
  proof cases
    case silent
    then show ?thesis by (cases "format b") (auto simp: readFrames_def Let_def)
  next
    case unaligned
    then show ?thesis by (auto simp: readFrames_def Let_def)
  next
    case aligned
    then have "fst (readFrames owns start out retain b) \<noteq> Inl e"
      using read_aligned_ok [OF reachable_ok [OF assms(1)] aligned(2,3) assms(2), of start retain]
      by auto
    with aligned show ?thesis by simp
  qed
qed

theorem read_fails_only_unaligned_witness:
  "fst (readFrames True 0 [1, 2, 3] False example_buffer) \<noteq> Inl Out_Of_Bounds"
  using read_fails_only_unaligned [OF example_buffer_reachable, of "[1, 2, 3]" True 0 False
      Out_Of_Bounds] by simp

definition format_changed :: "AudioPacket \<Rightarrow> JitterBuffer \<Rightarrow> bool" where
  "format_changed p b \<longleftrightarrow> (\<exists>f. format b = Some f \<and> f \<noteq> incoming_format p)"

lemma format_unchanged: "\<not> format_changed p b \<longleftrightarrow> format b = None \<or> format b = Some (incoming_format p)"
  by (cases "format b") (auto simp: format_changed_def)

text \<open>
  The outcome of \<open>push\<close> on each branch: it throws exactly on an unsupported packet, a payload of
  the wrong size or a format change, the last only for a packet that is not late; it returns false
  and counts the packet when it is late or its start frame is stored already; otherwise it returns
  true, and no outcome changes another's counter.
\<close>

theorem push_outcome:
  assumes "buffer_reachable b" "time_ok arrival"
  shows "case push p arrival b of
      (Inl e, b') \<Rightarrow> (\<not> packet_acceptable p \<or> \<not> payload_matches p \<or>
         (\<not> packet_late p b \<and> format_changed p b)) \<and> buffer_metrics b' = buffer_metrics b
    | (Inr stored, b') \<Rightarrow> packet_acceptable p \<and> payload_matches p \<and>
        (packet_late p b \<or> \<not> format_changed p b) \<and>
        (stored \<longleftrightarrow> \<not> packet_late p b \<and> \<not> packet_duplicate p b) \<and>
        latePackets (buffer_metrics b') =
          latePackets (buffer_metrics b) + (if packet_late p b then 1 else 0) \<and>
        duplicatePackets (buffer_metrics b') = duplicatePackets (buffer_metrics b) +
          (if \<not> packet_late p b \<and> packet_duplicate p b then 1 else 0)"
proof (cases rule: push_cases [where p = p and b = b and arrival = arrival])
  case (Changed f)
  then show ?thesis by (simp add: push_format_changed format_changed_def)
next
  case Emplaced
  from reachable_ok [OF assms(1)] assms(2) this show ?thesis
  proof (cases rule: push_emplaced_cases)
    case Duplicate
    with Emplaced format_unchanged show ?thesis by simp
  next
    case (Inserted b' m)
    then have "latePackets (buffer_metrics (drop_overflow b')) = latePackets (buffer_metrics b)"
      "duplicatePackets (buffer_metrics (drop_overflow b')) = duplicatePackets (buffer_metrics b)"
      by (simp_all add: drop_overflow_def)
    with Inserted Emplaced format_unchanged [of p b] show ?thesis by simp
  qed
qed (auto simp: push_late)

theorem push_outcome_witness:
  "case push example_packet 9 example_buffer of (Inr False, b') \<Rightarrow>
     duplicatePackets (buffer_metrics b') = 1 | _ \<Rightarrow> False"
proof -
  have dup: "packet_duplicate example_packet example_buffer" "\<not> packet_late example_packet example_buffer"
    by (simp_all add: packet_duplicate_def packet_late_def example_packet_def
        default_AudioPacket_def example_buffer_def evict_expired_def end_frame_def)
  have "packet_acceptable example_packet" "payload_matches example_packet"
    "\<not> format_changed example_packet example_buffer"
    by (simp_all add: packet_acceptable_def payload_matches_def format_changed_def incoming_format_def
        example_packet_def default_AudioPacket_def example_buffer_def PcmS16LittleEndian_def)
  moreover have "time_ok 9" by (simp add: time_ok_def)
  moreover have "duplicatePackets (buffer_metrics example_buffer) = 0"
    by (simp add: example_buffer_def JitterBuffer_new_def)
  ultimately show ?thesis
    using push_outcome [OF example_buffer_reachable, of 9 example_packet] dup
    by (auto split: prod.splits sum.splits bool.splits)
qed

lemma set_drop_overflow: "set (packets (drop_overflow b)) \<subseteq> set (packets b)"
  by (cases "packets b") (auto simp: drop_overflow_def)

lemma set_push:
  assumes "buffer_ok b" "time_ok arrival" "e \<in> set (packets (snd (push p arrival b)))"
    and "e \<notin> set (packets b)"
  shows "\<not> packet_late p b \<and> e = (startFrame p, buffered_of p)"
proof (cases rule: push_cases [where p = p and b = b and arrival = arrival])
  case Late
  with assms set_evict_expired show ?thesis by (auto simp: push_late)
next
  case (Changed f)
  with assms set_evict_expired show ?thesis by (auto simp: push_format_changed)
next
  case Emplaced
  have map_ok: "map_ok (packets (evict_expired b))"
    using evict_expired_ok [OF assms(1)] by (simp add: buffer_ok_def)
  from assms(1,2) Emplaced show ?thesis
  proof (cases rule: push_emplaced_cases)
    case Duplicate
    with assms set_evict_expired show ?thesis by auto
  next
    case (Inserted b' m)
    then have "e \<in> set (packets (inserted_buffer p b))"
      using assms(3) set_drop_overflow [of b'] by auto
    then show ?thesis
      using set_inserted_buffer [OF map_ok Inserted(1)] set_evict_expired [of b] assms(4) Emplaced(3)
      by auto
  qed
qed (use assms in simp)

text \<open>
  C9. Audio that has been played is never queued again: the read position never moves backwards,
  and every packet an operation adds ends after it.
\<close>

theorem played_audio_stays_played:
  assumes "buffer_reachable b" "op_ok op"
  shows "latestReadFrame b \<le> latestReadFrame (buffer_exec op b) \<and>
    (\<forall>e \<in> set (packets (buffer_exec op b)) - set (packets b).
      latestReadFrame (buffer_exec op b) < end_frame (snd e))"
proof -
  have "latestReadFrame (buffer_exec op b) < end_frame (snd e)"
    if e: "e \<in> set (packets (buffer_exec op b))" "e \<notin> set (packets b)" for e
  proof (cases op)
    case (Push p arrival)
    then have "\<not> packet_late p b \<and> e = (startFrame p, buffered_of p)"
      using set_push [OF reachable_ok [OF assms(1)]] assms(2) e by simp
    with Push show ?thesis
      by (auto simp: push_latestReadFrame packet_late_def end_frame_def buffered_of_def not_le)
  next
    case (Read owns start len retain)
    then show ?thesis
      using e read_state [of owns start "replicate len 0" retain b] by auto
  qed
  then show ?thesis using buffer_exec_read_mono by blast
qed

theorem played_audio_stays_played_witness:
  "latestReadFrame JitterBuffer_new \<le> latestReadFrame example_buffer \<and>
   latestReadFrame example_buffer < 260"
  using played_audio_stays_played [OF buffer_reachable.new, of "Push example_packet 5"] example_push
  by (simp add: time_ok_def example_buffer_def JitterBuffer_new_def end_frame_def)

lemma push_stored:
  assumes "buffer_ok b" "time_ok arrival" "push p arrival b = (Inr True, b')"
    and "length (packets b) < 1024"
  shows "packet_acceptable p" "payload_matches p" "format b' = Some (incoming_format p)"
    and "(startFrame p, buffered_of p) \<in> set (packets b')"
    and "set (packets b') \<subseteq> insert (startFrame p, buffered_of p) (set (packets b))"
proof -
  have map_ok: "map_ok (packets (evict_expired b))"
    using evict_expired_ok [OF assms(1)] by (simp add: buffer_ok_def)
  have "packet_acceptable p \<and> payload_matches p \<and> format b' = Some (incoming_format p) \<and>
    (startFrame p, buffered_of p) \<in> set (packets b') \<and>
    set (packets b') \<subseteq> insert (startFrame p, buffered_of p) (set (packets b))"
  proof (cases rule: push_cases [where p = p and b = b and arrival = arrival])
    case Emplaced
    from assms(1,2) Emplaced show ?thesis
    proof (cases rule: push_emplaced_cases)
      case Duplicate
      with assms(3) show ?thesis by simp
    next
      case (Inserted b'' m)
      have "length (packets b'') \<le> 1024"
        using packet_map.length_emplace [OF map_ok, of "startFrame p" "buffered_of p"] Inserted(3)
          length_evict_expired [of b] assms(4)
        by (simp add: inserted_buffer_def split: if_splits)
      then have b': "b' = b''" using Inserted(2) assms(3) by (simp add: drop_overflow_def)
      have "set (packets b') = insert (startFrame p, buffered_of p) (set (packets (evict_expired b)))"
        using set_inserted_buffer [OF map_ok Inserted(1)] Inserted(3) by (simp add: b')
      then show ?thesis
        using set_evict_expired [of b] Emplaced Inserted(3) by (auto simp: b')
    qed
  qed (use assms(3) in \<open>auto simp: push_late push_format_changed\<close>)
  then show "packet_acceptable p" "payload_matches p" "format b' = Some (incoming_format p)"
    "(startFrame p, buffered_of p) \<in> set (packets b')"
    "set (packets b') \<subseteq> insert (startFrame p, buffered_of p) (set (packets b))"
    by blast+
qed

lemma read_pushed:
  assumes ok: "buffer_ok b" "time_ok arrival" and push: "push p arrival b = (Inr True, b')"
    and room: "length (packets b) < 1024"
    and out: "length out = unat (frameCount p) * unat (channelCount p)"
    and alone: "\<And>e i. e \<in> set (packets b) \<Longrightarrow> i < unat (frameCount p) \<Longrightarrow>
      \<not> covers (snd e) (unat (startFrame p) + i)"
  shows "\<exists>b''. readFrames True (startFrame p) out retain b' =
    (Inr (ucast (frameCount p)), decodePcm (pcmPayload p), b'')"
proof -
  note stored = push_stored [OF ok push room]
  have ok': "buffer_ok b'" using push_ok [OF ok, of p] push by simp
  define n c where "n = unat (frameCount p)" and "c = unat (channelCount p)"
  let ?e = "(startFrame p, buffered_of p)"
  have e: "covers (snd ?e) (unat (startFrame p) + i) \<longleftrightarrow> i < n" for i
    by (simp add: covers_def buffered_of_def n_def)
  have only: "e' = ?e" if "e' \<in> set (packets b')" "covers (snd e') (unat (startFrame p) + i)" "i < n" for e' i
    using that stored(5) alone unfolding n_def by blast
  have range: "unat (startFrame p) + n < 18446744073709551616"
    using packet_acceptableD(1) [OF stored(1)] by (simp add: n_def)
  obtain out' b'' where r: "readFrames True (startFrame p) out retain b' =
      (Inr (of_nat (copied_frames (unat (startFrame p)) n (packets b'))), out', b'')" "length out' = n * c"
    "\<And>i ch. i < n \<Longrightarrow> ch < c \<Longrightarrow>
      out' ! (i * c + ch) = overlay c (packets b') (unat (startFrame p) + i) ch 0"
    using read_unwrapped [OF ok' stored(3), of c out n "startFrame p" retain] out range
    by (auto simp: incoming_format_def n_def c_def)
  have len: "length (decodePcm (pcmPayload p)) = n * c"
    using stored(2) by (simp add: payload_matches_def length_decodePcm n_def c_def)
  have sample: "out' ! (i * c + ch) = decodePcm (pcmPayload p) ! (i * c + ch)" if "i < n" "ch < c" for i ch
    using r(3) [OF that] overlay_last [OF stored(4), of "unat (startFrame p) + i" c ch 0] e only that
    by (auto simp: packet_sample_def buffered_of_def)
  have "out' = decodePcm (pcmPayload p)"
  proof (rule nth_equalityI)
    fix j assume "j < length out'"
    then have j: "j < n * c" by (simp only: r(2))
    then have "0 < c" by (cases c) auto
    then have "j div c < n" "j mod c < c" using j by (simp_all add: div_less_iff_less_mult)
    then show "out' ! j = decodePcm (pcmPayload p) ! j"
      using sample [of "j div c" "j mod c"] by simp
  qed (simp add: r(2) len)
  moreover have "copied_frames (unat (startFrame p)) n (packets b') = n"
    using copied_single [OF _ stored(4), where s = "unat (startFrame p)" and n = n] ok' only e
    by (simp add: buffer_ok_def)
  ultimately show ?thesis using r(1) by (simp add: n_def)
qed

text \<open>
  A packet that was accepted into a buffer with room is played as it arrived: reading exactly its
  frames returns its payload, decoded, and counts every frame, as long as no packet stored before
  covers one of them.
\<close>

theorem pushed_packet_is_played:
  assumes "buffer_reachable b" "time_ok arrival" "push p arrival b = (Inr True, b')"
    and "length (packets b) < 1024"
    and "length out = unat (frameCount p) * unat (channelCount p)"
    and "\<And>e i. e \<in> set (packets b) \<Longrightarrow> i < unat (frameCount p) \<Longrightarrow>
      \<not> covers (snd e) (unat (startFrame p) + i)"
  shows "\<exists>b''. readFrames True (startFrame p) out retain b' =
    (Inr (ucast (frameCount p)), decodePcm (pcmPayload p), b'')"
  by (rule read_pushed [OF reachable_ok [OF assms(1)] assms(2-6)])

theorem pushed_packet_is_played_witness:
  "\<exists>b''. readFrames True 258 [7, 7] False example_buffer = (Inr 2, [1, 32767], b'')"
proof -
  have "\<exists>b''. readFrames True (startFrame example_packet) [7, 7] False example_buffer =
      (Inr (ucast (frameCount example_packet)), decodePcm (pcmPayload example_packet), b'')"
    by (rule pushed_packet_is_played [OF buffer_reachable.new _ example_push])
      (simp_all add: time_ok_def JitterBuffer_new_def example_packet_def default_AudioPacket_def)
  then show ?thesis
    by (simp add: example_packet_def default_AudioPacket_def)
qed

end
