(* ===== verification/Drift_Correction.thy ===== *)
theory Drift_Correction
  imports Prelude Float_Round
begin

text \<open>
  The clock drift estimate of \<open>core/src/DriftCorrection.cpp\<close>: a least-squares line through recent
  offset measurements, with a guard against outliers, and the playback-rate correction made of it.
  Times and offsets are signed 64-bit nanosecond counts. Every double operation is one \<open>dbl\<close> of its
  exact result, in the order of the source; the values stay far inside the exponent range of a
  double, as the sums of at most 32 products of 64-bit values do.
\<close>

section \<open>The estimator\<close>

record DriftSample =
  sample_time :: int
  sample_offset :: int

record DriftEstimator =
  drift_samples :: "DriftSample list"
  slope :: rat
  fittedOffsetAtLast :: rat
  consecutiveOutliers :: u32

definition DriftEstimator_new :: DriftEstimator where
  "DriftEstimator_new =
     \<lparr>drift_samples = [], slope = 0, fittedOffsetAtLast = 0, consecutiveOutliers = 0\<rparr>"

definition offsetNanosecondsAt :: "int \<Rightarrow> DriftEstimator \<Rightarrow> exn + rat" where
  "offsetNanosecondsAt time e =
     (if drift_samples e = [] then Inr 0
      else and_then (signed64 (time - sample_time (last (drift_samples e)))) (\<lambda>elapsed.
        Inr (dbl (fittedOffsetAtLast e + dbl (slope e * dbl (of_int elapsed))))))"

definition estimatedDriftPpm :: "DriftEstimator \<Rightarrow> rat" where
  "estimatedDriftPpm e = dbl (slope e * 1000000)"

definition sampleCount :: "DriftEstimator \<Rightarrow> nat" where
  "sampleCount e = length (drift_samples e)"

text \<open>The \<open>while\<close> loop that keeps recent history.\<close>

fun keep_recent :: "int \<Rightarrow> DriftSample list \<Rightarrow> exn + DriftSample list" where
  "keep_recent time [] = Inr []"
| "keep_recent time (s # ss) =
     (if length (s # ss) > 32 then keep_recent time ss
      else if length (s # ss) > 2
      then and_then (signed64 (time - sample_time s)) (\<lambda>age.
        if age > 120000000000 then keep_recent time ss else Inr (s # ss))
      else Inr (s # ss))"

definition sum_dbl :: "rat list \<Rightarrow> rat" where
  "sum_dbl xs = foldl (\<lambda>sum x. dbl (sum + x)) 0 xs"

definition MaximumSlope :: rat where
  "MaximumSlope = dbl (2 / 1000)"

text \<open>The least-squares fit of two samples or more: the slope and the fitted offset at \<open>time\<close>.\<close>

definition fit_line :: "int \<Rightarrow> DriftSample list \<Rightarrow> rat \<times> rat" where
  "fit_line time ss =
     (let originTime = dbl (of_int (sample_time (hd ss)));
          originOffset = dbl (of_int (sample_offset (hd ss)));
          relTime = (\<lambda>s. dbl (dbl (of_int (sample_time s)) - originTime));
          relOffset = (\<lambda>s. dbl (dbl (of_int (sample_offset s)) - originOffset));
          sumTime = sum_dbl (map relTime ss);
          sumOffset = sum_dbl (map relOffset ss);
          meanTime = dbl (sumTime / of_nat (length ss));
          meanOffset = dbl (sumOffset / of_nat (length ss));
          x = (\<lambda>s. dbl (relTime s - meanTime));
          y = (\<lambda>s. dbl (relOffset s - meanOffset));
          covariance = sum_dbl (map (\<lambda>s. dbl (x s * y s)) ss);
          variance = sum_dbl (map (\<lambda>s. dbl (x s * x s)) ss);
          m = (if variance > 0
               then max (- MaximumSlope) (min MaximumSlope (dbl (covariance / variance))) else 0)
      in (m, dbl (dbl (originOffset + meanOffset) +
           dbl (m * dbl (dbl (dbl (of_int time) - originTime) - meanTime)))))"

text \<open>The part of \<open>addSample\<close> after the outlier guard.\<close>

definition append_sample :: "int \<Rightarrow> int \<Rightarrow> DriftEstimator \<Rightarrow> exn + DriftEstimator" where
  "append_sample time offset e =
     (let e = (if drift_samples e = [] then e\<lparr>consecutiveOutliers := 0\<rparr> else e) in
      and_then (keep_recent time
          (drift_samples e @ [\<lparr>sample_time = time, sample_offset = offset\<rparr>])) (\<lambda>ss.
        let e = e\<lparr>drift_samples := ss\<rparr> in
        if length ss < 2
        then Inr (e\<lparr>slope := 0, fittedOffsetAtLast := dbl (of_int offset)\<rparr>)
        else
          let (m, fitted) = fit_line time ss in
          Inr (e\<lparr>slope := m, fittedOffsetAtLast := fitted\<rparr>)))"

definition is_outlier :: "int \<Rightarrow> int \<Rightarrow> DriftEstimator \<Rightarrow> exn + bool" where
  "is_outlier time offset e =
     and_then (offsetNanosecondsAt time e) (\<lambda>expected.
     and_then (signed64 (time - sample_time (last (drift_samples e)))) (\<lambda>gap.
       let residual = \<bar>dbl (dbl (of_int offset) - expected)\<bar>;
           elapsed = dbl (of_int gap);
           limit = max 5000000 (dbl (elapsed * dbl (1 / 1000)))
       in Inr (residual > limit)))"

definition addSample :: "int \<Rightarrow> int \<Rightarrow> DriftEstimator \<Rightarrow> exn + DriftEstimator" where
  "addSample time offset e =
     (if drift_samples e \<noteq> [] \<and> time \<le> sample_time (last (drift_samples e))
      then Inl (Invalid_Argument ''Clock samples must have increasing timestamps'')
      else if length (drift_samples e) \<ge> 4
      then and_then (is_outlier time offset e) (\<lambda>outlier.
        if outlier
        then
          let e = e\<lparr>consecutiveOutliers := consecutiveOutliers e + 1\<rparr> in
          if consecutiveOutliers e < 3 then Inr e
          else append_sample time offset (e\<lparr>drift_samples := []\<rparr>)
        else append_sample time offset (e\<lparr>consecutiveOutliers := 0\<rparr>))
      else append_sample time offset e)"

section \<open>The corrector\<close>

text \<open>
  A double argument, with the values that are not finite. A product or sum of finite arguments too
  large for a double becomes an infinity in the code and stays a large number here; the clamp that
  follows maps both to the same bound.
\<close>

datatype fp = Finite rat | Infinity | NaN

definition MaximumCorrectionPpm :: rat where
  "MaximumCorrectionPpm = 500"

definition correctionRatio :: "fp \<Rightarrow> fp \<Rightarrow> rat" where
  "correctionRatio driftPpm bufferErrorMs =
     (case (driftPpm, bufferErrorMs) of
        (Finite drift, Finite err) \<Rightarrow>
          let correctionPpm = max (- MaximumCorrectionPpm) (min MaximumCorrectionPpm
                (dbl (drift + dbl (20 * err))))
          in dbl (1 + dbl (correctionPpm / 1000000))
      | _ \<Rightarrow> 1)"

section \<open>Invariant\<close>

definition drift_ok :: "DriftEstimator \<Rightarrow> bool" where
  "drift_ok e \<longleftrightarrow> sorted_wrt (<) (map sample_time (drift_samples e)) \<and>
     length (drift_samples e) \<le> 32 \<and> \<bar>slope e\<bar> \<le> MaximumSlope \<and> consecutiveOutliers e < 3 \<and>
     (2 < length (drift_samples e) \<longrightarrow>
       sample_time (last (drift_samples e)) - sample_time (hd (drift_samples e)) \<le> 120000000000)"

inductive drift_reachable :: "DriftEstimator \<Rightarrow> bool" where
  new: "drift_reachable DriftEstimator_new"
| add: "drift_reachable e \<Longrightarrow> addSample time offset e = Inr e' \<Longrightarrow> drift_reachable e'"

lemma MaximumSlope_nonneg: "0 \<le> MaximumSlope"
  unfolding MaximumSlope_def by (rule binary64.nonneg) simp

lemma keep_recent_Inr:
  assumes "keep_recent time ss = Inr ss'"
  shows "\<exists>n. ss' = drop n ss" and "length ss' \<le> 32" and "ss \<noteq> [] \<Longrightarrow> ss' \<noteq> []"
    and "2 < length ss' \<Longrightarrow> time - sample_time (hd ss') \<le> 120000000000"
    and "length ss \<le> 2 \<Longrightarrow> ss' = ss"
proof -
  have "(\<exists>n. ss' = drop n ss) \<and> length ss' \<le> 32 \<and> (ss \<noteq> [] \<longrightarrow> ss' \<noteq> []) \<and>
    (2 < length ss' \<longrightarrow> time - sample_time (hd ss') \<le> 120000000000) \<and> (length ss \<le> 2 \<longrightarrow> ss' = ss)"
    using assms
  proof (induction ss)
    case Nil
    then show ?case by simp
  next
    case (Cons s ss)
    show ?case
    proof (cases "keep_recent time ss = Inr ss'")
      case True
      have len: "length ss' \<le> 2 \<Longrightarrow> ss = [] \<or> ss' \<noteq> []" using Cons.IH [OF True] by auto
      obtain n where n: "ss' = drop n ss" using Cons.IH [OF True] by blast
      then have drop: "ss' = drop (Suc n) (s # ss)" by simp
      show ?thesis
      proof (cases "ss' = s # ss")
        case True
        then show ?thesis using n by (metis length_Cons length_drop diff_le_self not_less_eq_eq order_refl)
      next
        case False
        then have "2 < length (s # ss)"
          using Cons.prems by (auto split: if_splits)
        then have "ss \<noteq> []" by auto
        with Cons.IH [OF True] drop \<open>2 < length (s # ss)\<close> show ?thesis
          by (metis not_less)
      qed
    next
      case False
      with Cons.prems have "ss' = s # ss" "length (s # ss) \<le> 32"
        "2 < length (s # ss) \<Longrightarrow> time - sample_time s \<le> 120000000000"
        by (auto simp: res_simps split: if_splits)
      then show ?thesis by (metis drop_0 list.distinct(1) list.sel(1))
    qed
  qed
  then show "\<exists>n. ss' = drop n ss" "length ss' \<le> 32" "ss \<noteq> [] \<Longrightarrow> ss' \<noteq> []"
    "2 < length ss' \<Longrightarrow> time - sample_time (hd ss') \<le> 120000000000"
    "length ss \<le> 2 \<Longrightarrow> ss' = ss"
    by blast+
qed

lemma fit_slope: "\<bar>fst (fit_line time ss)\<bar> \<le> MaximumSlope"
  using MaximumSlope_nonneg by (auto simp: fit_line_def Let_def)

lemma append_sample_samples:
  assumes "append_sample time offset e = Inr e'"
  shows "keep_recent time (drift_samples e @ [\<lparr>sample_time = time, sample_offset = offset\<rparr>]) =
      Inr (drift_samples e')"
    and "\<bar>slope e'\<bar> \<le> MaximumSlope"
    and "consecutiveOutliers e' = (if drift_samples e = [] then 0 else consecutiveOutliers e)"
  using assms MaximumSlope_nonneg fit_slope
  by (auto simp: append_sample_def res_simps Let_def split: if_splits prod.splits)
    (metis fst_conv)+

lemma append_sample_ok:
  assumes ok: "drift_ok e" and e': "append_sample time offset e = Inr e'"
    and later: "drift_samples e \<noteq> [] \<Longrightarrow> sample_time (last (drift_samples e)) < time"
  shows "drift_ok e'"
proof -
  let ?new = "\<lparr>sample_time = time, sample_offset = offset\<rparr>"
  note facts = append_sample_samples [OF e']
  obtain n where n: "drift_samples e' = drop n (drift_samples e @ [?new])"
    using keep_recent_Inr(1) [OF facts(1)] by blast
  have ne: "drift_samples e' \<noteq> []" using keep_recent_Inr(3) [OF facts(1)] by simp
  then have last: "last (drift_samples e') = ?new" 
    using n by (metis drop_eq_Nil last_drop last_snoc not_less)
  have "sample_time s < time" if "s \<in> set (drift_samples e)" for s
  proof -
    from that have nonempty: "drift_samples e \<noteq> []" by auto
    have "sorted_wrt (<) (map sample_time (butlast (drift_samples e) @ [last (drift_samples e)]))"
      using ok nonempty by (simp add: drift_ok_def)
    then have "s \<in> set (butlast (drift_samples e)) \<Longrightarrow> sample_time s < sample_time (last (drift_samples e))"
      by (auto simp: sorted_wrt_append)
    then have "sample_time s \<le> sample_time (last (drift_samples e))"
      using that by (metis append_butlast_last_id nonempty order_le_less rotate1.simps(2) set_ConsD set_rotate1)
    then show ?thesis using later [OF nonempty] by simp
  qed
  then have "sorted_wrt (<) (map sample_time (drift_samples e @ [?new]))"
    using ok by (auto simp: sorted_wrt_append drift_ok_def)
  then have "sorted_wrt (<) (map sample_time (drift_samples e'))"
    unfolding n by (metis drop_map sorted_wrt_drop)
  then show ?thesis
    using ok facts keep_recent_Inr(2,4) [OF facts(1)] last by (auto simp: drift_ok_def)
qed

lemma addSample_ok: "drift_ok e \<Longrightarrow> addSample time offset e = Inr e' \<Longrightarrow> drift_ok e'"
proof -
  assume ok: "drift_ok e" and e': "addSample time offset e = Inr e'"
  have later: "drift_samples e \<noteq> [] \<Longrightarrow> sample_time (last (drift_samples e)) < time"
    using e' by (auto simp: addSample_def split: if_splits)
  consider "append_sample time offset e = Inr e'"
    | "append_sample time offset (e\<lparr>consecutiveOutliers := 0\<rparr>) = Inr e'"
    | "e' = e\<lparr>consecutiveOutliers := consecutiveOutliers e + 1\<rparr>" "consecutiveOutliers e + 1 < 3"
    | "append_sample time offset
         (e\<lparr>consecutiveOutliers := consecutiveOutliers e + 1, drift_samples := []\<rparr>) = Inr e'"
    using e' by (auto simp: addSample_def res_simps Let_def split: if_splits)
  then show ?thesis
  proof cases
    case 1
    with ok later show ?thesis by (rule_tac append_sample_ok)
  next
    case 2
    with ok later show ?thesis by (intro append_sample_ok [OF _ 2]) (simp_all add: drift_ok_def)
  next
    case 3
    with ok show ?thesis by (simp add: drift_ok_def)
  next
    case 4
    have "drift_samples e' = [\<lparr>sample_time = time, sample_offset = offset\<rparr>]"
      using append_sample_samples(1) [OF 4] by simp
    then show ?thesis
      using append_sample_samples(2,3) [OF 4] by (auto simp: drift_ok_def)
  qed
qed

lemma drift_ok_new: "drift_ok DriftEstimator_new"
  using MaximumSlope_nonneg by (simp add: drift_ok_def DriftEstimator_new_def)

lemma drift_reachable_ok: "drift_reachable e \<Longrightarrow> drift_ok e"
  by (induction rule: drift_reachable.induct) (simp_all add: drift_ok_new addSample_ok)

section \<open>A constant offset\<close>

lemma sum_dbl_zero: "(\<And>x. x \<in> set xs \<Longrightarrow> x = 0) \<Longrightarrow> sum_dbl xs = 0"
proof -
  assume "\<And>x. x \<in> set xs \<Longrightarrow> x = 0"
  then have "set xs \<subseteq> {0}" by auto
  then have "foldl (\<lambda>sum x. dbl (sum + x)) 0 xs = 0"
    by (induction xs) (auto simp: binary64.zero)
  then show ?thesis by (simp add: sum_dbl_def)
qed

lemma fit_constant:
  assumes "ss \<noteq> []" "\<forall>s \<in> set ss. sample_offset s = c"
  shows "fit_line time ss = (0, dbl (of_int c))"
proof -
  have "sample_offset (hd ss) = c" using assms by simp
  moreover have "sum_dbl (map (\<lambda>s. dbl (dbl (of_int (sample_offset s)) - dbl (of_int c))) ss) = 0"
    using assms(2) by (intro sum_dbl_zero) (auto simp: binary64.zero)
  moreover have "sum_dbl (map (\<lambda>s. dbl (f s * dbl (dbl (dbl (of_int (sample_offset s)) -
      dbl (of_int c)) - 0))) ss) = 0" for f
    using assms(2) by (intro sum_dbl_zero) (auto simp: binary64.zero)
  ultimately show ?thesis
    using MaximumSlope_nonneg by (simp add: fit_line_def Let_def binary64.zero binary64.idem)
qed

definition constant_fit :: "int \<Rightarrow> DriftEstimator \<Rightarrow> bool" where
  "constant_fit c e \<longleftrightarrow> (\<forall>s \<in> set (drift_samples e). sample_offset s = c) \<and> slope e = 0 \<and>
     consecutiveOutliers e = 0 \<and> (drift_samples e \<noteq> [] \<longrightarrow> fittedOffsetAtLast e = dbl (of_int c))"

lemma constant_fit_append:
  assumes "constant_fit c e" "append_sample time c e = Inr e'"
  shows "constant_fit c e' \<and> drift_samples e' \<noteq> []"
proof -
  note facts = append_sample_samples [OF assms(2)]
  obtain n where "drift_samples e' =
      drop n (drift_samples e @ [\<lparr>sample_time = time, sample_offset = c\<rparr>])"
    using keep_recent_Inr(1) [OF facts(1)] by blast
  then have all: "\<forall>s \<in> set (drift_samples e'). sample_offset s = c"
    using assms(1) by (auto simp: constant_fit_def dest: in_set_dropD)
  have ne: "drift_samples e' \<noteq> []" using keep_recent_Inr(3) [OF facts(1)] by simp
  define ss where "ss = drift_samples e'"
  define e0 where "e0 = (if drift_samples e = [] then e\<lparr>consecutiveOutliers := 0\<rparr> else e)"
  have "drift_samples e0 = drift_samples e" by (simp add: e0_def)
  then have "append_sample time c e = (if length ss < 2
      then Inr (e0\<lparr>drift_samples := ss, slope := 0, fittedOffsetAtLast := dbl (of_int c)\<rparr>)
      else case fit_line time ss of (m, fitted) \<Rightarrow>
        Inr (e0\<lparr>drift_samples := ss, slope := m, fittedOffsetAtLast := fitted\<rparr>))"
    using facts(1)
    unfolding append_sample_def e0_def [symmetric] Let_def ss_def [symmetric] by simp
  then have "e' = e0\<lparr>drift_samples := ss, slope := 0, fittedOffsetAtLast := dbl (of_int c)\<rparr>"
    using fit_constant [OF ne all, of time] assms(2) unfolding ss_def [symmetric]
    by (simp split: if_splits)
  then have "slope e' = 0 \<and> fittedOffsetAtLast e' = dbl (of_int c)" by simp
  then show ?thesis
    using facts(3) all ne assms(1) by (simp add: constant_fit_def)
qed

lemma constant_predicts:
  assumes "constant_fit c e" "drift_samples e \<noteq> []" "offsetNanosecondsAt time e = Inr v"
  shows "v = dbl (of_int c)"
  using assms by (auto simp: constant_fit_def offsetNanosecondsAt_def res_simps binary64.zero binary64.idem)

lemma constant_not_outlier:
  assumes "constant_fit c e" "drift_samples e \<noteq> []" "is_outlier time c e = Inr v"
  shows "\<not> v"
proof -
  obtain expected where "offsetNanosecondsAt time e = Inr expected"
    using assms(3) by (auto simp: is_outlier_def res_simps)
  then have "expected = dbl (of_int c)" "offsetNanosecondsAt time e = Inr expected"
    using constant_predicts [OF assms(1,2)] by blast+
  with assms(3) show ?thesis by (auto simp: is_outlier_def res_simps Let_def binary64.zero)
qed

lemma constant_fit_add:
  assumes "constant_fit c e" "addSample time c e = Inr e'"
  shows "constant_fit c e' \<and> drift_samples e' \<noteq> []"
proof (cases "4 \<le> length (drift_samples e)")
  case True
  then have ne: "drift_samples e \<noteq> []" by auto
  have "append_sample time c (e\<lparr>consecutiveOutliers := 0\<rparr>) = Inr e'"
    using assms True constant_not_outlier [OF assms(1) ne]
    by (auto simp: addSample_def res_simps split: if_splits)
  moreover have "constant_fit c (e\<lparr>consecutiveOutliers := 0\<rparr>)"
    using assms(1) by (simp add: constant_fit_def)
  ultimately show ?thesis using constant_fit_append by blast
next
  case False
  then have "append_sample time c e = Inr e'"
    using assms by (auto simp: addSample_def split: if_splits)
  then show ?thesis using constant_fit_append assms(1) by blast
qed

section \<open>Properties\<close>

text \<open>A sequence of measurements, up to the first one that is refused.\<close>

definition add_all :: "(int \<times> int) list \<Rightarrow> DriftEstimator \<Rightarrow> exn + DriftEstimator" where
  "add_all xs e = foldl (\<lambda>r x. and_then r (addSample (fst x) (snd x))) (Inr e) xs"

lemma add_all_reachable: "drift_reachable e \<Longrightarrow> add_all xs e = Inr e' \<Longrightarrow> drift_reachable e'"
proof (induction xs arbitrary: e' rule: rev_induct)
  case (snoc x xs)
  then obtain e1 where "add_all xs e = Inr e1" "addSample (fst x) (snd x) e1 = Inr e'"
    by (auto simp: add_all_def res_simps)
  with snoc show ?case by (metis drift_reachable.add)
qed (simp add: add_all_def)

lemma example_add:
  "addSample 1000 70 DriftEstimator_new =
    Inr \<lparr>drift_samples = [\<lparr>sample_time = 1000, sample_offset = 70\<rparr>], slope = 0,
      fittedOffsetAtLast = 70, consecutiveOutliers = 0\<rparr>"
  using binary64.exact_int [of 70]
  by (simp add: addSample_def append_sample_def DriftEstimator_new_def Let_def)

text \<open>
  Whatever measurements arrive, the estimator keeps at most 32 samples in strictly increasing
  order of time, none older than 120 seconds before the newest once it has more than two; its
  slope stays within 0.002 (as the double nearest to it), and never three outliers in a row are
  pending.
\<close>

theorem drift_history_bounded:
  assumes "drift_reachable e"
  shows "sorted_wrt (<) (map sample_time (drift_samples e)) \<and> sampleCount e \<le> 32 \<and>
    (2 < sampleCount e \<longrightarrow>
      sample_time (last (drift_samples e)) - sample_time (hd (drift_samples e)) \<le> 120000000000) \<and>
    \<bar>slope e\<bar> \<le> dbl (2 / 1000) \<and> consecutiveOutliers e < 3"
  using drift_reachable_ok [OF assms] by (simp add: drift_ok_def sampleCount_def MaximumSlope_def)

theorem drift_history_bounded_witness:
  "\<exists>e. addSample 1000 70 DriftEstimator_new = Inr e \<and> sampleCount e \<le> 32 \<and>
     \<bar>slope e\<bar> \<le> dbl (2 / 1000)"
  using example_add drift_history_bounded [OF drift_reachable.add [OF drift_reachable.new example_add]]
  by blast

text \<open>
  A measurement counts as an outlier against what the fit predicts; the count of outliers does not
  take part.
\<close>

lemma is_outlier_count [simp]:
  "is_outlier time offset (e\<lparr>consecutiveOutliers := n\<rparr>) = is_outlier time offset e"
  by (simp add: is_outlier_def offsetNanosecondsAt_def cong del: and_then_cong)

lemma is_outlier_Inr: "is_outlier time offset e = Inr v \<Longrightarrow> drift_samples e \<noteq> [] \<Longrightarrow>
    in_int64 (time - sample_time (last (drift_samples e)))"
  by (auto simp: is_outlier_def offsetNanosecondsAt_def res_simps split: if_splits)

lemma addSample_outlier:
  assumes "4 \<le> length (drift_samples e)" "is_outlier time offset e = Inr True"
    and "sample_time (last (drift_samples e)) < time"
  shows "addSample time offset e =
    (if consecutiveOutliers e + 1 < 3
     then Inr (e\<lparr>consecutiveOutliers := consecutiveOutliers e + 1\<rparr>)
     else Inr \<lparr>drift_samples = [\<lparr>sample_time = time, sample_offset = offset\<rparr>], slope = 0,
       fittedOffsetAtLast = dbl (of_int offset), consecutiveOutliers = 0\<rparr>)"
  using assms by (auto simp: addSample_def Let_def append_sample_def)

text \<open>
  A jump of the clock is told from noise: against a history of four samples or more, a first and
  a second measurement that the fit rules out leave history and fit as they are, and a third in a
  row replaces the whole history by that measurement, as for a new estimator.
\<close>

theorem drift_discontinuity:
  assumes "drift_reachable e" "4 \<le> sampleCount e" "consecutiveOutliers e = 0"
    and "is_outlier t1 o1 e = Inr True" "sample_time (last (drift_samples e)) < t1"
    and "is_outlier t2 o2 e = Inr True" "sample_time (last (drift_samples e)) < t2"
    and "is_outlier t3 o3 e = Inr True" "sample_time (last (drift_samples e)) < t3"
  shows "\<exists>e1 e2 e3. addSample t1 o1 e = Inr e1 \<and> addSample t2 o2 e1 = Inr e2 \<and>
    addSample t3 o3 e2 = Inr e3 \<and> e1 = e\<lparr>consecutiveOutliers := 1\<rparr> \<and>
    e2 = e\<lparr>consecutiveOutliers := 2\<rparr> \<and> addSample t3 o3 DriftEstimator_new = Inr e3"
proof -
  have len: "4 \<le> length (drift_samples e)" using assms(2) by (simp add: sampleCount_def)
  have "addSample t1 o1 e = Inr (e\<lparr>consecutiveOutliers := 1\<rparr>)"
    using addSample_outlier [OF len assms(4,5)] assms(3) by simp
  moreover have "addSample t2 o2 (e\<lparr>consecutiveOutliers := 1\<rparr>) = Inr (e\<lparr>consecutiveOutliers := 2\<rparr>)"
    using addSample_outlier [of "e\<lparr>consecutiveOutliers := 1\<rparr>" t2 o2] len assms(6,7) by simp
  moreover have "addSample t3 o3 (e\<lparr>consecutiveOutliers := 2\<rparr>) = addSample t3 o3 DriftEstimator_new"
    using addSample_outlier [of "e\<lparr>consecutiveOutliers := 2\<rparr>" t3 o3] len assms(8,9)
    by (simp add: addSample_def append_sample_def DriftEstimator_new_def Let_def)
  moreover have "is_ok (addSample t3 o3 DriftEstimator_new)"
    by (simp add: addSample_def append_sample_def DriftEstimator_new_def Let_def)
  ultimately show ?thesis by (auto simp: is_ok_iff)
qed

text \<open>Four equal measurements a second apart, and three that are 50 ms off.\<close>

definition steady_samples :: "(int \<times> int) list" where
  "steady_samples = [(1000000000, 70), (2000000000, 70), (3000000000, 70), (4000000000, 70)]"

definition steady_estimator :: DriftEstimator where
  "steady_estimator =
     \<lparr>drift_samples = map (\<lambda>(t, f). \<lparr>sample_time = t, sample_offset = f\<rparr>) steady_samples,
      slope = 0, fittedOffsetAtLast = 70, consecutiveOutliers = 0\<rparr>"

lemma steady_estimator: "add_all steady_samples DriftEstimator_new = Inr steady_estimator"
  using binary64.exact_int [of 70]
  by (simp add: add_all_def steady_samples_def steady_estimator_def DriftEstimator_new_def
      addSample_def append_sample_def Let_def in_int64_def fit_constant)

lemma steady_outlier:
  assumes "4000000000 < t" "t \<le> 7000000000"
  shows "is_outlier t 50000070 steady_estimator = Inr True"
proof -
  define d where "d = dbl (of_int (t - 4000000000))"
  have thousandth: "0 \<le> dbl (1 / 1000)" "dbl (1 / 1000) \<le> 1 / 512"
    using binary64.exact [of 1 "- 9"] binary64.upper [of "1 / 512" "1 / 1000"]
    by (auto intro: binary64.nonneg simp: power_int_minus)
  have "0 \<le> d" "d \<le> 3000000000"
    unfolding d_def using assms binary64.exact_int [of 3000000000]
    by (auto intro: binary64.nonneg binary64.upper)
  then have "d * dbl (1 / 1000) \<le> 3000000000 * (1 / 512)"
    using thousandth by (intro mult_mono) simp_all
  then have limit: "dbl (d * dbl (1 / 1000)) \<le> 5859375"
    using binary64.exact_int [of 5859375] by (intro binary64.upper) simp_all
  have "drift_samples steady_estimator \<noteq> []" "fittedOffsetAtLast steady_estimator = 70"
    "slope steady_estimator = 0" "sample_time (last (drift_samples steady_estimator)) = 4000000000"
    by (simp_all add: steady_estimator_def steady_samples_def)
  moreover have "in_int64 (t - 4000000000)" using assms by (simp add: in_int64_def)
  moreover have "dbl 70 = 70" "dbl 50000070 = 50000070" "dbl 50000000 = 50000000"
    using binary64.exact_int [of 70] binary64.exact_int [of 50000070]
      binary64.exact_int [of 50000000] by simp_all
  ultimately have "is_outlier t 50000070 steady_estimator =
      Inr (50000000 > max 5000000 (dbl (d * dbl (1 / 1000))))"
    by (simp add: is_outlier_def offsetNanosecondsAt_def Let_def d_def binary64.zero)
  then show ?thesis using limit by simp
qed

theorem drift_discontinuity_witness:
  "\<exists>e1 e2 e3. addSample 5000000000 50000070 steady_estimator = Inr e1 \<and>
     addSample 6000000000 50000070 e1 = Inr e2 \<and> addSample 7000000000 50000070 e2 = Inr e3 \<and>
     addSample 7000000000 50000070 DriftEstimator_new = Inr e3"
proof -
  note out = steady_outlier [of 5000000000, simplified] steady_outlier [of 6000000000, simplified]
    steady_outlier [of 7000000000, simplified]
  have e: "4 \<le> sampleCount steady_estimator" "consecutiveOutliers steady_estimator = 0"
    "sample_time (last (drift_samples steady_estimator)) = 4000000000"
    by (simp_all add: sampleCount_def steady_estimator_def steady_samples_def)
  have late: "sample_time (last (drift_samples steady_estimator)) < 5000000000"
    "sample_time (last (drift_samples steady_estimator)) < 6000000000"
    "sample_time (last (drift_samples steady_estimator)) < 7000000000" by (simp_all add: e)
  show ?thesis
    using drift_discontinuity [OF add_all_reachable [OF drift_reachable.new steady_estimator]
        e(1,2) out(1) late(1) out(2) late(2) out(3) late(3)] by blast
qed

text \<open>
  A clock that does not drift is tracked exactly: after any measurements that all have the offset
  \<open>c\<close>, the estimated drift is zero and the predicted offset at every time is \<open>c\<close>, rounded to a double.
\<close>

theorem constant_offset_tracked:
  assumes "add_all (map (\<lambda>t. (t, c)) ts) DriftEstimator_new = Inr e"
  shows "estimatedDriftPpm e = 0 \<and>
    (ts \<noteq> [] \<longrightarrow> offsetNanosecondsAt time e = Inr v \<longrightarrow> v = dbl (of_int c))"
proof -
  have "constant_fit c e \<and> (ts \<noteq> [] \<longrightarrow> drift_samples e \<noteq> [])"
    using assms
  proof (induction ts arbitrary: e rule: rev_induct)
    case Nil
    then have "e = DriftEstimator_new" by (simp add: add_all_def)
    then show ?case by (simp add: constant_fit_def DriftEstimator_new_def)
  next
    case (snoc t ts)
    then obtain e1 where "add_all (map (\<lambda>t. (t, c)) ts) DriftEstimator_new = Inr e1"
      "addSample t c e1 = Inr e"
      by (auto simp: add_all_def res_simps)
    with snoc.IH constant_fit_add show ?case by blast
  qed
  then have fit: "constant_fit c e" and ne: "ts \<noteq> [] \<Longrightarrow> drift_samples e \<noteq> []" by blast+
  have "slope e = 0" using fit by (simp add: constant_fit_def)
  then have "estimatedDriftPpm e = 0" by (simp add: estimatedDriftPpm_def binary64.zero)
  then show ?thesis using constant_predicts [OF fit ne] by blast
qed

theorem constant_offset_tracked_witness:
  "estimatedDriftPpm steady_estimator = 0 \<and> offsetNanosecondsAt 9000000000 steady_estimator = Inr (dbl 70)"
proof -
  have all: "add_all (map (\<lambda>t. (t, 70)) [1000000000, 2000000000, 3000000000, 4000000000])
      DriftEstimator_new = Inr steady_estimator"
    using steady_estimator by (simp add: steady_samples_def)
  have "is_ok (offsetNanosecondsAt 9000000000 steady_estimator)"
    by (simp add: offsetNanosecondsAt_def steady_estimator_def steady_samples_def in_int64_def)
  then obtain v where "offsetNanosecondsAt 9000000000 steady_estimator = Inr v"
    by (auto simp: is_ok_iff)
  then show ?thesis using constant_offset_tracked [OF all, of 9000000000 v] by simp
qed

text \<open>
  The consumption ratio is a correction of at most 500 parts per million either way, exactly one
  when a value is not finite, and monotone: a faster host clock or a fuller buffer never slows
  playback.
\<close>

theorem correction_bounded_monotone:
  "dbl (1 - dbl (500 / 1000000)) \<le> correctionRatio a b \<and>
   correctionRatio a b \<le> dbl (1 + dbl (500 / 1000000)) \<and>
   (a \<notin> range Finite \<or> b \<notin> range Finite \<longrightarrow> correctionRatio a b = 1) \<and>
   (x \<le> x' \<longrightarrow> y \<le> y' \<longrightarrow>
     correctionRatio (Finite x) (Finite y) \<le> correctionRatio (Finite x') (Finite y'))"
proof (intro conjI impI)
  have ends: "dbl (1 - dbl (500 / 1000000)) = dbl (1 + dbl (- 500 / 1000000))"
    using binary64.odd [of "500 / 1000000"] by simp
  have one: "dbl (1 + dbl (- 500 / 1000000)) \<le> 1" "1 \<le> dbl (1 + dbl (500 / 1000000))"
    using binary64.upper [of 1 "1 + dbl (- 500 / 1000000)"]
      binary64.lower [of 1 "1 + dbl (500 / 1000000)"] binary64.exact_int [of 1]
      binary64.nonneg [of "500 / 1000000"] binary64.nonpos [of "- 500 / 1000000"] by simp_all
  have clamped: "dbl (1 + dbl (- 500 / 1000000)) \<le> dbl (1 + dbl (p / 1000000)) \<and>
      dbl (1 + dbl (p / 1000000)) \<le> dbl (1 + dbl (500 / 1000000))" if "- 500 \<le> p" "p \<le> 500" for p
    using that by (intro conjI binary64.mono add_left_mono divide_right_mono) simp_all
  show "dbl (1 - dbl (500 / 1000000)) \<le> correctionRatio a b"
    using one clamped unfolding ends
    by (cases a; cases b) (simp_all add: correctionRatio_def Let_def MaximumCorrectionPpm_def)
  show "correctionRatio a b \<le> dbl (1 + dbl (500 / 1000000))"
    using one clamped
    by (cases a; cases b) (simp_all add: correctionRatio_def Let_def MaximumCorrectionPpm_def)
  show "correctionRatio a b = 1" if "a \<notin> range Finite \<or> b \<notin> range Finite"
    using that by (cases a; cases b) (auto simp: correctionRatio_def)
  show "correctionRatio (Finite x) (Finite y) \<le> correctionRatio (Finite x') (Finite y')"
    if "x \<le> x'" "y \<le> y'"
  proof -
    have "dbl (x + dbl (20 * y)) \<le> dbl (x' + dbl (20 * y'))"
      using that by (intro binary64.mono add_mono mult_left_mono) simp_all
    then show ?thesis
      unfolding correctionRatio_def Let_def prod.case fp.case
      by (rule_tac binary64.mono, rule_tac add_left_mono, rule_tac binary64.mono,
          rule_tac divide_right_mono, rule_tac max.mono [OF order_refl],
          rule_tac min.mono [OF order_refl]) simp_all
  qed
qed

theorem correction_bounded_monotone_witness:
  "correctionRatio NaN (Finite 3) = 1 \<and>
   correctionRatio (Finite 1) (Finite 2) \<le> correctionRatio (Finite 4) (Finite 3)"
  using correction_bounded_monotone [of NaN "Finite 3" 1 4 2 3] by auto

end
