(* ===== verification/Text_Format.thy ===== *)
theory Text_Format
  imports Prelude Float_Round "HOL-Library.Sublist"
begin

text \<open>
  The text the program writes and reads: \<open>std::to_string\<close>, \<open>std::hex\<close> with a width,
  \<open>std::from_chars\<close> on unsigned numbers, and the formatted input of \<open>std::istream\<close> for words and
  doubles in the C locale. A string is a list of characters.
\<close>

section \<open>Characters\<close>

definition code :: "char \<Rightarrow> nat" where
  "code c = of_char c"

definition is_digit :: "char \<Rightarrow> bool" where
  "is_digit c \<longleftrightarrow> 48 \<le> code c \<and> code c \<le> 57"

definition is_alnum :: "char \<Rightarrow> bool" where
  "is_alnum c \<longleftrightarrow> is_digit c \<or> 65 \<le> code c \<and> code c \<le> 90 \<or> 97 \<le> code c \<and> code c \<le> 122"

definition is_space :: "char \<Rightarrow> bool" where
  "is_space c \<longleftrightarrow> code c = 32 \<or> 9 \<le> code c \<and> code c \<le> 13"

definition is_printable :: "char \<Rightarrow> bool" where
  "is_printable c \<longleftrightarrow> 32 \<le> code c \<and> code c \<le> 126"

definition newline :: char where
  "newline = char_of (10 :: nat)"

definition carriage_return :: char where
  "carriage_return = char_of (13 :: nat)"

text \<open>\<open>line.rfind(prefix, 0) == 0\<close>\<close>

definition starts_with :: "string \<Rightarrow> string \<Rightarrow> bool" where
  "starts_with line pre \<longleftrightarrow> take (length pre) line = pre"

lemma starts_with_append [simp]: "starts_with (pre @ rest) pre"
  by (simp add: starts_with_def)

lemma starts_with_iff: "starts_with line pre \<longleftrightarrow> (\<exists>rest. line = pre @ rest)"
  by (metis append_take_drop_id starts_with_append starts_with_def)

section \<open>Integers\<close>

definition digit_char :: "nat \<Rightarrow> char" where
  "digit_char d = char_of (48 + d)"

definition digit_value :: "char \<Rightarrow> nat" where
  "digit_value c = code c - 48"

lemma code_char_of [simp]: "n < 256 \<Longrightarrow> code (char_of n) = n"
  by (simp add: code_def)

lemma digit_char_simps [simp]:
  "d < 10 \<Longrightarrow> is_digit (digit_char d)" "d < 10 \<Longrightarrow> digit_value (digit_char d) = d"
  by (simp_all add: digit_char_def is_digit_def digit_value_def)

fun show_nat :: "nat \<Rightarrow> string" where
  "show_nat n = (if n < 10 then [digit_char n]
     else show_nat (n div 10) @ [digit_char (n mod 10)])"

declare show_nat.simps [simp del]

definition show_int :: "int \<Rightarrow> string" where
  "show_int i = (if i < 0 then CHR ''-'' # show_nat (nat (- i)) else show_nat (nat i))"

definition digits_value :: "string \<Rightarrow> nat" where
  "digits_value s = foldl (\<lambda>v c. 10 * v + digit_value c) 0 s"

text \<open>
  \<open>std::from_chars\<close> into a 64-bit unsigned integer, with the caller's test that all of the text was
  used: decimal digits only, and no overflow.
\<close>

definition parse_u64 :: "string \<Rightarrow> u64 option" where
  "parse_u64 s =
     (if s \<noteq> [] \<and> list_all is_digit s \<and> digits_value s \<le> 18446744073709551615
      then Some (of_nat (digits_value s)) else None)"

lemma digits_value_snoc [simp]: "digits_value (s @ [c]) = 10 * digits_value s + digit_value c"
  by (simp add: digits_value_def)

lemma show_nat_digits [simp]: "list_all is_digit (show_nat n)"
  by (induction n rule: show_nat.induct) (subst show_nat.simps, simp)

lemma digits_value_show_nat [simp]: "digits_value (show_nat n) = n"
proof (induction n rule: show_nat.induct)
  case (1 n)
  have "digits_value [digit_char n] = n" if "n < 10"
    using that by (simp add: digits_value_def)
  with 1 show ?case
    by (cases "n < 10") (subst show_nat.simps, simp)+
qed

lemma show_nat_not_Nil [simp]: "show_nat n \<noteq> []"
  by (subst show_nat.simps) simp

lemma parse_show_u64: "parse_u64 (show_nat (unat w)) = Some w"
  using unat_u64_less [of w] by (simp add: parse_u64_def)

lemma show_nat_inj: "show_nat m = show_nat n \<Longrightarrow> m = n"
  by (metis digits_value_show_nat)

text \<open>Sixteen lower-case hexadecimal digits.\<close>

definition hex_char :: "nat \<Rightarrow> char" where
  "hex_char d = (if d < 10 then char_of (48 + d) else char_of (87 + d))"

definition hex16 :: "u64 \<Rightarrow> string" where
  "hex16 w = map (\<lambda>i. hex_char (unat w div 16 ^ (15 - i) mod 16)) [0..<16]"

lemma length_hex16 [simp]: "length (hex16 w) = 16"
  by (simp add: hex16_def)

section \<open>Doubles\<close>

text \<open>
  \<open>std::to_string(double)\<close>: six decimals, correctly rounded. (A negative zero, which prints a sign,
  is not told from zero here.)
\<close>

definition pad6 :: "string \<Rightarrow> string" where
  "pad6 s = replicate (6 - length s) (CHR ''0'') @ s"

definition show_double :: "rat \<Rightarrow> string" where
  "show_double x =
     (let m = nat (round_even (\<bar>x\<bar> * 1000000)) in
      (if x < 0 then ''-'' else '''') @ show_nat (m div 1000000) @ ''.'' @ pad6 (show_nat (m mod 1000000)))"

text \<open>
  Formatted input of a double. The characters a floating-point number may consist of are taken from
  the stream one by one, then the whole of them must be a number for \<open>strtod\<close>. A value too large for
  a double makes the extraction fail, which the caller's range check would reject as well; a value
  too small for one is kept exact here.
\<close>

fun scan_number :: "bool \<Rightarrow> bool \<Rightarrow> bool \<Rightarrow> string \<Rightarrow> string \<times> string" where
  "scan_number mantissa dot sci [] = ([], [])"
| "scan_number mantissa dot sci (c # cs) =
     (if is_digit c
      then let (taken, rest) = scan_number True dot sci cs in (c # taken, rest)
      else if c = CHR ''.'' \<and> \<not> dot \<and> \<not> sci
      then let (taken, rest) = scan_number mantissa True sci cs in (c # taken, rest)
      else if (c = CHR ''e'' \<or> c = CHR ''E'') \<and> \<not> sci \<and> mantissa
      then (case cs of
              s # cs' \<Rightarrow>
                if s = CHR ''+'' \<or> s = CHR ''-''
                then let (taken, rest) = scan_number mantissa dot True cs' in (c # s # taken, rest)
                else let (taken, rest) = scan_number mantissa dot True cs in (c # taken, rest)
            | [] \<Rightarrow> ([c], []))
      else ([], c # cs))"

definition scan_float :: "string \<Rightarrow> string \<times> string" where
  "scan_float s =
     (case s of
        c # cs \<Rightarrow>
          if c = CHR ''+'' \<or> c = CHR ''-''
          then let (taken, rest) = scan_number False False False cs in (c # taken, rest)
          else scan_number False False False s
      | [] \<Rightarrow> ([], []))"

definition parse_exponent :: "string \<Rightarrow> int option" where
  "parse_exponent s =
     (let sign = (if s \<noteq> [] \<and> hd s = CHR ''-'' then - 1 else 1);
          digits = (if s \<noteq> [] \<and> (hd s = CHR ''-'' \<or> hd s = CHR ''+'') then tl s else s) in
      if digits \<noteq> [] \<and> list_all is_digit digits then Some (sign * int (digits_value digits)) else None)"

definition parse_double :: "string \<Rightarrow> rat option" where
  "parse_double s =
     (let sign = (if s \<noteq> [] \<and> hd s = CHR ''-'' then - 1 else 1);
          body = (if s \<noteq> [] \<and> (hd s = CHR ''-'' \<or> hd s = CHR ''+'') then tl s else s);
          whole = takeWhile is_digit body;
          after = dropWhile is_digit body;
          hasDot = after \<noteq> [] \<and> hd after = CHR ''.'';
          frac = (if hasDot then takeWhile is_digit (tl after) else []);
          rest = (if hasDot then dropWhile is_digit (tl after) else after);
          mantissa = of_nat (digits_value (whole @ frac)) / 10 ^ length frac in
      if whole = [] \<and> frac = [] then None
      else if rest = [] then Some (dbl (sign * mantissa))
      else if hd rest = CHR ''e'' \<or> hd rest = CHR ''E''
      then (case parse_exponent (tl rest) of
              None \<Rightarrow> None
            | Some e \<Rightarrow> Some (dbl (sign * mantissa * 10 powi e)))
      else None)"

text \<open>\<open>input >> value\<close>: the value and the rest of the text, or a failed stream.\<close>

definition skip_spaces :: "string \<Rightarrow> string" where
  "skip_spaces s = dropWhile is_space s"

definition read_double :: "string \<Rightarrow> (rat \<times> string) option" where
  "read_double s =
     (let (taken, rest) = scan_float (skip_spaces s) in
      case parse_double taken of None \<Rightarrow> None | Some x \<Rightarrow> Some (x, rest))"

definition read_word :: "string \<Rightarrow> (string \<times> string) option" where
  "read_word s =
     (let s = skip_spaces s in
      if s = [] then None
      else Some (takeWhile (\<lambda>c. \<not> is_space c) s, dropWhile (\<lambda>c. \<not> is_space c) s))"

lemma read_word_not_empty: "read_word s = Some (w, rest) \<Longrightarrow> w \<noteq> []"
proof -
  assume "read_word s = Some (w, rest)"
  then have "skip_spaces s \<noteq> []" and w: "w = takeWhile (\<lambda>c. \<not> is_space c) (skip_spaces s)"
    by (auto simp: read_word_def Let_def split: if_splits)
  then have "\<not> is_space (hd (skip_spaces s))"
    unfolding skip_spaces_def by (metis hd_dropWhile)
  then show "w \<noteq> []"
    using w \<open>skip_spaces s \<noteq> []\<close> by (cases "skip_spaces s") auto
qed

end
