(* ===== verification/Room.thy ===== *)
theory Room
  imports Text_Format
begin

text \<open>
  The shared room of \<open>core/src/Room.cpp\<close>: identity, playback state, one pending action, and the
  members by device with the membership token of the session that joined last. Every method holds
  the room's mutex, so each is one step on the state. \<open>std::unordered_map\<close> is an association list
  with distinct keys; the order in which \<open>snapshot\<close> lists the members is not specified by the
  library and no statement depends on it.
\<close>

unbundle bit_operations_syntax

datatype RoomPlaybackState = Stopped | Playing | Paused
datatype RoomConnectionState = Connected | Syncing | Buffering | Synced | Degraded | Reconnecting
datatype RoomAction = Play | Pause | Seek | Stop

record ScheduledRoomAction =
  action :: RoomAction
  effectiveHostNanoseconds :: int
  seekFrame :: u64
  nextStreamId :: u32

record RoomMember =
  deviceId :: string
  ipv4Address :: string
  member_audioPort :: u16
  membershipToken :: u64
  connectionState :: RoomConnectionState
  roundTripMs :: rat
  clockOffsetMs :: rat
  networkJitterMs :: rat
  packetLossPercent :: rat
  bufferDepthMs :: rat
  outputLatencyMs :: rat
  outputRoute :: string
  estimatedSyncErrorMs :: rat

record RoomSnapshot =
  roomId :: string
  roomName :: string
  hostDeviceId :: string
  room_sessionId :: u64
  room_streamId :: u32
  playbackState :: RoomPlaybackState
  pendingAction :: "ScheduledRoomAction option"
  recentAction :: "ScheduledRoomAction option"
  members :: "RoomMember list"

record Room =
  room_state :: RoomSnapshot
  room_members :: "(string \<times> RoomMember) list"
  nextMembershipToken :: u64

section \<open>Construction\<close>

definition Room_new :: "string \<Rightarrow> string \<Rightarrow> string \<Rightarrow> u64 \<Rightarrow> u32 \<Rightarrow> exn + Room" where
  "Room_new ident name host session stream =
     (if ident = [] \<or> name = [] \<or> host = [] \<or> session = 0 \<or> stream = 0
      then Inl (Invalid_Argument ''Room identity is incomplete'')
      else if length name > 48 \<or> \<not> list_all is_printable name
      then Inl (Invalid_Argument ''Room name must be 1..48 printable ASCII bytes'')
      else Inr \<lparr>room_state = \<lparr>roomId = ident, roomName = name, hostDeviceId = host,
          room_sessionId = session, room_streamId = stream, playbackState = Stopped,
          pendingAction = None, recentAction = None, members = []\<rparr>,
        room_members = [], nextMembershipToken = 1\<rparr>)"

text \<open>
  \<open>random64\<close> draws two 32-bit values until they are not both zero; the draws of the random device
  are its input, and running out of them is \<open>None\<close>.
\<close>

fun random64 :: "u32 list \<Rightarrow> (u64 \<times> u32 list) option" where
  "random64 (high # low # draws) =
     (let value = (push_bit 32 (ucast high) :: u64) OR ucast low in
      if value = 0 then random64 draws else Some (value, draws))"
| "random64 _ = None"

definition Room_create :: "string \<Rightarrow> string \<Rightarrow> u32 list \<Rightarrow> (exn + Room) option" where
  "Room_create name host draws =
     (case random64 draws of None \<Rightarrow> None | Some (id0, draws) \<Rightarrow>
      case random64 draws of None \<Rightarrow> None | Some (id1, draws) \<Rightarrow>
      case random64 draws of None \<Rightarrow> None | Some (r, draws) \<Rightarrow>
        let stream = ucast r :: u32; stream = (if stream = 0 then 1 else stream) in
      case random64 draws of None \<Rightarrow> None | Some (session, draws) \<Rightarrow>
        Some (Room_new (hex16 id0 @ hex16 id1) name host session stream))"

section \<open>Members\<close>

definition find_member :: "string \<Rightarrow> Room \<Rightarrow> RoomMember option" where
  "find_member device r = map_of (room_members r) device"

text \<open>\<open>insert_or_assign\<close>, \<open>erase\<close> and assignment through an iterator.\<close>

fun insert_or_assign :: "'k \<Rightarrow> 'v \<Rightarrow> ('k \<times> 'v) list \<Rightarrow> ('k \<times> 'v) list" where
  "insert_or_assign k v [] = [(k, v)]"
| "insert_or_assign k v ((k', v') # m) =
     (if k = k' then (k, v) # m else (k', v') # insert_or_assign k v m)"

definition map_erase :: "'k \<Rightarrow> ('k \<times> 'v) list \<Rightarrow> ('k \<times> 'v) list" where
  "map_erase k m = filter (\<lambda>e. fst e \<noteq> k) m"

definition RoomMember_new :: "string \<Rightarrow> string \<Rightarrow> u16 \<Rightarrow> u64 \<Rightarrow> RoomMember" where
  "RoomMember_new device address port token =
     \<lparr>deviceId = device, ipv4Address = address, member_audioPort = port, membershipToken = token,
      connectionState = Connected, roundTripMs = 0, clockOffsetMs = 0, networkJitterMs = 0,
      packetLossPercent = 0, bufferDepthMs = 0, outputLatencyMs = 0, outputRoute = ''Unknown'',
      estimatedSyncErrorMs = 0\<rparr>"

definition join :: "string \<Rightarrow> string \<Rightarrow> u16 \<Rightarrow> Room \<Rightarrow> exn + u64 \<times> Room" where
  "join device address port r =
     (if device = [] \<or> address = [] \<or> port = 0
      then Inl (Invalid_Argument ''Room member endpoint is incomplete'')
      else
        let token = nextMembershipToken r in
        Inr (token, r\<lparr>nextMembershipToken := token + 1,
          room_members := insert_or_assign device (RoomMember_new device address port token)
            (room_members r)\<rparr>))"

definition leave :: "string \<Rightarrow> u64 \<Rightarrow> Room \<Rightarrow> Room" where
  "leave device token r =
     (case find_member device r of
        None \<Rightarrow> r
      | Some m \<Rightarrow> if membershipToken m = token
                  then r\<lparr>room_members := map_erase device (room_members r)\<rparr> else r)"

definition updateMember :: "RoomMember \<Rightarrow> Room \<Rightarrow> bool \<times> Room" where
  "updateMember member r =
     (case find_member (deviceId member) r of
        None \<Rightarrow> (False, r)
      | Some m \<Rightarrow>
          if membershipToken m \<noteq> membershipToken member then (False, r)
          else (True, r\<lparr>room_members := insert_or_assign (deviceId member) member (room_members r)\<rparr>))"

section \<open>Playback and actions\<close>

definition setPlaybackState :: "RoomPlaybackState \<Rightarrow> Room \<Rightarrow> Room" where
  "setPlaybackState s r = r\<lparr>room_state := (room_state r)\<lparr>playbackState := s\<rparr>\<rparr>"

definition setStreamId :: "u32 \<Rightarrow> Room \<Rightarrow> exn + Room" where
  "setStreamId stream r =
     (if stream = 0 then Inl (Invalid_Argument ''Stream ID must be nonzero'')
      else Inr (r\<lparr>room_state := (room_state r)\<lparr>room_streamId := stream\<rparr>\<rparr>))"

definition scheduleAction :: "ScheduledRoomAction \<Rightarrow> Room \<Rightarrow> exn + bool \<times> Room" where
  "scheduleAction a r =
     (if effectiveHostNanoseconds a \<le> 0 \<or> nextStreamId a = 0
      then Inl (Invalid_Argument ''Scheduled room action is invalid'')
      else if pendingAction (room_state r) \<noteq> None then Inr (False, r)
      else Inr (True, r\<lparr>room_state := (room_state r)\<lparr>pendingAction := Some a\<rparr>\<rparr>))"

definition takeAction :: "Room \<Rightarrow> ScheduledRoomAction option \<times> Room" where
  "takeAction r =
     (let result = pendingAction (room_state r);
          s = (if result \<noteq> None then (room_state r)\<lparr>recentAction := result\<rparr> else room_state r) in
      (result, r\<lparr>room_state := s\<lparr>pendingAction := None\<rparr>\<rparr>))"

definition snapshot :: "Room \<Rightarrow> RoomSnapshot" where
  "snapshot r = (room_state r)\<lparr>members := map snd (room_members r)\<rparr>"

section \<open>The contract of memberships\<close>

text \<open>
  What a session relies on: entering gives it a token no one holds, and only the holder of a
  device's current token can make the device leave. Tokens come from a counter that must not wrap,
  which \<open>last_token\<close> marks.
\<close>

locale membership =
  fixes ok :: "'r \<Rightarrow> bool"
    and token_of :: "'r \<Rightarrow> string \<Rightarrow> u64 option"
    and enter :: "string \<Rightarrow> 'a \<Rightarrow> 'p \<Rightarrow> 'r \<Rightarrow> exn + u64 \<times> 'r"
    and depart :: "string \<Rightarrow> u64 \<Rightarrow> 'r \<Rightarrow> 'r"
    and last_token :: u64
  assumes enter_token: "ok r \<Longrightarrow> enter d a p r = Inr (t, r') \<Longrightarrow> token_of r' = (token_of r)(d \<mapsto> t)"
    and enter_fresh: "ok r \<Longrightarrow> enter d a p r = Inr (t, r') \<Longrightarrow> token_of r d' \<noteq> Some t"
    and enter_ok: "ok r \<Longrightarrow> enter d a p r = Inr (t, r') \<Longrightarrow> t \<noteq> last_token \<Longrightarrow> ok r'"
    and depart_token: "ok r \<Longrightarrow> token_of (depart d t r) =
      (if token_of r d = Some t then (token_of r)(d := None) else token_of r)"
    and depart_ok: "ok r \<Longrightarrow> ok (depart d t r)"
    and unique: "ok r \<Longrightarrow> token_of r d = Some t \<Longrightarrow> token_of r d' = Some t \<Longrightarrow> d = d'"
begin

lemma departed_gone:
  assumes "ok r" "token_of r d = Some t"
  shows "token_of (depart d t r) d' \<noteq> Some t"
proof (cases "d' = d")
  case False
  then have "token_of r d' \<noteq> Some t" using unique [OF assms, of d'] by blast
  then show ?thesis using assms False by (simp add: depart_token)
qed (use assms in \<open>simp add: depart_token\<close>)

lemma depart_keeps_others: "ok r \<Longrightarrow> d' \<noteq> d \<Longrightarrow> token_of (depart d t r) d' = token_of r d'"
  by (simp add: depart_token)

lemma stale_depart: "ok r \<Longrightarrow> token_of r d \<noteq> Some t \<Longrightarrow> token_of (depart d t r) = token_of r"
  by (simp add: depart_token)

text \<open>A session that moves to another device leaves nothing behind.\<close>

lemma rejoin_token:
  assumes "ok r" "enter d' a p (depart d t r) = Inr (t', r')"
  shows "token_of r' = (token_of (depart d t r))(d' \<mapsto> t')"
  by (rule enter_token [OF depart_ok [OF assms(1)] assms(2)])

lemma rejoin:
  assumes "ok r" "token_of r d = Some t" "enter d' a p (depart d t r) = Inr (t', r')"
    and "token_of r' x = Some t"
  shows "t = t'"
proof (rule ccontr)
  assume "t \<noteq> t'"
  then have "token_of (depart d t r) x = Some t"
    using assms(4) unfolding rejoin_token [OF assms(1,3)] by (cases "x = d'") simp_all
  then show False using departed_gone [OF assms(1,2), of x] by contradiction
qed

end

section \<open>Invariant\<close>

definition token_of :: "Room \<Rightarrow> string \<Rightarrow> u64 option" where
  "token_of r d = map_option membershipToken (find_member d r)"

definition members_ok :: "Room \<Rightarrow> bool" where
  "members_ok r \<longleftrightarrow> distinct (map fst (room_members r)) \<and>
     distinct (map (membershipToken \<circ> snd) (room_members r)) \<and>
     (\<forall>(d, m) \<in> set (room_members r). deviceId m = d \<and> membershipToken m < nextMembershipToken r)"

lemma find_member_simps [simp]:
  "find_member d (r\<lparr>room_state := s\<rparr>) = find_member d r"
  "find_member d (r\<lparr>nextMembershipToken := t\<rparr>) = find_member d r"
  by (simp_all add: find_member_def)

lemma map_of_insert_or_assign [simp]: "map_of (insert_or_assign k v m) = (map_of m)(k \<mapsto> v)"
  by (induction k v m rule: insert_or_assign.induct) auto

lemma map_of_map_erase [simp]: "map_of (map_erase k m) = (map_of m)(k := None)"
  by (induction m) (auto simp: map_erase_def)

lemma keys_insert_or_assign [simp]: "fst ` set (insert_or_assign k v m) = insert k (fst ` set m)"
  by (induction k v m rule: insert_or_assign.induct) auto

lemma distinct_insert_or_assign [simp]:
  "distinct (map fst (insert_or_assign k v m)) = distinct (map fst m)"
  by (induction k v m rule: insert_or_assign.induct) simp_all

lemma set_insert_or_assign:
  "distinct (map fst m) \<Longrightarrow>
    set (insert_or_assign k v m) = insert (k, v) {e \<in> set m. fst e \<noteq> k}"
  by (induction k v m rule: insert_or_assign.induct) (auto simp: rev_image_eqI)

lemma find_member_in:
  "find_member d r = Some m \<Longrightarrow> (d, m) \<in> set (room_members r)"
  by (simp add: find_member_def map_of_SomeD)

lemma find_member_iff:
  "members_ok r \<Longrightarrow> find_member d r = Some m \<longleftrightarrow> (d, m) \<in> set (room_members r)"
  by (simp add: find_member_def members_ok_def)

lemma members_okD:
  assumes "members_ok r" "(d, m) \<in> set (room_members r)"
  shows "deviceId m = d" "membershipToken m < nextMembershipToken r"
  using assms by (auto simp: members_ok_def)

lemma members_ok_unique:
  assumes "members_ok r" "(d, m) \<in> set (room_members r)" "(d', m') \<in> set (room_members r)"
    and "membershipToken m = membershipToken m'"
  shows "d = d' \<and> m = m'"
proof -
  have "inj_on (membershipToken \<circ> snd) (set (room_members r))"
    using assms(1) by (simp add: members_ok_def distinct_map)
  from inj_onD [OF this, of "(d, m)" "(d', m')"] assms show ?thesis by simp
qed

lemma token_of_Some: "members_ok r \<Longrightarrow> token_of r d = Some t \<longleftrightarrow>
    (\<exists>m. (d, m) \<in> set (room_members r) \<and> membershipToken m = t)"
  by (auto simp: token_of_def find_member_iff)

text \<open>The tokens of a list with one entry replaced or removed stay distinct.\<close>

lemma distinct_tokens_insert:
  assumes "distinct (map fst m)" "distinct (map g m)" "\<And>e. e \<in> set m \<Longrightarrow> fst e \<noteq> k \<Longrightarrow> g e \<noteq> g (k, v)"
  shows "distinct (map g (insert_or_assign k v m))"
  using assms
proof (induction m)
  case (Cons e m)
  obtain k' v' where e: "e = (k', v')" by fastforce
  show ?case
  proof (cases "k = k'")
    case True
    then have "fst x \<noteq> k" if "x \<in> set m" for x
      using Cons.prems(1) that e by (auto simp: rev_image_eqI)
    then have "g x \<noteq> g (k, v)" if "x \<in> set m" for x
      using Cons.prems(3) that by (simp add: e)
    then show ?thesis using Cons.prems(2) True e by fastforce
  next
    case False
    then have "g e \<noteq> g (k, v)" using Cons.prems(3) [of e] e by simp
    moreover have "g e \<noteq> g x" if "x \<in> set m" for x using Cons.prems(2) that by auto
    ultimately have "g e \<notin> g ` set (insert_or_assign k v m)"
      using Cons.prems(1) set_insert_or_assign [of m k v] by auto
    with Cons False e show ?thesis by simp
  qed
qed simp

lemma members_ok_insert:
  assumes "members_ok r" "deviceId m = d" "membershipToken m < t" "nextMembershipToken r \<le> t"
    and "\<And>d' m'. (d', m') \<in> set (room_members r) \<Longrightarrow> d' \<noteq> d \<Longrightarrow> membershipToken m' \<noteq> membershipToken m"
  shows "members_ok (r\<lparr>nextMembershipToken := t, room_members := insert_or_assign d m (room_members r)\<rparr>)"
proof -
  have "distinct (map fst (room_members r))" using assms(1) by (simp add: members_ok_def)
  note set_insert = set_insert_or_assign [OF this, of d m]
  have "deviceId m' = d' \<and> membershipToken m' < t"
    if "(d', m') \<in> set (insert_or_assign d m (room_members r))" for d' m'
    using that assms(2-4) members_okD [OF assms(1), of d' m'] unfolding set_insert by auto
  moreover have "distinct (map (membershipToken \<circ> snd) (insert_or_assign d m (room_members r)))"
    using assms(1,5) by (intro distinct_tokens_insert) (auto simp: members_ok_def)
  ultimately show ?thesis using assms(1) by (auto simp: members_ok_def)
qed

lemma join_ok:
  assumes ok: "members_ok r" and join: "join d a p r = Inr (t, r')" and t: "t \<noteq> u64_max"
  shows "members_ok r'"
proof -
  have t_eq: "t = nextMembershipToken r"
    and r': "r' = r\<lparr>nextMembershipToken := t + 1,
      room_members := insert_or_assign d (RoomMember_new d a p t) (room_members r)\<rparr>"
    using join by (auto simp: join_def Let_def split: if_splits)
  have up: "t < t + 1" using t by (rule u64_less_add_1)
  have "membershipToken m' \<noteq> t" if "(d', m') \<in> set (room_members r)" for d' m'
    using members_okD(2) [OF ok that] t_eq by auto
  then show ?thesis
    unfolding r' using up t_eq
    by (intro members_ok_insert [OF ok]) (auto simp: RoomMember_new_def)
qed

lemma leave_ok: "members_ok r \<Longrightarrow> members_ok (leave d t r)"
  unfolding leave_def
  by (auto simp: members_ok_def map_erase_def distinct_map_filter split: option.split)

lemma updateMember_ok:
  assumes ok: "members_ok r"
  shows "members_ok (snd (updateMember m r))"
proof (cases "\<exists>m0. find_member (deviceId m) r = Some m0 \<and> membershipToken m0 = membershipToken m")
  case True
  then obtain m0 where m0: "find_member (deviceId m) r = Some m0"
    "membershipToken m0 = membershipToken m" by blast
  have in_r: "(deviceId m, m0) \<in> set (room_members r)" using m0(1) by (rule find_member_in)
  have below: "membershipToken m < nextMembershipToken r"
    using members_okD(2) [OF ok in_r] m0(2) by simp
  have other: "membershipToken m' \<noteq> membershipToken m"
    if "(d', m') \<in> set (room_members r)" "d' \<noteq> deviceId m" for d' m'
    using members_ok_unique [OF ok in_r that(1)] m0(2) that(2) by auto
  have "members_ok (r\<lparr>nextMembershipToken := nextMembershipToken r,
      room_members := insert_or_assign (deviceId m) m (room_members r)\<rparr>)"
    by (rule members_ok_insert [OF ok refl below order_refl]) (rule other)
  then show ?thesis using m0 by (simp add: updateMember_def)
next
  case False
  then have "snd (updateMember m r) = r" by (auto simp: updateMember_def split: option.split)
  with ok show ?thesis by simp
qed

lemma token_of_leave: "token_of (leave d t r) =
    (if token_of r d = Some t then (token_of r)(d := None) else token_of r)"
  by (auto simp: fun_eq_iff token_of_def leave_def find_member_def split: option.split)

lemma token_of_join: "join d a p r = Inr (t, r') \<Longrightarrow> token_of r' = (token_of r)(d \<mapsto> t)"
  by (auto simp: fun_eq_iff token_of_def join_def Let_def find_member_def RoomMember_new_def
      split: if_splits)

lemma token_below_next: "members_ok r \<Longrightarrow> token_of r d = Some t \<Longrightarrow> t < nextMembershipToken r"
  by (auto simp: token_of_Some dest: members_okD)

interpretation tokens: membership members_ok token_of join leave u64_max
proof
  fix r d d' a p t r'
  show "token_of r' = (token_of r)(d \<mapsto> t)" if "join d a p r = Inr (t, r')"
    using that by (rule token_of_join)
  show "token_of r d' \<noteq> Some t" if "members_ok r" "join d a p r = Inr (t, r')"
    using that token_below_next [of r d' t] by (auto simp: join_def Let_def split: if_splits)
  show "members_ok r'" if "members_ok r" "join d a p r = Inr (t, r')" "t \<noteq> u64_max"
    using that by (rule join_ok)
  show "d = d'" if "members_ok r" "token_of r d = Some t" "token_of r d' = Some t"
    using that members_ok_unique [OF that(1)] by (auto simp: token_of_Some)
qed (simp_all add: token_of_leave leave_ok)

section \<open>Runs of a room\<close>

datatype room_op =
    Join string string u16
  | Leave string u64
  | Update RoomMember
  | Set_Playback RoomPlaybackState
  | Set_Stream u32
  | Schedule ScheduledRoomAction
  | Take

fun room_exec :: "room_op \<Rightarrow> Room \<Rightarrow> Room" where
  "room_exec (Join d a p) r = (case join d a p r of Inl _ \<Rightarrow> r | Inr (_, r') \<Rightarrow> r')"
| "room_exec (Leave d t) r = leave d t r"
| "room_exec (Update m) r = snd (updateMember m r)"
| "room_exec (Set_Playback s) r = setPlaybackState s r"
| "room_exec (Set_Stream i) r = (case setStreamId i r of Inl _ \<Rightarrow> r | Inr r' \<Rightarrow> r')"
| "room_exec (Schedule a) r = (case scheduleAction a r of Inl _ \<Rightarrow> r | Inr (_, r') \<Rightarrow> r')"
| "room_exec Take r = snd (takeAction r)"

fun room_run :: "room_op list \<Rightarrow> Room \<Rightarrow> Room" where
  "room_run [] r = r"
| "room_run (op # ops) r = room_run ops (room_exec op r)"

text \<open>The actions \<open>scheduleAction\<close> accepted and the actions \<open>takeAction\<close> handed out, in order.\<close>

fun room_accepts :: "room_op \<Rightarrow> Room \<Rightarrow> ScheduledRoomAction list" where
  "room_accepts (Schedule a) r =
     (case scheduleAction a r of Inr (True, _) \<Rightarrow> [a] | _ \<Rightarrow> [])"
| "room_accepts _ r = []"

fun room_takes :: "room_op \<Rightarrow> Room \<Rightarrow> ScheduledRoomAction list" where
  "room_takes Take r = (case fst (takeAction r) of Some a \<Rightarrow> [a] | None \<Rightarrow> [])"
| "room_takes _ r = []"

fun actions_accepted :: "room_op list \<Rightarrow> Room \<Rightarrow> ScheduledRoomAction list" where
  "actions_accepted [] r = []"
| "actions_accepted (op # ops) r = room_accepts op r @ actions_accepted ops (room_exec op r)"

fun actions_taken :: "room_op list \<Rightarrow> Room \<Rightarrow> ScheduledRoomAction list" where
  "actions_taken [] r = []"
| "actions_taken (op # ops) r = room_takes op r @ actions_taken ops (room_exec op r)"

definition pending_list :: "Room \<Rightarrow> ScheduledRoomAction list" where
  "pending_list r = (case pendingAction (room_state r) of Some a \<Rightarrow> [a] | None \<Rightarrow> [])"

definition same_identity :: "Room \<Rightarrow> Room \<Rightarrow> bool" where
  "same_identity r r' \<longleftrightarrow> roomId (room_state r) = roomId (room_state r') \<and>
     roomName (room_state r) = roomName (room_state r') \<and>
     hostDeviceId (room_state r) = hostDeviceId (room_state r') \<and>
     room_sessionId (room_state r) = room_sessionId (room_state r')"

definition action_ok :: "ScheduledRoomAction \<Rightarrow> bool" where
  "action_ok a \<longleftrightarrow> 0 < effectiveHostNanoseconds a \<and> nextStreamId a \<noteq> 0"

definition room_ok :: "Room \<Rightarrow> bool" where
  "room_ok r \<longleftrightarrow> members_ok r \<and> room_streamId (room_state r) \<noteq> 0 \<and>
     (\<forall>a. pendingAction (room_state r) = Some a \<longrightarrow> action_ok a) \<and>
     (\<forall>a. recentAction (room_state r) = Some a \<longrightarrow> action_ok a)"

text \<open>
  Every run a room can make. A step is taken only while tokens are left, that is for the first
  \<open>2 ^ 64 - 2\<close> joins.
\<close>

inductive room_reachable :: "Room \<Rightarrow> bool" where
  new: "Room_new ident name host session stream = Inr r \<Longrightarrow> room_reachable r"
| step: "room_reachable r \<Longrightarrow> nextMembershipToken r \<noteq> u64_max \<Longrightarrow> room_reachable (room_exec op r)"

lemma join_state: "join d a p r = Inr (t, r') \<Longrightarrow> room_state r' = room_state r \<and> t = nextMembershipToken r"
  by (auto simp: join_def Let_def split: if_splits)

lemma leave_state [simp]: "room_state (leave d t r) = room_state r"
  by (simp add: leave_def split: option.split)

lemma updateMember_state [simp]: "room_state (snd (updateMember m r)) = room_state r"
  by (simp add: updateMember_def split: option.split)

lemma members_ok_state [simp]: "members_ok (r\<lparr>room_state := s\<rparr>) = members_ok r"
  by (simp add: members_ok_def)

lemma room_exec_members_ok:
  "members_ok r \<Longrightarrow> nextMembershipToken r \<noteq> u64_max \<Longrightarrow> members_ok (room_exec op r)"
  by (cases op)
    (auto simp: leave_ok updateMember_ok setPlaybackState_def setStreamId_def scheduleAction_def
      takeAction_def Let_def split: sum.split dest: join_ok join_state)

lemma room_exec_ok:
  assumes "room_ok r" "nextMembershipToken r \<noteq> u64_max"
  shows "room_ok (room_exec op r)"
proof -
  have "members_ok (room_exec op r)"
    using assms room_exec_members_ok by (simp add: room_ok_def)
  then show ?thesis
    using assms(1)
    by (cases op)
      (auto simp: room_ok_def setPlaybackState_def setStreamId_def scheduleAction_def takeAction_def
        Let_def action_ok_def split: sum.splits if_splits dest: join_state)
qed

lemma room_new_ok: "Room_new ident name host session stream = Inr r \<Longrightarrow> room_ok r"
  by (auto simp: Room_new_def room_ok_def members_ok_def split: if_splits)

lemma room_reachable_ok: "room_reachable r \<Longrightarrow> room_ok r"
  by (induction rule: room_reachable.induct) (simp_all add: room_new_ok room_exec_ok)

lemma room_exec_identity: "same_identity r (room_exec op r)"
  by (cases op)
    (auto simp: same_identity_def setPlaybackState_def setStreamId_def scheduleAction_def takeAction_def
      Let_def split: sum.split dest: join_state)

lemma room_exec_next: "nextMembershipToken r \<noteq> u64_max \<Longrightarrow>
    nextMembershipToken r \<le> nextMembershipToken (room_exec op r)"
  using u64_less_add_1 [of "nextMembershipToken r"]
  by (cases op)
    (auto simp: join_def leave_def updateMember_def setPlaybackState_def setStreamId_def
      scheduleAction_def takeAction_def Let_def split: sum.split option.split)

inductive room_after :: "Room \<Rightarrow> Room \<Rightarrow> bool" for r where
  here: "room_after r r"
| later: "room_after r r' \<Longrightarrow> nextMembershipToken r' \<noteq> u64_max \<Longrightarrow> room_after r (room_exec op r')"

lemma token_of_state [simp]: "token_of (r\<lparr>room_state := s\<rparr>) = token_of r"
  by (simp add: fun_eq_iff token_of_def)

lemma token_of_update: "token_of (snd (updateMember m r)) = token_of r"
  by (auto simp: fun_eq_iff token_of_def updateMember_def find_member_def split: option.split)

lemma join_effect: "join d a p r = Inr (t, r') \<Longrightarrow>
    room_state r' = room_state r \<and> t = nextMembershipToken r \<and> token_of r' = (token_of r)(d \<mapsto> t)"
  using join_state token_of_join by blast

lemma token_of_exec:
  "token_of (room_exec op r) d = Some t \<Longrightarrow> token_of r d = Some t \<or> t = nextMembershipToken r"
  by (cases op)
    (auto simp: token_of_leave token_of_update setPlaybackState_def setStreamId_def
      scheduleAction_def takeAction_def Let_def split: sum.splits if_splits
      dest: join_effect)

lemma stale_token_stays:
  assumes "room_after r r'" "token_of r d \<noteq> Some t" "t < nextMembershipToken r"
  shows "token_of r' d \<noteq> Some t \<and> t < nextMembershipToken r'"
  using assms
proof (induction rule: room_after.induct)
  case (later r' op)
  then have "t < nextMembershipToken (room_exec op r')"
    using room_exec_next [of r' op] by (meson less_le_trans)
  then show ?case using later token_of_exec [of op r' d t] by auto
qed simp

section \<open>Properties\<close>

definition example_room :: Room where
  "example_room = \<lparr>room_state = \<lparr>roomId = ''id'', roomName = ''Kitchen'', hostDeviceId = ''host'',
      room_sessionId = 9, room_streamId = 1, playbackState = Stopped, pendingAction = None,
      recentAction = None, members = []\<rparr>, room_members = [], nextMembershipToken = 1\<rparr>"

lemma example_room_new: "Room_new ''id'' ''Kitchen'' ''host'' 9 1 = Inr example_room"
  by (simp add: Room_new_def example_room_def is_printable_def code_def)

lemma example_room_reachable: "room_reachable example_room"
  by (rule room_reachable.new [OF example_room_new])

definition example_joined :: Room where
  "example_joined = room_exec (Join ''phone'' ''10.0.0.2'' 47001) example_room"

lemma example_joined:
  "join ''phone'' ''10.0.0.2'' 47001 example_room = Inr (1, example_joined)"
  "room_reachable example_joined" "nextMembershipToken example_joined = 2"
  using room_reachable.step [OF example_room_reachable, of "Join ''phone'' ''10.0.0.2'' 47001"]
  by (simp_all add: example_joined_def join_def example_room_def)

text \<open>
  In every run of a room, no two members share a device or a membership token and each member is
  filed under its own device; the stream id is never zero, and the pending action and the last one
  taken, if any, have a positive time and a nonzero stream.
\<close>

theorem room_invariant:
  assumes "room_reachable r"
  shows "distinct (map deviceId (members (snapshot r))) \<and>
    distinct (map membershipToken (members (snapshot r))) \<and>
    (\<forall>m \<in> set (members (snapshot r)). find_member (deviceId m) r = Some m) \<and>
    room_streamId (snapshot r) \<noteq> 0 \<and>
    (\<forall>a. pendingAction (snapshot r) = Some a \<or> recentAction (snapshot r) = Some a \<longrightarrow>
      0 < effectiveHostNanoseconds a \<and> nextStreamId a \<noteq> 0)"
proof -
  have ok: "room_ok r" and mok: "members_ok r"
    using room_reachable_ok [OF assms] by (simp_all add: room_ok_def)
  have keys: "map deviceId (map snd (room_members r)) = map fst (room_members r)"
    using members_okD(1) [OF mok] by auto
  have "find_member (deviceId m) r = Some m" if "(d, m) \<in> set (room_members r)" for d m
    using that members_okD(1) [OF mok that] find_member_iff [OF mok] by simp
  moreover have "distinct (map deviceId (map snd (room_members r)))"
    unfolding keys using mok by (simp add: members_ok_def)
  ultimately show ?thesis
    using ok mok unfolding snapshot_def
    by (auto simp: members_ok_def comp_def room_ok_def action_ok_def)
qed

theorem room_invariant_witness:
  "distinct (map deviceId (members (snapshot example_joined))) \<and>
   find_member ''phone'' example_joined = Some (RoomMember_new ''phone'' ''10.0.0.2'' 47001 1)"
  using room_invariant [OF example_joined(2)]
  by (simp add: example_joined_def example_room_def join_def find_member_def)

text \<open>
  C7. A session that has lost its place never gets it back: once a device is no longer under the
  token \<open>t\<close> that was issued, whatever joins, leaves, updates and commands follow, that token stays
  invalid for it, and leaving or reporting with it changes nothing, so an old connection cannot
  remove or overwrite the device that took its place.
\<close>

theorem stale_token_powerless:
  assumes "room_reachable r" "t < nextMembershipToken r" "token_of r d \<noteq> Some t" "room_after r r'"
  shows "token_of r' d \<noteq> Some t \<and> leave d t r' = r' \<and>
    (\<forall>m. deviceId m = d \<longrightarrow> membershipToken m = t \<longrightarrow> updateMember m r' = (False, r'))"
proof -
  have "token_of r' d \<noteq> Some t" using stale_token_stays assms by blast
  then show ?thesis
    by (auto simp: token_of_def leave_def updateMember_def split: option.split)
qed

definition example_rejoined :: Room where
  "example_rejoined = room_exec (Join ''phone'' ''10.0.0.3'' 47001) example_joined"

lemma example_rejoined: "room_reachable example_rejoined" "nextMembershipToken example_rejoined = 3"
    "token_of example_rejoined ''phone'' = Some 2"
  using room_reachable.step [OF example_joined(2), of "Join ''phone'' ''10.0.0.3'' 47001"]
    example_joined(3)
  by (simp_all add: example_rejoined_def join_def token_of_def find_member_def RoomMember_new_def)

theorem stale_token_powerless_witness:
  "leave ''phone'' 1 (room_exec Take example_rejoined) = room_exec Take example_rejoined"
proof -
  have "room_after example_rejoined (room_exec Take example_rejoined)"
    by (intro room_after.intros) (simp add: example_rejoined)
  then show ?thesis
    using stale_token_powerless [OF example_rejoined(1), of 1 "''phone''"]
    by (simp add: example_rejoined)
qed

lemma actions_step:
  "pending_list r @ room_accepts op r = room_takes op r @ pending_list (room_exec op r)"
  by (cases op)
    (auto simp: pending_list_def setPlaybackState_def setStreamId_def scheduleAction_def
      takeAction_def Let_def split: sum.splits option.splits if_splits dest: join_state)

lemma actions_run:
  "pending_list r @ actions_accepted ops r = actions_taken ops r @ pending_list (room_run ops r)"
proof (induction ops arbitrary: r)
  case (Cons op ops)
  have "pending_list r @ actions_accepted (op # ops) r =
      (pending_list r @ room_accepts op r) @ actions_accepted ops (room_exec op r)" by simp
  also have "\<dots> = actions_taken (op # ops) r @ pending_list (room_run (op # ops) r)"
    by (simp only: actions_step append_assoc Cons.IH actions_taken.simps room_run.simps)
  finally show ?case .
qed simp

text \<open>
  C8. The room is a queue of one scheduled action: over any run, the actions accepted, after the one
  pending at the start, are exactly those taken, in the same order and each once, followed by the
  one still pending; a valid action is accepted exactly when none is pending.
\<close>

theorem actions_taken_once:
  "pending_list r @ actions_accepted ops r = actions_taken ops r @ pending_list (room_run ops r) \<and>
   room_accepts (Schedule a) r = (if action_ok a \<and> pending_list r = [] then [a] else [])"
  using actions_run
  by (auto simp: scheduleAction_def pending_list_def action_ok_def split: option.splits)

text \<open>
  A room created from nonzero random values has a valid identity: creation fails only for a bad
  name or host, never for what was drawn; the id has 32 characters, and the stream id is not zero.
\<close>

theorem create_identity:
  assumes "Room_create name host draws = Some result"
  shows "case result of
      Inl e \<Rightarrow> name = [] \<or> host = [] \<or> 48 < length name \<or> \<not> list_all is_printable name
    | Inr r \<Rightarrow> room_ok r \<and> length (roomId (room_state r)) = 32 \<and> roomName (room_state r) = name \<and>
        room_sessionId (room_state r) \<noteq> 0 \<and> pending_list r = [] \<and> members (snapshot r) = []"
proof -
  have nonzero: "v \<noteq> 0" if "random64 ds = Some (v, rest)" for ds v rest
    using that by (induction ds rule: random64.induct) (auto simp: Let_def split: if_splits)
  obtain id0 id1 r session d1 d2 d3 d4 where draws: "random64 draws = Some (id0, d1)"
    "random64 d1 = Some (id1, d2)" "random64 d2 = Some (r, d3)" "random64 d3 = Some (session, d4)"
    and result: "result = Room_new (hex16 id0 @ hex16 id1) name host session
      (if ucast r = (0 :: u32) then 1 else ucast r)"
    using assms by (auto simp: Room_create_def Let_def split: option.splits)
  have "hex16 id0 @ hex16 id1 \<noteq> []" using length_hex16 [of id0] by (metis append_is_Nil_conv list.size(3) zero_neq_numeral)
  moreover have "session \<noteq> 0" using nonzero [OF draws(4)] .
  moreover have "room_ok x" if "result = Inr x" for x
    using room_new_ok that result by metis
  ultimately show ?thesis
    using result
    by (auto simp: Room_new_def pending_list_def snapshot_def split: if_splits)
qed

theorem create_identity_witness:
  "\<exists>r. Room_create ''Kitchen'' ''host'' [1, 2, 3, 4, 0, 0, 5, 0, 7, 8] = Some (Inr r) \<and>
     length (roomId (room_state r)) = 32 \<and> room_sessionId (room_state r) = 30064771080"
proof -
  obtain result where result: "Room_create ''Kitchen'' ''host'' [1, 2, 3, 4, 0, 0, 5, 0, 7, 8] = Some result"
    by (simp add: Room_create_def Let_def)
  then have "\<exists>r. result = Inr r \<and> room_sessionId (room_state r) = 30064771080"
    by (auto simp: Room_create_def Let_def Room_new_def is_printable_def code_def
        simp flip: length_0_conv split: if_splits)
  then show ?thesis using result create_identity [OF result] by auto
qed

end
