(* ===== verification/Control_Channel.thy ===== *)
theory Control_Channel
  imports Room
begin

text \<open>
  The TCP control protocol of \<open>desktop/src/ControlChannel.cpp\<close>: the answer to one line
  (\<open>responseFor\<close>), the session that collects characters into lines (\<open>serveClient\<close>) and the server with
  its sessions (\<open>acceptLoop\<close>). Sockets and the steady clock are outside the model: what \<open>accept\<close>,
  \<open>recv\<close>, \<open>send\<close> and the clock return comes with each event. A session thread takes the room's mutex
  in each room operation; here the operations of one request are one step.
\<close>

record ControlStreamState =
  stream_sessionId :: u64
  stream_streamId :: u32
  audioPort :: u16
  clockPort :: u16
  hostAddress :: string
  stream_sampleRate :: u32
  channels :: u16
  totalFrames :: u64
  currentFrame :: u64
  playing :: bool
  room :: "Room option"

text \<open>The two variables of a session thread that \<open>responseFor\<close> may assign.\<close>

record Session =
  joinedDeviceId :: string
  session_token :: u64

definition new_session :: Session where
  "new_session = \<lparr>joinedDeviceId = [], session_token = 0\<rparr>"

section \<open>Text of the protocol\<close>

definition id_char :: "char \<Rightarrow> bool" where
  "id_char c \<longleftrightarrow> is_alnum c \<or> c = CHR ''-'' \<or> c = CHR ''_''"

definition validDeviceId :: "string \<Rightarrow> bool" where
  "validDeviceId ident \<longleftrightarrow> \<not> (ident = [] \<or> length ident > 64) \<and> list_all id_char ident"

fun actionName :: "RoomAction \<Rightarrow> string" where
  "actionName Play = ''PLAY''"
| "actionName Pause = ''PAUSE''"
| "actionName Seek = ''SEEK''"
| "actionName Stop = ''STOP''"

fun connectionName :: "RoomConnectionState \<Rightarrow> string" where
  "connectionName Connected = ''CONNECTED''"
| "connectionName Syncing = ''SYNCING''"
| "connectionName Buffering = ''BUFFERING''"
| "connectionName Synced = ''SYNCED''"
| "connectionName Degraded = ''DEGRADED''"
| "connectionName Reconnecting = ''RECONNECTING''"

definition line_of :: "string \<Rightarrow> string" where
  "line_of s = s @ [newline]"

definition action_text :: "ScheduledRoomAction \<Rightarrow> string" where
  "action_text a = actionName (action a) @ '' '' @ show_int (effectiveHostNanoseconds a) @ '' '' @
     show_nat (unat (seekFrame a)) @ '' '' @ show_nat (unat (nextStreamId a))"

definition hostStateLine :: "ControlStreamState \<Rightarrow> string" where
  "hostStateLine state =
     (let playback = (if playing state then ''PLAYING'' else ''STOPPED'');
          playback = (case room state of
            Some r \<Rightarrow> if playbackState (snapshot r) = Paused then ''PAUSED'' else playback
          | None \<Rightarrow> playback);
          result = ''HOST_STATE '' @ playback @ '' '' @ show_nat (unat (stream_sessionId state)) @
            '' '' @ show_nat (unat (currentFrame state));
          result = (case room state of
            None \<Rightarrow> result
          | Some r \<Rightarrow>
              result @ '' STREAM '' @ show_nat (unat (room_streamId (snapshot r))) @
              (case pendingAction (snapshot r) of
                 Some pending \<Rightarrow> '' PENDING '' @ action_text pending
               | None \<Rightarrow>
                   case recentAction (snapshot r) of
                     Some recent \<Rightarrow> '' ACTION '' @ action_text recent
                   | None \<Rightarrow> '''')) in
      line_of result)"

section \<open>The answer to a line\<close>

definition welcome_line :: "ControlStreamState \<Rightarrow> string" where
  "welcome_line state =
     line_of (''WELCOME '' @ show_nat (unat (stream_sessionId state)) @ '' '' @
       show_nat (unat (stream_streamId state)) @ '' '' @ show_nat (unat (audioPort state)) @ '' '' @
       show_nat (unat (clockPort state)) @ '' '' @ show_nat (unat (stream_sampleRate state)) @ '' '' @
       show_nat (unat (channels state)) @ '' '' @ hostAddress state)"

definition respond_join ::
    "string \<Rightarrow> int \<Rightarrow> string \<Rightarrow> ControlStreamState \<Rightarrow> Session \<Rightarrow>
     (exn + string) \<times> ControlStreamState \<times> Session" where
  "respond_join device now peerAddress state session =
     (if \<not> validDeviceId device then (Inr (line_of ''ERROR invalid-device-id''), state, session)
      else case room state of
        None \<Rightarrow> (Inr (welcome_line state), state, session)
      | Some r \<Rightarrow>
          let r = (if joinedDeviceId session \<noteq> []
                   then leave (joinedDeviceId session) (session_token session) r else r) in
          case join device peerAddress (audioPort state) r of
            Inl e \<Rightarrow> (Inl e, state\<lparr>room := Some r\<rparr>, session)
          | Inr (token, r) \<Rightarrow>
              let state = state\<lparr>room := Some r\<rparr>;
                  session = \<lparr>joinedDeviceId = device, session_token = token\<rparr>;
                  snap = snapshot r;
                  syncAt = now + 500000000 in
              (Inr (welcome_line state @
                 line_of (''ROOM '' @ roomId snap @ '' '' @ roomName snap) @
                 line_of (''SYNC_AT '' @ show_int syncAt) @ hostStateLine state),
               state, session))"

definition member_line :: "RoomMember \<Rightarrow> string" where
  "member_line m =
     line_of (''MEMBER '' @ deviceId m @ '' '' @ connectionName (connectionState m) @ '' '' @
       show_double (roundTripMs m) @ '' '' @ show_double (packetLossPercent m) @ '' '' @
       show_double (bufferDepthMs m) @ '' '' @ show_double (outputLatencyMs m) @ '' '' @
       outputRoute m)"

definition respond_members :: "string \<Rightarrow> ControlStreamState \<Rightarrow> string" where
  "respond_members peerAddress state =
     (case room state of
        None \<Rightarrow> line_of ''ERROR host-only-command''
      | Some r \<Rightarrow>
          if peerAddress \<noteq> ''127.0.0.1'' then line_of ''ERROR host-only-command''
          else concat (map member_line (members (snapshot r))) @ line_of ''END'')"

fun parse_connection :: "string \<Rightarrow> RoomConnectionState option" where
  "parse_connection status =
     (if status = ''CONNECTED'' then Some Connected
      else if status = ''SYNCING'' then Some Syncing
      else if status = ''BUFFERING'' then Some Buffering
      else if status = ''SYNCED'' then Some Synced
      else if status = ''DEGRADED'' then Some Degraded
      else if status = ''RECONNECTING'' then Some Reconnecting
      else None)"

text \<open>Seven doubles in a row, as \<open>input >> a >> b >> ...\<close> reads them.\<close>

fun read_doubles :: "nat \<Rightarrow> string \<Rightarrow> (rat list \<times> string) option" where
  "read_doubles 0 s = Some ([], s)"
| "read_doubles (Suc n) s =
     (case read_double s of
        None \<Rightarrow> None
      | Some (x, s) \<Rightarrow>
          (case read_doubles n s of None \<Rightarrow> None | Some (xs, s) \<Rightarrow> Some (x # xs, s)))"

definition with_measurements :: "rat list \<Rightarrow> RoomMember \<Rightarrow> RoomMember" where
  "with_measurements xs m =
     m\<lparr>roundTripMs := xs ! 0, networkJitterMs := xs ! 1, packetLossPercent := xs ! 2,
       bufferDepthMs := xs ! 3, estimatedSyncErrorMs := xs ! 4, outputLatencyMs := xs ! 5,
       clockOffsetMs := xs ! 6\<rparr>"

text \<open>The optional last word of a report, the output route.\<close>

definition read_route :: "string \<Rightarrow> RoomMember \<Rightarrow> RoomMember option" where
  "read_route input updated =
     (case read_word input of
        None \<Rightarrow> Some updated
      | Some (trailing, input) \<Rightarrow>
          if trailing = [] \<or> length trailing > 32 \<or> \<not> list_all id_char trailing then None
          else if read_word input \<noteq> None then None
          else Some (updated\<lparr>outputRoute := trailing\<rparr>))"

text \<open>
  The report a member sends about itself, applied to what the room knows; \<open>None\<close> is the answer
  \<open>ERROR invalid-client-state\<close>.
\<close>

definition parse_client_state :: "string \<Rightarrow> RoomMember \<Rightarrow> RoomMember option" where
  "parse_client_state input member =
     (case read_word input of None \<Rightarrow> None | Some (status, input) \<Rightarrow>
      case read_doubles 7 input of None \<Rightarrow> None | Some (xs, input) \<Rightarrow>
      case read_route input (with_measurements xs member) of None \<Rightarrow> None | Some updated \<Rightarrow>
      if \<not> list_all (\<lambda>v. \<bar>v\<bar> \<le> 1000000) xs then None
      else case parse_connection status of None \<Rightarrow> None | Some s \<Rightarrow>
        Some (updated\<lparr>connectionState := s\<rparr>))"

declare parse_connection.simps [simp del]

definition respond_client_state ::
    "string \<Rightarrow> ControlStreamState \<Rightarrow> Session \<Rightarrow> string \<times> ControlStreamState" where
  "respond_client_state input state session =
     (case room state of
        None \<Rightarrow> (line_of ''OK'', state)
      | Some r \<Rightarrow>
          if joinedDeviceId session = [] then (line_of ''ERROR not-joined'', state)
          else
            (case find (\<lambda>m. deviceId m = joinedDeviceId session \<and>
                  membershipToken m = session_token session) (members (snapshot r)) of
               None \<Rightarrow> (line_of ''ERROR not-joined'', state)
             | Some member \<Rightarrow>
                 (case parse_client_state input member of
                    None \<Rightarrow> (line_of ''ERROR invalid-client-state'', state)
                  | Some updated \<Rightarrow>
                      let (found, r) = updateMember updated r in
                      (if found then line_of ''OK'' else line_of ''ERROR not-joined'',
                       state\<lparr>room := Some r\<rparr>))))"

datatype 'a reply = Refuse string | Accept 'a

text \<open>The action and seek position of a command line.\<close>

definition parse_command :: "string \<Rightarrow> u64 \<Rightarrow> (RoomAction \<times> u64) reply" where
  "parse_command line frames =
     (if line = ''PAUSE'' then Accept (Pause, 0)
      else if line = ''STOP'' then Accept (Stop, 0)
      else if starts_with line ''SEEK ''
      then (case parse_u64 (drop 5 line) of
              None \<Rightarrow> Refuse ''ERROR invalid-seek''
            | Some frame \<Rightarrow>
                if frames \<noteq> 0 \<and> frame \<ge> frames then Refuse ''ERROR seek-out-of-range''
                else Accept (Seek, frame))
      else Accept (Play, 0))"

definition respond_command ::
    "string \<Rightarrow> int \<Rightarrow> string \<Rightarrow> ControlStreamState \<Rightarrow> (exn + string) \<times> ControlStreamState" where
  "respond_command line now peerAddress state =
     (case room state of
        None \<Rightarrow> (Inr (line_of ''ERROR unsupported-command''), state)
      | Some r \<Rightarrow>
          if peerAddress \<noteq> ''127.0.0.1'' then (Inr (line_of ''ERROR host-only-command''), state)
          else case parse_command line (totalFrames state) of
            Refuse e \<Rightarrow> (Inr (line_of e), state)
          | Accept (act, frame) \<Rightarrow>
              let isPlaying = (playbackState (snapshot r) = Playing) in
              if act = Play \<and> isPlaying \<or> act = Pause \<and> \<not> isPlaying \<or>
                 act = Seek \<and> playbackState (snapshot r) = Stopped
              then (Inr (line_of ''ERROR invalid-state''), state)
              else
                let current = room_streamId (snapshot r);
                    nextStream = (if act = Seek
                      then (if current + 1 = 0 then 1 else current + 1) else current);
                    effective = now + 2000000000 in
                case scheduleAction \<lparr>action = act, effectiveHostNanoseconds = effective,
                    seekFrame = frame, nextStreamId = nextStream\<rparr> r of
                  Inl e \<Rightarrow> (Inl e, state)
                | Inr (False, r) \<Rightarrow> (Inr (line_of ''ERROR command-pending''), state)
                | Inr (True, r) \<Rightarrow>
                    (Inr (line_of (''SCHEDULED '' @ actionName act @ '' '' @ show_int effective @ '' '' @
                       show_nat (unat frame))), state\<lparr>room := Some r\<rparr>))"

definition responseFor ::
    "string \<Rightarrow> int \<Rightarrow> string \<Rightarrow> ControlStreamState \<Rightarrow> Session \<Rightarrow>
     (exn + string) \<times> ControlStreamState \<times> Session" where
  "responseFor line now peerAddress state session =
     (if line = ''HELLO 2'' then (Inr (line_of ''VERSION 2''), state, session)
      else if starts_with line ''HELLO ''
      then (Inr (line_of ''ERROR protocol-version''), state, session)
      else if starts_with line ''JOIN ''
      then respond_join (drop 5 line) now peerAddress state session
      else if line = ''HOST_STATE'' then (Inr (hostStateLine state), state, session)
      else if line = ''MEMBERS'' then (Inr (respond_members peerAddress state), state, session)
      else if starts_with line ''CLIENT_STATE ''
      then (let (answer, state) = respond_client_state (drop 13 line) state session in
            (Inr answer, state, session))
      else if line = ''LEAVE'' then (Inr (line_of ''BYE''), state, session)
      else if line = ''PLAY'' \<or> line = ''PAUSE'' \<or> line = ''STOP'' \<or> starts_with line ''SEEK ''
      then (let (answer, state) = respond_command line now peerAddress state in
            (answer, state, session))
      else (Inr (line_of ''ERROR unknown-command''), state, session))"

section \<open>Sessions\<close>

text \<open>
  A session thread reads one character at a time. A line ends with a newline and may hold 256
  printable characters; anything else is answered once and ends the session. \<open>sent\<close> tells whether
  \<open>sendLine\<close> got the whole answer out.
\<close>

datatype recv_result = Received char int bool | Timed_Out | Peer_Closed

record Connection =
  peerAddress :: string
  partial_line :: string
  conn_session :: Session
  conn_active :: bool

text \<open>\<open>if (!line.empty() && line.back() == '\r') line.pop_back()\<close>\<close>

definition strip_carriage_return :: "string \<Rightarrow> string" where
  "strip_carriage_return line =
     (if line \<noteq> [] \<and> last line = carriage_return then butlast line else line)"

lemma strip_printable: "list_all is_printable line \<Longrightarrow> strip_carriage_return line = line"
proof -
  assume printable: "list_all is_printable line"
  have "last line \<noteq> carriage_return" if "line \<noteq> []"
  proof -
    have "32 \<le> code (last line)"
      using printable last_in_set [OF that] by (simp add: list_all_iff is_printable_def)
    then show ?thesis by (auto simp: carriage_return_def)
  qed
  then show ?thesis by (auto simp: strip_carriage_return_def)
qed

text \<open>What every session does when its loop ends.\<close>

definition end_session :: "Connection \<Rightarrow> ControlStreamState \<Rightarrow> Connection \<times> ControlStreamState" where
  "end_session c state =
     (c\<lparr>conn_active := False\<rparr>,
      case room state of
        Some r \<Rightarrow>
          if joinedDeviceId (conn_session c) \<noteq> []
          then state\<lparr>room := Some (leave (joinedDeviceId (conn_session c))
                 (session_token (conn_session c)) r)\<rparr>
          else state
      | None \<Rightarrow> state)"

text \<open>One iteration of the loop of \<open>serveClient\<close>: the text sent, the connection and the state.\<close>

definition serve_step ::
    "recv_result \<Rightarrow> Connection \<Rightarrow> ControlStreamState \<Rightarrow> exn + string \<times> Connection \<times> ControlStreamState" where
  "serve_step received c state =
     (case received of
        Peer_Closed \<Rightarrow> Inr ([], end_session c state)
      | Timed_Out \<Rightarrow> Inr ([], c, state)
      | Received ch now sent \<Rightarrow>
          if ch = newline
          then
            let line = strip_carriage_return (partial_line c) in
            (case responseFor line now (peerAddress c) state (conn_session c) of
               (Inl e, _) \<Rightarrow> Inl e
             | (Inr response, state, session) \<Rightarrow>
                 let c = c\<lparr>conn_session := session\<rparr> in
                 if \<not> sent \<or> line = ''LEAVE''
                 then Inr (response, end_session c state)
                 else Inr (response, c\<lparr>partial_line := []\<rparr>, state))
          else if length (partial_line c) < 256 \<and> 32 \<le> code ch \<and> code ch < 127
          then Inr ([], c\<lparr>partial_line := partial_line c @ [ch]\<rparr>, state)
          else Inr (line_of ''ERROR malformed-line'', end_session c state))"

section \<open>The server\<close>

record Server =
  control :: ControlStreamState
  connections :: "Connection list"

text \<open>
  One pass of \<open>acceptLoop\<close> that accepts a connection: finished workers are removed first, and a
  connection beyond 32 is closed.
\<close>

definition accept_connection :: "string \<Rightarrow> Server \<Rightarrow> Server" where
  "accept_connection peer s =
     (let live = filter conn_active (connections s) in
      if length live \<ge> 32 then s\<lparr>connections := live\<rparr>
      else s\<lparr>connections := live @ [\<lparr>peerAddress = peer, partial_line = [],
             conn_session = new_session, conn_active = True\<rparr>]\<rparr>)"

text \<open>
  The steps of the whole: a connection arrives, a session thread runs one iteration, or the host
  changes the room. An exception from \<open>responseFor\<close> leaves its thread and would end the program: no
  step of the model.
\<close>

datatype server_step =
    Accepted string
  | Served nat recv_result
  | Hosted room_op

fun host_op :: "room_op \<Rightarrow> bool" where
  "host_op (Join _ _ _) = False"
| "host_op (Leave _ _) = False"
| "host_op (Update _) = False"
| "host_op _ = True"

fun server_exec :: "server_step \<Rightarrow> Server \<Rightarrow> exn + string \<times> Server" where
  "server_exec (Accepted peer) s = Inr ([], accept_connection peer s)"
| "server_exec (Served i received) s =
     (if i < length (connections s) \<and> conn_active (connections s ! i)
      then and_then (serve_step received (connections s ! i) (control s)) (\<lambda>(response, c, state).
        Inr (response, s\<lparr>control := state, connections := (connections s)[i := c]\<rparr>))
      else Inr ([], s))"
| "server_exec (Hosted op) s =
     (case room (control s) of
        Some r \<Rightarrow>
          if host_op op
          then Inr ([], s\<lparr>control := (control s)\<lparr>room := Some (room_exec op r)\<rparr>\<rparr>)
          else Inr ([], s)
      | None \<Rightarrow> Inr ([], s))"

section \<open>What one answer can change\<close>

text \<open>A session moves to a new device: it leaves what it had joined, then joins.\<close>

definition left_room :: "Session \<Rightarrow> Room \<Rightarrow> Room" where
  "left_room session r =
     (if joinedDeviceId session \<noteq> [] then leave (joinedDeviceId session) (session_token session) r else r)"

definition scheduled_action :: "RoomAction \<Rightarrow> int \<Rightarrow> u64 \<Rightarrow> u32 \<Rightarrow> ScheduledRoomAction" where
  "scheduled_action act now frame current =
     \<lparr>action = act, effectiveHostNanoseconds = now + 2000000000, seekFrame = frame,
      nextStreamId = (if act = Seek then (if current + 1 = 0 then 1 else current + 1) else current)\<rparr>"

lemma parse_client_state_same:
  "parse_client_state input m = Some m' \<Longrightarrow> deviceId m' = deviceId m \<and> membershipToken m' = membershipToken m"
  by (auto simp: parse_client_state_def with_measurements_def read_route_def split: option.splits if_splits)

lemma respond_join_cases:
  assumes "respond_join device now peer state session = (answer, state', session')" "room state = Some r"
  obtains (Same) "state' = state" "session' = session" "\<exists>text. answer = Inr text"
  | (Thrown) e where "answer = Inl e"
  | (Joined) t r' where "validDeviceId device" "join device peer (audioPort state) (left_room session r) = Inr (t, r')"
      "state' = state\<lparr>room := Some r'\<rparr>" "session' = \<lparr>joinedDeviceId = device, session_token = t\<rparr>"
      "\<exists>text. answer = Inr text"
proof (cases "validDeviceId device")
  case False
  with assms show thesis by (intro Same) (auto simp: respond_join_def)
next
  case True
  show thesis
  proof (cases "join device peer (audioPort state) (left_room session r)")
    case (Inl e)
    with assms True show thesis by (intro Thrown [of e]) (simp add: respond_join_def left_room_def)
  next
    case (Inr p)
    obtain t r' where p: "p = (t, r')" by fastforce
    with Inr assms True show thesis
      by (intro Joined [of t r']) (auto simp: respond_join_def left_room_def Let_def)
  qed
qed

lemma respond_client_state_cases:
  assumes "respond_client_state input state session = (text, state')" "room state = Some r"
  obtains (Same) "state' = state"
  | (Updated) m updated where "m \<in> set (members (snapshot r))" "deviceId m = joinedDeviceId session"
      "membershipToken m = session_token session" "joinedDeviceId session \<noteq> []"
      "parse_client_state input m = Some updated" "state' = state\<lparr>room := Some (snd (updateMember updated r))\<rparr>"
proof (cases "joinedDeviceId session = []")
  case True
  with assms show thesis by (intro Same) (simp add: respond_client_state_def)
next
  case False
  let ?mine = "\<lambda>m. deviceId m = joinedDeviceId session \<and> membershipToken m = session_token session"
  show thesis
  proof (cases "find ?mine (members (snapshot r))")
    case None
    with assms False show thesis by (intro Same) (simp add: respond_client_state_def)
  next
    case (Some m)
    then have m: "m \<in> set (members (snapshot r))" "?mine m"
      by (auto simp: find_Some_iff)
    show thesis
    proof (cases "parse_client_state input m")
      case None
      with assms False Some show thesis by (intro Same) (simp add: respond_client_state_def)
    next
      case updated: (Some updated)
      with assms False Some m show thesis
        by (intro Updated [of m updated]) (auto simp: respond_client_state_def split: prod.splits)
    qed
  qed
qed

text \<open>A command that is well-formed and fits the playback state is scheduled, if the room takes it.\<close>

lemma respond_command_valid:
  assumes "room state = Some r" "peer = ''127.0.0.1''" "parse_command line (totalFrames state) = Accept (act, frame)"
    and "\<not> (act = Play \<and> playbackState (room_state r) = Playing \<or>
        act = Pause \<and> playbackState (room_state r) \<noteq> Playing \<or>
        act = Seek \<and> playbackState (room_state r) = Stopped)"
  shows "respond_command line now peer state =
    (case scheduleAction (scheduled_action act now frame (room_streamId (room_state r))) r of
       Inl e \<Rightarrow> (Inl e, state)
     | Inr (False, r) \<Rightarrow> (Inr (line_of ''ERROR command-pending''), state)
     | Inr (True, r) \<Rightarrow>
         (Inr (line_of (''SCHEDULED '' @ actionName act @ '' '' @ show_int (now + 2000000000) @ '' '' @
            show_nat (unat frame))), state\<lparr>room := Some r\<rparr>))"
  using assms by (auto simp: respond_command_def snapshot_def Let_def scheduled_action_def)

lemma respond_command_cases:
  assumes "respond_command line now peer state = (answer, state')" "room state = Some r"
  obtains (Same) "state' = state"
  | (Scheduled) act frame r' where "peer = ''127.0.0.1''"
      "parse_command line (totalFrames state) = Accept (act, frame)"
      "act = Play \<Longrightarrow> playbackState (room_state r) \<noteq> Playing"
      "act = Pause \<Longrightarrow> playbackState (room_state r) = Playing"
      "act = Seek \<Longrightarrow> playbackState (room_state r) \<noteq> Stopped"
      "scheduleAction (scheduled_action act now frame (room_streamId (room_state r))) r = Inr (True, r')"
      "state' = state\<lparr>room := Some r'\<rparr>"
      "answer = Inr (line_of (''SCHEDULED '' @ actionName act @ '' '' @ show_int (now + 2000000000) @
        '' '' @ show_nat (unat frame)))"
proof (cases "peer = ''127.0.0.1''")
  case False
  with assms show thesis by (intro Same) (simp add: respond_command_def)
next
  case peer: True
  show thesis
  proof (cases "parse_command line (totalFrames state)")
    case (Refuse e)
    with assms peer show thesis by (intro Same) (simp add: respond_command_def)
  next
    case (Accept p)
    obtain act frame where p: "p = (act, frame)" by fastforce
    let ?a = "scheduled_action act now frame (room_streamId (room_state r))"
    show thesis
    proof (cases "act = Play \<and> playbackState (room_state r) = Playing \<or>
        act = Pause \<and> playbackState (room_state r) \<noteq> Playing \<or>
        act = Seek \<and> playbackState (room_state r) = Stopped")
      case True
      with assms peer Accept p show thesis
        by (intro Same) (auto simp: respond_command_def snapshot_def Let_def)
    next
      case False
      note eq = respond_command_valid [OF assms(2) peer Accept [unfolded p] this]
      show thesis
      proof (cases "\<exists>r'. scheduleAction ?a r = Inr (True, r')")
        case True
        then obtain r' where "scheduleAction ?a r = Inr (True, r')" by blast
        with eq assms(1) peer Accept p False show thesis
          by (intro Scheduled [of act frame r']) auto
      next
        case False
        with eq assms(1) show thesis
          by (intro Same) (auto split: sum.splits bool.splits)
      qed
    qed
  qed
qed

definition command_line :: "string \<Rightarrow> bool" where
  "command_line line \<longleftrightarrow>
     line = ''PLAY'' \<or> line = ''PAUSE'' \<or> line = ''STOP'' \<or> starts_with line ''SEEK ''"

lemma responseFor_dispatch:
  assumes "responseFor line now peer state session = (Inr text, state', session')"
  obtains (join) device where "line = ''JOIN '' @ device"
      "respond_join device now peer state session = (Inr text, state', session')"
  | (client) input where "line = ''CLIENT_STATE '' @ input"
      "respond_client_state input state session = (text, state')" "session' = session"
  | (command) "command_line line" "respond_command line now peer state = (Inr text, state')"
      "session' = session"
  | (other) "state' = state" "session' = session"
proof -
  consider (j) device where "line = ''JOIN '' @ device"
    | (c) input where "line = ''CLIENT_STATE '' @ input"
    | (cmd) "command_line line" "\<not> starts_with line ''JOIN ''" "\<not> starts_with line ''CLIENT_STATE ''"
    | (o) "\<not> command_line line" "\<not> starts_with line ''JOIN ''" "\<not> starts_with line ''CLIENT_STATE ''"
    by (metis starts_with_iff)
  then show thesis
  proof cases
    case j
    with assms show thesis by (intro join [OF j]) (simp add: responseFor_def starts_with_def)
  next
    case c
    with assms show thesis
      by (intro client [OF c]) (simp_all add: responseFor_def starts_with_def split: prod.splits)
  next
    case cmd
    have "line \<noteq> ''HELLO 2''" "\<not> starts_with line ''HELLO ''" "line \<noteq> ''HOST_STATE''"
      "line \<noteq> ''MEMBERS''" "line \<noteq> ''LEAVE''"
      using cmd(1) by (auto simp: command_line_def starts_with_iff)
    with assms cmd show thesis
      by (intro command) (simp_all add: responseFor_def command_line_def [symmetric] split: prod.splits)
  next
    case o
    with assms show thesis
      by (intro other) (simp_all add: responseFor_def command_line_def [symmetric] split: if_splits)
  qed
qed

text \<open>All an answer can do to the room and the session, over every command of the protocol.\<close>

lemma responseFor_cases:
  assumes "responseFor line now peer state session = (Inr text, state', session')" "room state = Some r"
  obtains (Same) "state' = state" "session' = session"
  | (Joined) device t r' where "line = ''JOIN '' @ device" "validDeviceId device"
      "join device peer (audioPort state) (left_room session r) = Inr (t, r')"
      "state' = state\<lparr>room := Some r'\<rparr>" "session' = \<lparr>joinedDeviceId = device, session_token = t\<rparr>"
  | (Updated) input m updated where "line = ''CLIENT_STATE '' @ input"
      "m \<in> set (members (snapshot r))" "deviceId m = joinedDeviceId session"
      "membershipToken m = session_token session" "joinedDeviceId session \<noteq> []"
      "parse_client_state input m = Some updated" "state' = state\<lparr>room := Some (snd (updateMember updated r))\<rparr>"
      "session' = session"
  | (Scheduled) act frame r' where "peer = ''127.0.0.1''" "command_line line"
      "parse_command line (totalFrames state) = Accept (act, frame)"
      "act = Play \<Longrightarrow> playbackState (room_state r) \<noteq> Playing"
      "act = Pause \<Longrightarrow> playbackState (room_state r) = Playing"
      "act = Seek \<Longrightarrow> playbackState (room_state r) \<noteq> Stopped"
      "scheduleAction (scheduled_action act now frame (room_streamId (room_state r))) r = Inr (True, r')"
      "state' = state\<lparr>room := Some r'\<rparr>" "session' = session"
  using assms(1)
proof (cases rule: responseFor_dispatch)
  case (join device)
  from join(2) assms(2) show thesis
  proof (cases rule: respond_join_cases)
    case Same
    show thesis by (rule that(1)) (rule Same)+
  next
    case (Joined t r')
    show thesis by (rule that(2)) (rule join(1) Joined)+
  qed simp
next
  case (client input)
  from client(2) assms(2) show thesis
  proof (cases rule: respond_client_state_cases)
    case Same
    show thesis by (rule that(1)) (rule Same client)+
  next
    case (Updated m updated)
    show thesis by (rule that(3)) (rule client(1,3) Updated)+
  qed
next
  case command
  from command(2) assms(2) show thesis
  proof (cases rule: respond_command_cases)
    case Same
    show thesis by (rule that(1)) (rule Same command)+
  next
    case (Scheduled act frame r')
    show thesis by (rule that(4)) (erule Scheduled | rule command(1,3) Scheduled)+
  qed
next
  case other
  then show thesis by (rule that(1))
qed

section \<open>Invariant of the server\<close>

definition covered :: "('d \<Rightarrow> 't option) \<Rightarrow> ('d \<times> 't) set \<Rightarrow> bool" where
  "covered f S \<longleftrightarrow> (\<forall>d t. f d = Some t \<longrightarrow> (d, t) \<in> S)"

text \<open>
  Which memberships the sessions account for: entering adds one, departing takes its own away.
\<close>

context membership begin

lemma covered_enter:
  assumes "ok r" "covered (token_of r) S" "enter d a p r = Inr (t, r')"
  shows "covered (token_of r') (insert (d, t) S)"
  using assms(2) unfolding enter_token [OF assms(1,3)] covered_def by simp

lemma covered_depart:
  assumes "ok r" "covered (token_of r) (insert (d, t) S)"
  shows "covered (token_of (depart d t r)) S"
proof (cases "token_of r d = Some t")
  case True
  then show ?thesis
    using assms(2) unfolding covered_def depart_token [OF assms(1)] by auto
next
  case False
  then have "covered (token_of r) S"
    using assms(2) unfolding covered_def by blast
  then show ?thesis using False by (simp add: stale_depart [OF assms(1)])
qed

end

definition member_sane :: "RoomMember \<Rightarrow> bool" where
  "member_sane m \<longleftrightarrow> validDeviceId (deviceId m) \<and>
     outputRoute m \<noteq> [] \<and> length (outputRoute m) \<le> 32 \<and> list_all id_char (outputRoute m) \<and>
     list_all (\<lambda>v. \<bar>v\<bar> \<le> 1000000) [roundTripMs m, networkJitterMs m, packetLossPercent m,
       bufferDepthMs m, estimatedSyncErrorMs m, outputLatencyMs m, clockOffsetMs m]"

definition session_key :: "Session \<Rightarrow> string \<times> u64" where
  "session_key s = (joinedDeviceId s, session_token s)"

definition sessions :: "Connection list \<Rightarrow> (string \<times> u64) set" where
  "sessions cs = {session_key (conn_session (cs ! j)) | j. j < length cs \<and> conn_active (cs ! j)}"

definition room_served :: "Room \<Rightarrow> (string \<times> u64) set \<Rightarrow> bool" where
  "room_served r S \<longleftrightarrow> room_ok r \<and> covered (token_of r) S \<and>
     (\<forall>(d, m) \<in> set (room_members r). member_sane m)"

definition control_ok :: "ControlStreamState \<Rightarrow> (string \<times> u64) set \<Rightarrow> bool" where
  "control_ok state S \<longleftrightarrow> (\<forall>r. room state = Some r \<longrightarrow> room_served r S)"

lemma room_served_members_ok: "room_served r S \<Longrightarrow> members_ok r"
  by (simp add: room_served_def room_ok_def)

lemma room_served_device:
  assumes "room_served r S" "token_of r d = Some t"
  shows "d \<noteq> []"
proof -
  obtain m where m: "(d, m) \<in> set (room_members r)"
    using assms by (auto simp: token_of_Some [OF room_served_members_ok])
  then have "member_sane m" "deviceId m = d"
    using assms(1) members_okD(1) [OF room_served_members_ok m] by (auto simp: room_served_def)
  then show ?thesis by (auto simp: member_sane_def validDeviceId_def)
qed

lemma room_served_no_device:
  "room_served r (insert ([], t) S) \<Longrightarrow> room_served r S"
  using room_served_device [of r "insert ([], t) S"]
  unfolding room_served_def covered_def by blast

lemma leave_members: "set (room_members (leave d t r)) \<subseteq> set (room_members r)"
  by (auto simp: leave_def map_erase_def split: option.split)

lemma leave_room_ok: "room_ok r \<Longrightarrow> room_ok (leave d t r)"
  by (simp add: room_ok_def leave_ok)

lemma leave_next: "nextMembershipToken (leave d t r) = nextMembershipToken r"
  by (simp add: leave_def split: option.split)

lemma leave_served:
  assumes "room_served r (insert (session_key s) S)" "joinedDeviceId s \<noteq> []"
  shows "room_served (leave (joinedDeviceId s) (session_token s) r) S"
proof -
  have "covered (token_of (leave (joinedDeviceId s) (session_token s) r)) S"
    using tokens.covered_depart [OF room_served_members_ok [OF assms(1)]] assms(1)
    by (simp add: room_served_def session_key_def)
  moreover have "\<forall>(d, m) \<in> set (room_members (leave (joinedDeviceId s) (session_token s) r)). member_sane m"
    using assms(1) leave_members [of "joinedDeviceId s" "session_token s" r]
    unfolding room_served_def by blast
  ultimately show ?thesis using assms(1) by (simp add: room_served_def leave_room_ok)
qed

lemma left_room_served:
  "room_served r (insert (session_key s) S) \<Longrightarrow> room_served (left_room s r) S"
  using leave_served room_served_no_device by (auto simp: left_room_def session_key_def)

lemma join_served:
  assumes "room_served r S" "validDeviceId d" "join d a p r = Inr (t, r')"
    and "nextMembershipToken r \<noteq> u64_max"
  shows "room_served r' (insert (d, t) S)"
proof -
  note mok = room_served_members_ok [OF assms(1)]
  have "room_ok r'"
    using room_exec_ok [of r "Join d a p"] assms by (simp add: room_served_def)
  moreover have r': "room_members r' = insert_or_assign d (RoomMember_new d a p t) (room_members r)"
    using assms(3) by (auto simp: join_def Let_def split: if_splits)
  moreover have "member_sane (RoomMember_new d a p t)"
    using assms(2)
    by (simp add: member_sane_def RoomMember_new_def id_char_def is_alnum_def is_digit_def code_def)
  moreover have "distinct (map fst (room_members r))" using mok by (simp add: members_ok_def)
  ultimately show ?thesis
    using assms(1) tokens.covered_enter [OF mok _ assms(3), of S]
    by (auto simp: room_served_def set_insert_or_assign)
qed

lemma read_doubles_length: "read_doubles n s = Some (xs, rest) \<Longrightarrow> length xs = n"
  by (induction n arbitrary: s xs) (auto split: option.splits)

lemma read_route_sane:
  assumes "read_route input m = Some m'"
  shows "\<exists>route. m' = m\<lparr>outputRoute := route\<rparr> \<and>
    (route = outputRoute m \<or> route \<noteq> [] \<and> length route \<le> 32 \<and> list_all id_char route)"
proof (cases "read_word input")
  case None
  then show ?thesis using assms by (intro exI [of _ "outputRoute m"]) (simp add: read_route_def)
next
  case (Some p)
  then show ?thesis using assms by (cases p) (auto simp: read_route_def split: if_splits)
qed

lemma parse_client_state_sane:
  assumes "parse_client_state input m = Some m'" "member_sane m"
  shows "member_sane m'"
proof -
  obtain rest xs rest' updated c where xs: "read_doubles 7 rest = Some (xs, rest')"
    "list_all (\<lambda>v. \<bar>v\<bar> \<le> 1000000) xs" "read_route rest' (with_measurements xs m) = Some updated"
    "m' = updated\<lparr>connectionState := c\<rparr>"
    using assms(1) by (auto simp: parse_client_state_def split: option.splits if_splits)
  obtain route where route: "updated = (with_measurements xs m)\<lparr>outputRoute := route\<rparr>"
    "route = outputRoute (with_measurements xs m) \<or>
      route \<noteq> [] \<and> length route \<le> 32 \<and> list_all id_char route"
    using read_route_sane [OF xs(3)] by blast
  have "length xs = 7" using read_doubles_length [OF xs(1)] .
  then have bounded: "\<bar>xs ! i\<bar> \<le> 1000000" if "i < 7" for i
    using xs(2) that by (simp add: list_all_length)
  have "outputRoute (with_measurements xs m) = outputRoute m" "deviceId (with_measurements xs m) = deviceId m"
    by (simp_all add: with_measurements_def)
  then have "route \<noteq> [] \<and> length route \<le> 32 \<and> list_all id_char route"
    using route(2) assms(2) by (auto simp: member_sane_def)
  then show ?thesis
    using assms(2) bounded unfolding xs(4) route(1)
    by (simp add: with_measurements_def member_sane_def)
qed

lemma updateMember_served:
  assumes "room_served r S" "member_sane m" "nextMembershipToken r \<noteq> u64_max"
  shows "room_served (snd (updateMember m r)) S"
proof -
  have "room_ok (snd (updateMember m r))"
    using room_exec_ok [of r "Update m"] assms by (simp add: room_served_def)
  moreover have "distinct (map fst (room_members r))"
    using room_served_members_ok [OF assms(1)] by (simp add: members_ok_def)
  then have "set (room_members (snd (updateMember m r))) \<subseteq>
      insert (deviceId m, m) (set (room_members r))"
    by (auto simp: updateMember_def set_insert_or_assign split: option.split)
  then have "\<forall>(d, m') \<in> set (room_members (snd (updateMember m r))). member_sane m'"
    using assms(1,2) unfolding room_served_def by blast
  ultimately show ?thesis using assms(1) by (simp add: room_served_def token_of_update)
qed

lemma scheduleAction_served:
  assumes "room_served r S" "scheduleAction a r = Inr (b, r')" "nextMembershipToken r \<noteq> u64_max"
  shows "room_served r' S"
proof -
  have "room_ok r'" using room_exec_ok [of r "Schedule a"] assms by (simp add: room_served_def)
  moreover have "room_members r' = room_members r"
    using assms(2) by (auto simp: scheduleAction_def split: if_splits)
  ultimately show ?thesis
    using assms(1) by (simp add: room_served_def token_of_def fun_eq_iff find_member_def covered_def)
qed

lemma left_room_next: "nextMembershipToken (left_room session r) = nextMembershipToken r"
  by (simp add: left_room_def leave_next)

definition tokens_left :: "ControlStreamState \<Rightarrow> bool" where
  "tokens_left state \<longleftrightarrow> (\<forall>r. room state = Some r \<longrightarrow> nextMembershipToken r \<noteq> u64_max)"

lemma responseFor_no_room:
  assumes "responseFor line now peer state session = (Inr text, state', session')" "room state = None"
  shows "state' = state \<and> session' = session"
  using assms(1)
  by (cases rule: responseFor_dispatch)
    (use assms(2) in \<open>auto simp: respond_join_def respond_client_state_def respond_command_def
      split: if_splits\<close>)

lemma responseFor_ok:
  assumes ok: "control_ok state (insert (session_key session) S)" and left: "tokens_left state"
    and answer: "responseFor line now peer state session = (Inr text, state', session')"
  shows "control_ok state' (insert (session_key session') S)"
proof (cases "room state")
  case None
  with responseFor_no_room [OF answer] ok show ?thesis by simp
next
  case (Some r)
  have served: "room_served r (insert (session_key session) S)" "nextMembershipToken r \<noteq> u64_max"
    using ok left Some by (simp_all add: control_ok_def tokens_left_def)
  from answer Some show ?thesis
  proof (cases rule: responseFor_cases)
    case Same
    with ok show ?thesis by simp
  next
    case (Joined device t r')
    have "room_served r' (insert (device, t) S)"
      using join_served [OF left_room_served [OF served(1)] Joined(2,3)] served(2)
      by (simp add: left_room_next)
    with Joined show ?thesis by (simp add: control_ok_def session_key_def)
  next
    case (Updated input m updated)
    have "member_sane m"
      using Updated(2) served(1) by (auto simp: room_served_def snapshot_def)
    then have "member_sane updated" using parse_client_state_sane Updated(6) by blast
    with updateMember_served [OF served(1) _ served(2)] Updated show ?thesis
      by (simp add: control_ok_def)
  next
    case (Scheduled act frame r')
    with scheduleAction_served [OF served(1) Scheduled(7) served(2)] show ?thesis
      by (simp add: control_ok_def)
  qed
qed

lemma end_session_ok:
  assumes "control_ok state (insert (session_key (conn_session c)) S)"
  shows "control_ok (snd (end_session c state)) S"
proof (cases "room state")
  case None
  then show ?thesis by (simp add: end_session_def control_ok_def)
next
  case (Some r)
  with assms have served: "room_served r (insert (session_key (conn_session c)) S)"
    by (simp add: control_ok_def)
  show ?thesis
  proof (cases "joinedDeviceId (conn_session c) = []")
    case True
    with served have "room_served r S"
      using room_served_no_device by (simp add: session_key_def)
    with Some True show ?thesis by (simp add: end_session_def control_ok_def)
  next
    case False
    with leave_served [OF served] Some show ?thesis by (simp add: end_session_def control_ok_def)
  qed
qed

definition connection_ok :: "Connection \<Rightarrow> bool" where
  "connection_ok c \<longleftrightarrow> length (partial_line c) \<le> 256 \<and> list_all is_printable (partial_line c)"

text \<open>After a step of a session: what its memberships cover, and its line.\<close>

definition session_after :: "Connection \<Rightarrow> (string \<times> u64) set \<Rightarrow> (string \<times> u64) set" where
  "session_after c S = (if conn_active c then insert (session_key (conn_session c)) S else S)"

lemma end_session_fst: "fst (end_session c state) = c\<lparr>conn_active := False\<rparr>"
  by (simp add: end_session_def)

lemma serve_step_end:
  "serve_step Peer_Closed c state = Inr ([], end_session c state)"
  "ch \<noteq> newline \<Longrightarrow> \<not> (length (partial_line c) < 256 \<and> 32 \<le> code ch \<and> code ch < 127) \<Longrightarrow>
    serve_step (Received ch now sent) c state =
      Inr (line_of ''ERROR malformed-line'', end_session c state)"
  unfolding serve_step_def by (simp, simp only: recv_result.case if_False)

lemma serve_step_continue:
  "serve_step Timed_Out c state = Inr ([], c, state)"
  "ch \<noteq> newline \<Longrightarrow> length (partial_line c) < 256 \<and> 32 \<le> code ch \<and> code ch < 127 \<Longrightarrow>
    serve_step (Received ch now sent) c state =
      Inr ([], c\<lparr>partial_line := partial_line c @ [ch]\<rparr>, state)"
  unfolding serve_step_def by simp_all

lemma serve_step_line:
  "serve_step (Received newline now sent) c state =
    (case responseFor (strip_carriage_return (partial_line c)) now (peerAddress c) state (conn_session c) of
       (Inl e, _) \<Rightarrow> Inl e
     | (Inr response, state, session) \<Rightarrow>
         if \<not> sent \<or> strip_carriage_return (partial_line c) = ''LEAVE''
         then Inr (response, end_session (c\<lparr>conn_session := session\<rparr>) state)
         else Inr (response, c\<lparr>conn_session := session, partial_line := []\<rparr>, state))"
  unfolding serve_step_def Let_def by (simp cong: if_cong)

lemma ended_ok:
  assumes "control_ok state (insert (session_key (conn_session c)) S)" "connection_ok c"
    and "(c', state') = end_session c state"
  shows "control_ok state' (session_after c' S) \<and> connection_ok c'"
proof -
  have "c' = fst (end_session c state)" "state' = snd (end_session c state)"
    using assms(3) by (metis fst_conv, metis snd_conv)
  then show ?thesis
    using end_session_ok [OF assms(1)] assms(2)
    by (simp add: session_after_def end_session_fst connection_ok_def)
qed

lemma serve_step_ok:
  assumes ok: "control_ok state (insert (session_key (conn_session c)) S)" and left: "tokens_left state"
    and c: "conn_active c" "connection_ok c"
    and result: "serve_step received c state = Inr (text, c', state')"
  shows "control_ok state' (session_after c' S) \<and> connection_ok c'"
proof (cases received)
  case Peer_Closed
  then show ?thesis
    using result by (intro ended_ok [OF ok c(2)]) (simp add: serve_step_end)
next
  case Timed_Out
  with result ok c show ?thesis by (auto simp: serve_step_continue session_after_def)
next
  case (Received ch now sent)
  show ?thesis
  proof (cases "ch = newline")
    case False
    show ?thesis
    proof (cases "length (partial_line c) < 256 \<and> 32 \<le> code ch \<and> code ch < 127")
      case True
      with False result Received have "c' = c\<lparr>partial_line := partial_line c @ [ch]\<rparr>" "state' = state"
        by (simp_all add: serve_step_continue)
      then show ?thesis
        using True ok c by (simp add: session_after_def connection_ok_def is_printable_def)
    next
      case bad: False
      show ?thesis
        using result unfolding Received serve_step_end(2) [OF False bad]
        by (intro ended_ok [OF ok c(2)]) simp
    qed
  next
    case True
    define l where "l = strip_carriage_return (partial_line c)"
    obtain answer state1 session1 where answer: "responseFor l now (peerAddress c) state (conn_session c)
        = (answer, state1, session1)" by (metis prod_cases3)
    show ?thesis
    proof (cases answer)
      case (Inl e)
      with result answer show ?thesis
        unfolding Received True serve_step_line l_def [symmetric] by simp
    next
      case (Inr response)
      let ?c1 = "c\<lparr>conn_session := session1\<rparr>"
      have ok1: "control_ok state1 (insert (session_key (conn_session ?c1)) S)"
        using responseFor_ok [OF ok left] answer Inr by simp
      have c1: "connection_ok ?c1" using c by (simp add: connection_ok_def)
      note result' = result [unfolded Received True serve_step_line l_def [symmetric] answer Inr]
      show ?thesis
      proof (cases "\<not> sent \<or> l = ''LEAVE''")
        case True
        then show ?thesis
          using result' by (intro ended_ok [OF ok1 c1]) simp
      next
        case False
        then have "c' = ?c1\<lparr>partial_line := []\<rparr>" "state' = state1"
          using result' by (simp_all add: Let_def)
        then show ?thesis using ok1 c by (simp add: session_after_def connection_ok_def)
      qed
    qed
  qed
qed

lemma sessions_update:
  assumes "i < length cs" "conn_active (cs ! i)"
  obtains S where "sessions cs = insert (session_key (conn_session (cs ! i))) S"
    "\<And>c. sessions (cs[i := c]) = session_after c S"
proof
  let ?S = "{session_key (conn_session (cs ! j)) | j. j < length cs \<and> j \<noteq> i \<and> conn_active (cs ! j)}"
  show "sessions cs = insert (session_key (conn_session (cs ! i))) ?S"
    using assms by (auto simp: sessions_def)
  show "sessions (cs[i := c]) = session_after c ?S" for c
    using assms(1) by (auto simp: sessions_def session_after_def nth_list_update)
qed

lemma sessions_alt: "sessions cs = (\<lambda>c. session_key (conn_session c)) ` {c \<in> set cs. conn_active c}"
  by (auto simp: sessions_def set_conv_nth)

definition server_ok :: "Server \<Rightarrow> bool" where
  "server_ok s \<longleftrightarrow> control_ok (control s) (sessions (connections s)) \<and>
     length (connections s) \<le> 32 \<and> (\<forall>c \<in> set (connections s). connection_ok c)"

inductive server_reachable :: "Server \<Rightarrow> bool" where
  new: "Room_new ident name host session stream = Inr r \<Longrightarrow>
    server_reachable \<lparr>control = state\<lparr>room := Some r\<rparr>, connections = []\<rparr>"
| step: "server_reachable s \<Longrightarrow> tokens_left (control s) \<Longrightarrow> server_exec st s = Inr (text, s') \<Longrightarrow>
    server_reachable s'"

lemma accept_ok: "server_ok s \<Longrightarrow> server_ok (accept_connection peer s)"
proof -
  assume ok: "server_ok s"
  let ?live = "filter conn_active (connections s)"
  let ?new = "\<lparr>peerAddress = peer, partial_line = [], conn_session = new_session, conn_active = True\<rparr>"
  have "sessions (connections s) \<subseteq> sessions (?live @ [?new])" "sessions ?live = sessions (connections s)"
    by (auto simp: sessions_alt)
  then have "control_ok (control s) (sessions (?live @ [?new]))" "control_ok (control s) (sessions ?live)"
    using ok by (auto simp: server_ok_def control_ok_def room_served_def covered_def)
  moreover have "length ?live \<le> 32"
    using ok length_filter_le [of conn_active "connections s"] unfolding server_ok_def by linarith
  ultimately show ?thesis
    using ok by (auto simp: server_ok_def accept_connection_def Let_def connection_ok_def)
qed

lemma served_ok:
  assumes ok: "server_ok s" and left: "tokens_left (control s)"
    and i: "i < length (connections s)" "conn_active (connections s ! i)"
    and result: "serve_step received (connections s ! i) (control s) = Inr (text, c, state)"
  shows "server_ok (s\<lparr>control := state, connections := (connections s)[i := c]\<rparr>)"
proof -
  obtain S where S: "sessions (connections s) = insert (session_key (conn_session (connections s ! i))) S"
    "\<And>c. sessions ((connections s)[i := c]) = session_after c S"
    using sessions_update [OF i] by blast
  have "control_ok (control s) (insert (session_key (conn_session (connections s ! i))) S)"
    "connection_ok (connections s ! i)"
    using ok i(1) S(1) by (auto simp: server_ok_def)
  from serve_step_ok [OF this(1) left i(2) this(2) result] show ?thesis
    using ok by (auto simp: server_ok_def S(2) dest: set_update_subset_insert [THEN subsetD])
qed

lemma hosted_ok:
  assumes "server_ok s" "tokens_left (control s)" "room (control s) = Some r" "host_op op"
  shows "server_ok (s\<lparr>control := (control s)\<lparr>room := Some (room_exec op r)\<rparr>\<rparr>)"
proof -
  have served: "room_served r (sessions (connections s))" and left: "nextMembershipToken r \<noteq> u64_max"
    using assms(1-3) by (simp_all add: server_ok_def control_ok_def tokens_left_def)
  have "room_members (room_exec op r) = room_members r"
    using assms(4)
    by (cases op) (auto simp: setPlaybackState_def setStreamId_def scheduleAction_def takeAction_def
        Let_def split: sum.split)
  moreover have "room_ok (room_exec op r)"
    using room_exec_ok served left by (simp add: room_served_def)
  ultimately have "room_served (room_exec op r) (sessions (connections s))"
    using served by (simp add: room_served_def token_of_def fun_eq_iff find_member_def covered_def)
  then show ?thesis using assms(1) by (simp add: server_ok_def control_ok_def)
qed

lemma server_exec_ok:
  assumes "server_ok s" "tokens_left (control s)" "server_exec st s = Inr (text, s')"
  shows "server_ok s'"
proof (cases st)
  case (Accepted peer)
  with assms show ?thesis by (auto simp: accept_ok)
next
  case (Served i received)
  with assms show ?thesis by (auto simp: res_simps served_ok split: if_splits)
next
  case (Hosted op)
  with assms show ?thesis by (auto simp: hosted_ok split: option.splits if_splits)
qed

lemma server_reachable_ok: "server_reachable s \<Longrightarrow> server_ok s"
proof (induction rule: server_reachable.induct)
  case (new ident name host session stream r state)
  then have "room_ok r" "room_members r = []"
    using room_new_ok by (auto simp: Room_new_def split: if_splits)
  then show ?case
    by (auto simp: server_ok_def control_ok_def room_served_def covered_def token_of_def find_member_def)
qed (rule server_exec_ok)

section \<open>Properties\<close>

definition example_control :: ControlStreamState where
  "example_control = \<lparr>stream_sessionId = 9, stream_streamId = 1, audioPort = 40100,
     clockPort = 40101, hostAddress = ''10.0.0.1'', stream_sampleRate = 48000, channels = 2,
     totalFrames = 1000, currentFrame = 0, playing = False, room = Some example_room\<rparr>"

definition example_server :: Server where
  "example_server = \<lparr>control = example_control, connections = []\<rparr>"

lemma example_server_reachable: "server_reachable example_server"
  using server_reachable.new [OF example_room_new, of example_control]
  by (simp add: example_server_def example_control_def)

text \<open>A phone connects, and its session holds a complete \<open>JOIN\<close> line.\<close>

definition example_line :: string where
  "example_line = ''JOIN phone''"

definition typed :: "string \<Rightarrow> string \<Rightarrow> Server" where
  "typed peer str = \<lparr>control = example_control, connections =
     [\<lparr>peerAddress = peer, partial_line = str, conn_session = new_session, conn_active = True\<rparr>]\<rparr>"

lemma typed_reachable:
  assumes "length str \<le> 256" "list_all is_printable str"
  shows "server_reachable (typed peer str)"
  using assms
proof (induction str rule: rev_induct)
  case Nil
  have "server_exec (Accepted peer) example_server = Inr ([], typed peer [])"
    by (simp add: accept_connection_def example_server_def typed_def)
  then show ?case
    by (rule server_reachable.step [OF example_server_reachable, rotated])
      (simp add: tokens_left_def example_server_def example_control_def example_room_def)
next
  case (snoc ch str)
  then have ch: "32 \<le> code ch \<and> code ch < 127" "length str < 256" by (auto simp: is_printable_def)
  then have "ch \<noteq> newline" by (auto simp: newline_def)
  then have "server_exec (Served 0 (Received ch 0 True)) (typed peer str) =
      Inr ([], typed peer (str @ [ch]))"
    using ch by (simp add: typed_def serve_step_continue)
  moreover have "server_reachable (typed peer str)" using snoc by simp
  ultimately show ?case
    by (rule server_reachable.step [rotated 2])
      (simp add: tokens_left_def typed_def example_control_def example_room_def)
qed

definition example_joined_server :: Server where
  "example_joined_server = \<lparr>control = example_control\<lparr>room := Some
       (example_room\<lparr>nextMembershipToken := 2, room_members :=
          [(''phone'', RoomMember_new ''phone'' ''10.0.0.2'' 40100 1)]\<rparr>)\<rparr>,
     connections = [\<lparr>peerAddress = ''10.0.0.2'', partial_line = [],
       conn_session = \<lparr>joinedDeviceId = ''phone'', session_token = 1\<rparr>, conn_active = True\<rparr>]\<rparr>"

lemma example_joined_server_reachable: "server_reachable example_joined_server"
proof -
  have line: "strip_carriage_return ''JOIN phone'' = ''JOIN phone''"
    by (rule strip_printable) (simp add: is_printable_def code_def)
  have valid: "validDeviceId ''phone''"
    by (simp add: validDeviceId_def id_char_def is_alnum_def is_digit_def code_def)
  have "\<exists>answer. server_exec (Served 0 (Received newline 0 True)) (typed ''10.0.0.2'' ''JOIN phone'')
      = Inr (answer, example_joined_server)"
    using valid
    by (simp add: typed_def serve_step_line line responseFor_def starts_with_def respond_join_def
        new_session_def example_control_def join_def example_room_def Let_def example_joined_server_def)
  then obtain answer where exec: "server_exec (Served 0 (Received newline 0 True))
      (typed ''10.0.0.2'' ''JOIN phone'') = Inr (answer, example_joined_server)" ..
  have "server_reachable (typed ''10.0.0.2'' ''JOIN phone'')"
    by (rule typed_reachable) (simp_all add: is_printable_def code_def)
  then show ?thesis
    by (rule server_reachable.step [OF _ _ exec])
      (simp add: tokens_left_def typed_def example_control_def example_room_def)
qed



text \<open>What a session of another machine leaves alone: everything but the member list.\<close>

lemma end_session_state:
  assumes "room state = Some r"
  shows "\<exists>r'. room (snd (end_session c state)) = Some r' \<and> room_state r' = room_state r"
  using assms by (simp add: end_session_def)

lemma left_room_state [simp]: "room_state (left_room session r) = room_state r"
  by (simp add: left_room_def)

lemma responseFor_remote:
  assumes "responseFor line now peer state session = (Inr answer, state', session')"
    and "room state = Some r" "peer \<noteq> ''127.0.0.1''"
  shows "\<exists>r'. room state' = Some r' \<and> room_state r' = room_state r"
  using assms(1,2)
proof (cases rule: responseFor_cases)
  case Same
  with assms(2) show ?thesis by simp
next
  case (Joined device t r')
  then show ?thesis using join_state [OF Joined(3)] by simp
next
  case (Updated input m updated)
  then show ?thesis by simp
next
  case (Scheduled act frame r')
  with assms(3) show ?thesis by simp
qed

text \<open>
  C25. Only the host's own machine controls playback: whatever a session of another address sends,
  and however it ends, the room keeps its identity, playback state, stream and scheduled actions.
\<close>

theorem remote_sessions_cannot_control:
  assumes "server_exec (Served i received) s = Inr (answer, s')" "room (control s) = Some r"
    and "i < length (connections s)" "peerAddress (connections s ! i) \<noteq> ''127.0.0.1''"
  shows "\<exists>r'. room (control s') = Some r' \<and> room_state r' = room_state r"
proof (cases "conn_active (connections s ! i)")
  case False
  with assms show ?thesis by auto
next
  case True
  let ?c = "connections s ! i"
  obtain c state where step: "serve_step received ?c (control s) = Inr (answer, c, state)"
    and s': "control s' = state"
    using assms(1,3) True by (auto simp: res_simps)
  have "\<exists>r'. room state = Some r' \<and> room_state r' = room_state r"
  proof (cases received)
    case Peer_Closed
    have "state = snd (end_session ?c (control s))"
      using step unfolding Peer_Closed serve_step_end by (metis Inr_inject Pair_inject snd_conv)
    then show ?thesis using end_session_state [OF assms(2)] by simp
  next
    case Timed_Out
    then show ?thesis using step assms(2) by (simp add: serve_step_continue)
  next
    case (Received ch now sent)
    show ?thesis
    proof (cases "ch = newline")
      case False
      then have "state = control s \<or> state = snd (end_session ?c (control s))"
        using step serve_step_end(2) [OF False, of ?c now sent "control s"]
          serve_step_continue(2) [OF False, of ?c now sent "control s"]
        unfolding Received by (metis Inr_inject Pair_inject snd_conv)
      then show ?thesis using end_session_state [OF assms(2), of ?c] assms(2) by auto
    next
      case nl: True
      define l where "l = strip_carriage_return (partial_line ?c)"
      obtain response state1 session1 where answer:
        "responseFor l now (peerAddress ?c) (control s) (conn_session ?c) = (response, state1, session1)"
        by (metis prod_cases3)
      note step' = step [unfolded Received nl serve_step_line l_def [symmetric] answer]
      obtain out where inr: "response = Inr out" using step' by (cases response) simp_all
      obtain r1 where r1: "room state1 = Some r1" "room_state r1 = room_state r"
        using responseFor_remote [OF answer [unfolded inr] assms(2,4)] by blast
      have "state = state1 \<or> state = snd (end_session (?c\<lparr>conn_session := session1\<rparr>) state1)"
        using step' by (auto simp: inr split: if_splits dest: arg_cong [of _ _ snd])
      then show ?thesis
        using r1 end_session_state [OF r1(1), of "?c\<lparr>conn_session := session1\<rparr>"] by auto
    qed
  qed
  then show ?thesis by (simp add: s')
qed

theorem remote_sessions_cannot_control_witness:
  "\<exists>answer s' r'. server_exec (Served 0 (Received newline 0 True)) (typed ''10.0.0.2'' ''PLAY'') =
     Inr (answer, s') \<and> room (control s') = Some r' \<and> pendingAction (room_state r') = None"
proof -
  have line: "strip_carriage_return ''PLAY'' = ''PLAY''"
    by (rule strip_printable) (simp add: is_printable_def code_def)
  obtain answer s' where exec: "server_exec (Served 0 (Received newline 0 True))
      (typed ''10.0.0.2'' ''PLAY'') = Inr (answer, s')"
    by (simp add: typed_def serve_step_line line responseFor_def starts_with_def respond_command_def
        example_control_def Let_def)
  have "\<exists>r'. room (control s') = Some r' \<and> room_state r' = room_state example_room"
    by (rule remote_sessions_cannot_control [OF exec]) (simp_all add: typed_def example_control_def)
  then show ?thesis using exec by (auto simp: example_room_def)
qed



text \<open>
  The server cannot read lines that end in a carriage return and a newline: the carriage return
  itself is answered with an error and ends the session, so the code that strips it from a complete
  line never finds one.
\<close>

theorem carriage_return_ends_session:
  assumes "server_reachable s" "c \<in> set (connections s)"
  shows "serve_step (Received carriage_return now sent) c (control s) =
      Inr (line_of ''ERROR malformed-line'', end_session c (control s)) \<and>
    strip_carriage_return (partial_line c) = partial_line c"
proof -
  have "connection_ok c" using server_reachable_ok [OF assms(1)] assms(2) by (simp add: server_ok_def)
  then have "strip_carriage_return (partial_line c) = partial_line c"
    by (intro strip_printable) (simp add: connection_ok_def)
  moreover have "code carriage_return = 13" by (simp add: carriage_return_def)
  moreover have "carriage_return \<noteq> newline"
    by (simp add: carriage_return_def newline_def char_of_eq_iff)
  ultimately show ?thesis by (simp add: serve_step_end)
qed

theorem carriage_return_ends_session_witness:
  "\<exists>c \<in> set (connections (typed ''10.0.0.2'' ''HELLO 2'')). \<exists>text c' state'.
     serve_step (Received carriage_return 0 True) c example_control = Inr (text, c', state') \<and>
     \<not> conn_active c'"
proof -
  have reach: "server_reachable (typed ''10.0.0.2'' ''HELLO 2'')"
    by (rule typed_reachable) (simp_all add: is_printable_def code_def)
  let ?c = "hd (connections (typed ''10.0.0.2'' ''HELLO 2''))"
  have c: "?c \<in> set (connections (typed ''10.0.0.2'' ''HELLO 2''))" by (simp add: typed_def)
  have "control (typed ''10.0.0.2'' ''HELLO 2'') = example_control" by (simp add: typed_def)
  then have "serve_step (Received carriage_return 0 True) ?c example_control =
      Inr (line_of ''ERROR malformed-line'', end_session ?c example_control)"
    using carriage_return_ends_session [OF reach c, of 0 True] by simp
  then show ?thesis using c by (intro bexI [OF _ c]) (auto simp: end_session_def)
qed

text \<open>
  C27. No request stops the server: as long as the audio port is set and clock readings are not
  negative, answering a line never throws, so no session thread ends with an uncaught exception.
\<close>

theorem requests_never_throw:
  assumes "server_reachable s" "audioPort (control s) \<noteq> 0" "0 \<le> now"
    and "\<forall>c \<in> set (connections s). peerAddress c \<noteq> []"
  shows "\<exists>answer s'. server_exec (Served i (Received ch now sent)) s = Inr (answer, s')"
proof -
  have no_throw: "\<exists>answer p. responseFor line now peer (control s) session = (Inr answer, p)"
    if "peer \<noteq> []" for line peer session
  proof (cases "room (control s)")
    case None
    then show ?thesis
      by (auto simp: responseFor_def respond_join_def respond_command_def split: prod.split)
  next
    case (Some r)
    have "room_ok r"
      using server_reachable_ok [OF assms(1)] Some by (simp add: server_ok_def control_ok_def room_served_def)
    then have stream: "room_streamId (room_state r) \<noteq> 0" by (simp add: room_ok_def)
    have join: "\<exists>text p. respond_join device now peer (control s) session = (Inr text, p)" for device
    proof (cases "validDeviceId device")
      case True
      then have "device \<noteq> []" by (auto simp: validDeviceId_def)
      then show ?thesis
        using True Some that assms(2) by (simp add: respond_join_def join_def Let_def)
    qed (simp add: respond_join_def)
    have command: "\<exists>text p. respond_command line now peer (control s) = (Inr text, p)"
      using Some stream assms(3)
      by (auto simp: respond_command_def snapshot_def Let_def scheduleAction_def split: reply.split)
    show ?thesis
      using join [of "drop 5 line"] command by (auto simp: responseFor_def split: prod.split)
  qed
  show ?thesis
  proof (cases "i < length (connections s) \<and> conn_active (connections s ! i)")
    case False
    then show ?thesis by auto
  next
    case True
    let ?c = "connections s ! i"
    have "peerAddress ?c \<noteq> []" using True assms(4) by simp
    then obtain answer state1 session1 where "responseFor (strip_carriage_return (partial_line ?c)) now
        (peerAddress ?c) (control s) (conn_session ?c) = (Inr answer, state1, session1)"
      using no_throw by (metis prod.collapse)
    then have "\<exists>v. serve_step (Received ch now sent) ?c (control s) = Inr v"
      by (cases "ch = newline") (simp_all add: serve_step_line, simp add: serve_step_def)
    then obtain v where "serve_step (Received ch now sent) ?c (control s) = Inr v" ..
    then show ?thesis using True by (cases v) simp
  qed
qed

theorem requests_never_throw_witness:
  "\<exists>answer s'. server_exec (Served 0 (Received newline 7 True)) (typed ''10.0.0.2'' ''JOIN phone'') =
     Inr (answer, s')"
proof (rule requests_never_throw)
  show "server_reachable (typed ''10.0.0.2'' ''JOIN phone'')"
    by (rule typed_reachable) (simp_all add: is_printable_def code_def)
qed (simp_all add: typed_def example_control_def)

end
