(* ===== verification/Audio_Player.thy ===== *)
theory Audio_Player
  imports Playback_Clock Float_Round
begin

text \<open>
  The state of the local player, \<open>desktop/src/DesktopAudioPlayer.cpp\<close>: loading a file, starting a
  segment at a frame and a time, and the timeline its callers read. miniaudio (the decoder and the
  device) is outside the model: what its calls return comes with each operation. The ring buffer
  and the two threads that use it are in \<open>Player_Ring\<close>.
\<close>

section \<open>State\<close>

record AudioMetadata =
  fileRate :: u32
  fileChannels :: u32
  fileFrames :: u64
  durationSeconds :: rat

record Player =
  decoderInitialized :: bool
  metadata :: AudioMetadata
  ring :: "u8 list"
  ringCapacityFrames :: u64
  bytesPerFrame :: u32
  readFrame :: u64
  writtenFrame :: u64
  prefetchRunning :: bool
  decoderFinished :: bool
  deviceInitialized :: bool
  isPlaying :: bool
  outputRouteChanged :: bool
  endReached :: bool
  timelineRunning :: bool
  submittedFrames :: u64
  stoppedFrame :: u64
  stoppedElapsedNanoseconds :: int
  playbackClock :: "PlaybackClock option"
  segmentStartTime :: int
  segmentStartFrame :: u64

definition Player_new :: Player where
  "Player_new =
     \<lparr>decoderInitialized = False,
      metadata = \<lparr>fileRate = 0, fileChannels = 0, fileFrames = 0, durationSeconds = 0\<rparr>,
      ring = [], ringCapacityFrames = 0, bytesPerFrame = 0, readFrame = 0, writtenFrame = 0,
      prefetchRunning = False, decoderFinished = False, deviceInitialized = False,
      isPlaying = False, outputRouteChanged = False, endReached = False, timelineRunning = False,
      submittedFrames = 0, stoppedFrame = 0, stoppedElapsedNanoseconds = 0, playbackClock = None,
      segmentStartTime = 0, segmentStartFrame = 0\<rparr>"

section \<open>The timeline\<close>

text \<open>
  \<open>try { ... } catch (const std::overflow_error &)\<close>: only this exception is handled, in functions
  that are \<open>noexcept\<close>; any other result \<open>Inl\<close> of such a function would end the program.
\<close>

fun catch_overflow :: "exn + 'a \<Rightarrow> 'a \<Rightarrow> exn + 'a" where
  "catch_overflow (Inl (Overflow_Error what)) fallback = Inr fallback"
| "catch_overflow m fallback = m"

definition currentTimelineFrame :: "PlaybackClock \<Rightarrow> int \<Rightarrow> Player \<Rightarrow> exn + u64" where
  "currentTimelineFrame clock now p =
     catch_overflow
       (and_then (timestampToFrame clock now) (\<lambda>timelineFrame.
          Inr (if timelineFrame < submittedFrames p then timelineFrame else submittedFrames p)))
       (submittedFrames p)"

definition freezeTimeline :: "bool \<Rightarrow> int \<Rightarrow> int \<Rightarrow> Player \<Rightarrow> exn + Player" where
  "freezeTimeline streamCompleted now now' p =
     (case playbackClock p of
        None \<Rightarrow> Inr p
      | Some clock \<Rightarrow>
          if \<not> timelineRunning p then Inr p
          else
            and_then (if streamCompleted then Inr (submittedFrames p)
                      else currentTimelineFrame clock now p) (\<lambda>stopped.
            and_then (elapsedAt clock now') (\<lambda>stoppedElapsed.
            and_then
              (if streamCompleted
               then catch_overflow
                 (and_then (frameToTimestamp clock stopped) (\<lambda>boundary.
                  and_then (signed64 (boundary - clockStart clock)) (\<lambda>scheduledElapsed.
                    Inr (if scheduledElapsed > stoppedElapsed then scheduledElapsed
                         else stoppedElapsed))))
                 stoppedElapsed
               else Inr stoppedElapsed) (\<lambda>stoppedElapsed.
            Inr (p\<lparr>stoppedFrame := stopped, stoppedElapsedNanoseconds := stoppedElapsed,
                   timelineRunning := False\<rparr>)))))"

text \<open>\<open>currentPlaybackFrame\<close> and \<open>freezeTimeline\<close> read the clock up to twice.\<close>

definition currentPlaybackFrame :: "int \<Rightarrow> int \<Rightarrow> Player \<Rightarrow> exn + u64" where
  "currentPlaybackFrame now now' p =
     (case playbackClock p of
        None \<Rightarrow> Inr 0
      | Some clock \<Rightarrow>
          if now < segmentStartTime p then Inr (segmentStartFrame p)
          else if \<not> timelineRunning p then Inr (stoppedFrame p)
          else currentTimelineFrame clock now' p)"

definition expectedTimestampOf :: "u64 \<Rightarrow> Player \<Rightarrow> exn + int option" where
  "expectedTimestampOf frame p =
     (case playbackClock p of
        None \<Rightarrow> Inr None
      | Some clock \<Rightarrow> and_then (frameToTimestamp clock frame) (\<lambda>t. Inr (Some t)))"

definition expectedPlaybackTimestamp :: "int \<Rightarrow> int \<Rightarrow> Player \<Rightarrow> exn + int option" where
  "expectedPlaybackTimestamp now now' p =
     and_then (currentPlaybackFrame now now' p) (\<lambda>frame. expectedTimestampOf frame p)"

definition elapsedPlaybackTime :: "int \<Rightarrow> Player \<Rightarrow> exn + int" where
  "elapsedPlaybackTime now p =
     (case playbackClock p of
        None \<Rightarrow> Inr 0
      | Some clock \<Rightarrow>
          if timelineRunning p then elapsedAt clock now else Inr (stoppedElapsedNanoseconds p))"

definition notificationCallback :: "bool \<Rightarrow> Player \<Rightarrow> Player" where
  "notificationCallback rerouted p =
     (if rerouted then p\<lparr>outputRouteChanged := True\<rparr> else p)"

section \<open>Loading, starting, stopping\<close>

definition stop_player :: "int \<Rightarrow> int \<Rightarrow> Player \<Rightarrow> exn + Player" where
  "stop_player now now' p =
     and_then (freezeTimeline False now now' p) (\<lambda>p.
       let p = p\<lparr>isPlaying := False\<rparr>;
           p = (if deviceInitialized p then p\<lparr>deviceInitialized := False\<rparr> else p) in
       Inr (p\<lparr>prefetchRunning := False\<rparr>))"

text \<open>What the file system and the decoder say of a path, in the order \<open>load\<close> asks.\<close>

record audio_file =
  pathText :: string
  existsError :: "string option"
  isRegular :: bool
  openError :: "string option"
  lengthError :: "string option"
  outputRate :: u32
  outputChannels :: u32
  pcmFrames :: u64

text \<open>
  A throw leaves the changes made before it: the result is paired with the state. An undefined
  \<open>stop\<close> leaves the state unspecified, here as it was.
\<close>

definition load :: "int \<Rightarrow> int \<Rightarrow> audio_file \<Rightarrow> Player \<Rightarrow> (exn + unit) \<times> Player" where
  "load now now' f p =
     (case stop_player now now' p of
        Inl e \<Rightarrow> (Inl e, p)
      | Inr p \<Rightarrow>
          let p = p\<lparr>playbackClock := None, submittedFrames := 0, stoppedFrame := 0,
                    stoppedElapsedNanoseconds := 0\<rparr>;
              p = (if decoderInitialized p then p\<lparr>decoderInitialized := False\<rparr> else p) in
          case existsError f of
            Some message \<Rightarrow>
              (Inl (Runtime_Error (''Unable to inspect audio file: '' @ message)), p)
          | None \<Rightarrow>
              if \<not> isRegular f
              then (Inl (Runtime_Error
                (''Audio file does not exist or is not a regular file: '' @ pathText f)), p)
              else case openError f of
                Some message \<Rightarrow>
                  (Inl (Runtime_Error (''Unable to open audio file: '' @ message)), p)
              | None \<Rightarrow>
                  let p = p\<lparr>decoderInitialized := True\<rparr> in
                  case lengthError f of
                    Some message \<Rightarrow>
                      (Inl (Runtime_Error (''Unable to read audio duration: '' @ message)),
                       p\<lparr>decoderInitialized := False\<rparr>)
                  | None \<Rightarrow>
                      (Inr (),
                       p\<lparr>metadata :=
                           \<lparr>fileRate = outputRate f, fileChannels = outputChannels f,
                            fileFrames = pcmFrames f,
                            durationSeconds =
                              (if outputRate f = 0 then 0
                               else dbl (dbl (of_nat (unat (pcmFrames f))) /
                                         of_nat (unat (outputRate f))))\<rparr>\<rparr>))"

text \<open>
  \<open>playFrom\<close> in two parts. The first runs until the prefetch thread is started and then waits until
  a quarter of a second is decoded; the second opens and starts the device.
\<close>

definition playFrom_begin ::
    "u64 \<Rightarrow> int \<Rightarrow> int \<Rightarrow> string option \<Rightarrow> u32 \<Rightarrow> Player \<Rightarrow> (exn + unit) \<times> Player" where
  "playFrom_begin frame now now' seekError frameSize p =
     (if \<not> decoderInitialized p then (Inl (Logic_Error ''No audio file has been loaded''), p)
      else case stop_player now now' p of
        Inl e \<Rightarrow> (Inl e, p)
      | Inr p \<Rightarrow>
          let p = p\<lparr>playbackClock := None, submittedFrames := frame, stoppedFrame := frame,
                    stoppedElapsedNanoseconds := 0\<rparr> in
          case seekError of
            Some message \<Rightarrow>
              (Inl (Runtime_Error (''Unable to seek audio file: '' @ message)), p)
          | None \<Rightarrow>
              let capacity = max (ucast (fileRate (metadata p))) 4096 :: u64;
                  size = unat capacity * unat frameSize in
              (Inr (),
               p\<lparr>bytesPerFrame := frameSize, ringCapacityFrames := capacity,
                 ring := take size (ring p) @ replicate (size - length (ring p)) 0,
                 readFrame := 0, writtenFrame := 0, decoderFinished := False,
                 prefetchRunning := True\<rparr>))"

definition prefilled :: "Player \<Rightarrow> bool" where
  "prefilled p \<longleftrightarrow>
     \<not> (writtenFrame p < min (ucast (fileRate (metadata p)) div 4) (ringCapacityFrames p) \<and>
        \<not> decoderFinished p)"

definition playFrom_start ::
    "u64 \<Rightarrow> int \<Rightarrow> string option \<Rightarrow> string option \<Rightarrow> Player \<Rightarrow> (exn + unit) \<times> Player" where
  "playFrom_start frame startTime initError startError p =
     (case initError of
        Some message \<Rightarrow>
          (Inl (Runtime_Error (''Unable to initialize the audio device: '' @ message)),
           p\<lparr>prefetchRunning := False\<rparr>)
      | None \<Rightarrow>
          let p = p\<lparr>deviceInitialized := True, endReached := False, submittedFrames := frame,
                    stoppedFrame := frame, stoppedElapsedNanoseconds := 0\<rparr> in
          case and_then (PlaybackClock_new (fileRate (metadata p)) 0)
                 (\<lambda>zeroClock. frameToTimestamp zeroClock frame) of
            Inl e \<Rightarrow> (Inl e, p)
          | Inr frameOffset \<Rightarrow>
              let p = p\<lparr>segmentStartTime := startTime, segmentStartFrame := frame\<rparr> in
              case and_then (signed64 (startTime - frameOffset))
                     (\<lambda>origin. PlaybackClock_new (fileRate (metadata p)) origin) of
                Inl e \<Rightarrow> (Inl e, p)
              | Inr clock \<Rightarrow>
                  let p = p\<lparr>playbackClock := Some clock, timelineRunning := True,
                            isPlaying := True, outputRouteChanged := False\<rparr> in
                  case startError of
                    Some message \<Rightarrow>
                      (Inl (Runtime_Error (''Unable to start the audio device: '' @ message)),
                       p\<lparr>isPlaying := False, timelineRunning := False, playbackClock := None,
                         deviceInitialized := False, prefetchRunning := False\<rparr>)
                  | None \<Rightarrow> (Inr (), p))"

end
