(* ===== verification/Player_Ring.thy ===== *)
theory Player_Ring
  imports Audio_Player
begin

text \<open>
  The ring buffer of \<open>desktop/src/DesktopAudioPlayer.cpp\<close> and the two threads around it:
  \<open>prefetch\<close> decodes the file into the ring, \<open>dataCallback\<close> hands the ring to the device. They share
  two frame counters and two flags and no lock, so each function is cut at its accesses to them and
  the cuts may interleave freely. The decoder is outside the model: it delivers \<open>source\<close>, the bytes
  of the file from the frame the segment starts at, in order, and chooses how much each call returns.
\<close>

section \<open>Copies\<close>

definition memcpy :: "u8 list \<Rightarrow> nat \<Rightarrow> u8 list \<Rightarrow> nat \<Rightarrow> nat \<Rightarrow> exn + u8 list" where
  "memcpy dst d src s n =
     (if d + n \<le> length dst \<and> s + n \<le> length src
      then Inr (take d dst @ take n (drop s src) @ drop (d + n) dst)
      else Inl Out_Of_Bounds)"

section \<open>The prefetch thread\<close>

text \<open>
  Where the thread is: at the head of its loop, about to decode with the \<open>written\<close> and \<open>request\<close> it
  computed, about to publish what it decoded, about to set \<open>decoderFinished\<close>, or gone.
\<close>

datatype prefetch_state =
    Prefetch_Loop
  | Prefetch_Decode u64 u64
  | Prefetch_Publish u64 u64 bool
  | Prefetch_Finish
  | Prefetch_Ended

definition prefetch_request :: "Player \<Rightarrow> prefetch_state" where
  "prefetch_request p =
     (if \<not> prefetchRunning p then Prefetch_Ended
      else
        let written = writtenFrame p;
            read = readFrame p;
            available = ringCapacityFrames p - (written - read) in
        if available = 0 then Prefetch_Loop
        else
          let contiguous = ringCapacityFrames p - written mod ringCapacityFrames p;
              request = min available (min contiguous 4096) in
          Prefetch_Decode written request)"

text \<open>The decoder stores \<open>decoded\<close>, \<open>framesRead\<close> frames, and reports success or not.\<close>

definition prefetch_decode ::
    "u64 \<Rightarrow> u64 \<Rightarrow> u8 list \<Rightarrow> u64 \<Rightarrow> bool \<Rightarrow> Player \<Rightarrow> exn + prefetch_state \<times> Player" where
  "prefetch_decode written request decoded framesRead success p =
     and_then (memcpy (ring p)
         (unat (written mod ringCapacityFrames p) * unat (bytesPerFrame p))
         decoded 0 (length decoded))
       (\<lambda>bytes. Inr (Prefetch_Publish written framesRead (\<not> success \<or> framesRead < request),
                     p\<lparr>ring := bytes\<rparr>))"

definition prefetch_publish :: "u64 \<Rightarrow> u64 \<Rightarrow> bool \<Rightarrow> Player \<Rightarrow> prefetch_state \<times> Player" where
  "prefetch_publish written framesRead finished p =
     (if finished then Prefetch_Finish else Prefetch_Loop,
      p\<lparr>writtenFrame := written + framesRead\<rparr>)"

definition prefetch_finish :: "Player \<Rightarrow> prefetch_state \<times> Player" where
  "prefetch_finish p = (Prefetch_Ended, p\<lparr>decoderFinished := True\<rparr>)"

section \<open>The device callback\<close>

datatype callback_state =
    Callback_Idle
  | Callback_Copy u32 u64 u64
  | Callback_Store u64 u64 u64 "u8 list"
  | Callback_Check u64 u64

definition silence :: "u32 \<Rightarrow> Player \<Rightarrow> u8 list" where
  "silence frameCount p = replicate (unat frameCount * unat (bytesPerFrame p)) 0"

text \<open>
  From the entry to the load of the counters. The device already gets silence when the segment has
  not begun or has ended.
\<close>

definition callback_enter ::
    "u32 \<Rightarrow> int \<Rightarrow> int \<Rightarrow> int \<Rightarrow> Player \<Rightarrow> exn + callback_state \<times> Player" where
  "callback_enter frameCount now now' now'' p =
     (if playbackClock p \<noteq> None \<and> now < segmentStartTime p then Inr (Callback_Idle, p)
      else if endReached p
      then and_then (freezeTimeline True now' now'' p) (\<lambda>p. Inr (Callback_Idle, p\<lparr>isPlaying := False\<rparr>))
      else Inr (Callback_Copy frameCount (readFrame p) (writtenFrame p), p))"

definition callback_copy :: "u32 \<Rightarrow> u64 \<Rightarrow> u64 \<Rightarrow> Player \<Rightarrow> exn + callback_state" where
  "callback_copy frameCount read written p =
     (let frameSize = unat (bytesPerFrame p);
          capacity = ringCapacityFrames p;
          output = silence frameCount p;
          framesRead = min (ucast frameCount) (written - read);
          first = min framesRead (capacity - read mod capacity) in
      and_then (memcpy output 0 (ring p) (unat (read mod capacity) * frameSize)
                  (unat first * frameSize)) (\<lambda>output.
      and_then (if framesRead > first
                then memcpy output (unat first * frameSize) (ring p) 0
                       (unat (framesRead - first) * frameSize)
                else Inr output) (\<lambda>output.
      Inr (Callback_Store read framesRead written output))))"

definition callback_store :: "u64 \<Rightarrow> u64 \<Rightarrow> u64 \<Rightarrow> Player \<Rightarrow> callback_state \<times> Player" where
  "callback_store read framesRead written p =
     (Callback_Check (read + framesRead) written,
      p\<lparr>readFrame := read + framesRead, submittedFrames := submittedFrames p + framesRead\<rparr>)"

definition callback_check :: "u64 \<Rightarrow> u64 \<Rightarrow> Player \<Rightarrow> callback_state \<times> Player" where
  "callback_check position written p =
     (Callback_Idle,
      if decoderFinished p \<and> position = written then p\<lparr>endReached := True\<rparr> else p)"

section \<open>Interleavings\<close>

text \<open>
  A segment in flight. \<open>position\<close> counts the frames the decoder has handed out and \<open>delivered\<close> is
  what the callbacks copied out of the ring, less the silence after it.
\<close>

record Segment =
  player :: Player
  prefetcher :: prefetch_state
  callback :: callback_state
  position :: nat
  delivered :: "u8 list"

text \<open>
  \<open>Prefetch\<close> moves the prefetch thread on; its numbers are what the decoder returns if the thread
  decodes. \<open>Callback\<close> moves the callback on; its arguments are what the device asks for and the clock
  readings if a callback starts.
\<close>

datatype segment_event =
    Prefetch u64 bool
  | Callback u32 int int int

definition decoded_bytes :: "u8 list \<Rightarrow> Segment \<Rightarrow> u64 \<Rightarrow> u8 list" where
  "decoded_bytes source s framesRead =
     (let frameSize = unat (bytesPerFrame (player s)) in
      take (unat framesRead * frameSize) (drop (position s * frameSize) source))"

fun prefetch_step :: "u8 list \<Rightarrow> u64 \<Rightarrow> bool \<Rightarrow> Segment \<Rightarrow> exn + Segment" where
  "prefetch_step source n success s =
     (case prefetcher s of
        Prefetch_Loop \<Rightarrow> Inr (s\<lparr>prefetcher := prefetch_request (player s)\<rparr>)
      | Prefetch_Decode written request \<Rightarrow>
          and_then (prefetch_decode written request (decoded_bytes source s n) n success (player s))
            (\<lambda>(pc, p). Inr (s\<lparr>prefetcher := pc, player := p, position := position s + unat n\<rparr>))
      | Prefetch_Publish written framesRead finished \<Rightarrow>
          (let (pc, p) = prefetch_publish written framesRead finished (player s) in
           Inr (s\<lparr>prefetcher := pc, player := p\<rparr>))
      | Prefetch_Finish \<Rightarrow>
          (let (pc, p) = prefetch_finish (player s) in Inr (s\<lparr>prefetcher := pc, player := p\<rparr>))
      | Prefetch_Ended \<Rightarrow> Inr s)"

fun callback_step :: "u32 \<Rightarrow> int \<Rightarrow> int \<Rightarrow> int \<Rightarrow> Segment \<Rightarrow> exn + Segment" where
  "callback_step frameCount now now' now'' s =
     (case callback s of
        Callback_Idle \<Rightarrow>
          and_then (callback_enter frameCount now now' now'' (player s))
            (\<lambda>(pc, p). Inr (s\<lparr>callback := pc, player := p\<rparr>))
      | Callback_Copy count read written \<Rightarrow>
          and_then (callback_copy count read written (player s))
            (\<lambda>pc. Inr (s\<lparr>callback := pc\<rparr>))
      | Callback_Store read framesRead written output \<Rightarrow>
          (let (pc, p) = callback_store read framesRead written (player s) in
           Inr (s\<lparr>callback := pc, player := p,
                  delivered := delivered s @
                    take (unat framesRead * unat (bytesPerFrame (player s))) output\<rparr>))
      | Callback_Check reached written \<Rightarrow>
          (let (pc, p) = callback_check reached written (player s) in
           Inr (s\<lparr>callback := pc, player := p\<rparr>)))"

fun segment_step :: "u8 list \<Rightarrow> segment_event \<Rightarrow> Segment \<Rightarrow> exn + Segment" where
  "segment_step source (Prefetch n success) s = prefetch_step source n success s"
| "segment_step source (Callback frameCount now now' now'') s =
     callback_step frameCount now now' now'' s"

text \<open>
  The documented behaviour of the decoder: it returns at most what was asked for and at most what
  is left.
\<close>

definition frames_in_source :: "u8 list \<Rightarrow> Segment \<Rightarrow> nat" where
  "frames_in_source source s = length source div unat (bytesPerFrame (player s))"

fun decoder_delivers :: "u8 list \<Rightarrow> segment_event \<Rightarrow> Segment \<Rightarrow> bool" where
  "decoder_delivers source (Prefetch n success) s =
     (case prefetcher s of
        Prefetch_Decode written request \<Rightarrow>
          n \<le> request \<and> position s + unat n \<le> frames_in_source source s
      | _ \<Rightarrow> True)"
| "decoder_delivers source (Callback _ _ _ _) s = True"

text \<open>
  A run of one segment: \<open>playFrom\<close> prepares the ring, waits for the prefetch thread and starts the
  device once; callbacks begin while the device is open; \<open>stop\<close> may come at any time.
\<close>

definition segment_of :: "Player \<Rightarrow> Segment" where
  "segment_of p =
     \<lparr>player = p, prefetcher = Prefetch_Loop, callback = Callback_Idle, position = 0, delivered = []\<rparr>"

fun callback_allowed :: "segment_event \<Rightarrow> Segment \<Rightarrow> bool" where
  "callback_allowed (Prefetch _ _) s = True"
| "callback_allowed (Callback _ _ _ _) s =
     (callback s \<noteq> Callback_Idle \<or> deviceInitialized (player s) \<and> playbackClock (player s) \<noteq> None)"

inductive segment_run :: "u8 list \<Rightarrow> Segment \<Rightarrow> bool" for source :: "u8 list" where
  opened: "playFrom_begin frame now now' seekError frameSize p = (Inr (), q) \<Longrightarrow> 0 < frameSize \<Longrightarrow>
    length source < 18446744073709551616 \<Longrightarrow> segment_run source (segment_of q)"
| started: "segment_run source s \<Longrightarrow> prefilled (player s) \<Longrightarrow> \<not> deviceInitialized (player s) \<Longrightarrow>
    playbackClock (player s) = None \<Longrightarrow>
    playFrom_start frame startTime initError startError (player s) = (result, q) \<Longrightarrow>
    segment_run source (s\<lparr>player := q\<rparr>)"
| stepped: "segment_run source s \<Longrightarrow> decoder_delivers source e s \<Longrightarrow> callback_allowed e s \<Longrightarrow>
    segment_step source e s = Inr s' \<Longrightarrow> segment_run source s'"
| stopped: "segment_run source s \<Longrightarrow> stop_player now now' (player s) = Inr q \<Longrightarrow>
    segment_run source (s\<lparr>player := q\<rparr>)"

section \<open>Indices of the ring\<close>

lemma memcpy_Inr:
  assumes "d + n \<le> length dst" "s + n \<le> length src"
  obtains bytes where "memcpy dst d src s n = Inr bytes" "length bytes = length dst"
    "\<And>k. k < length dst \<Longrightarrow> bytes ! k = (if d \<le> k \<and> k < d + n then src ! (s + (k - d)) else dst ! k)"
proof
  let ?bytes = "take d dst @ take n (drop s src) @ drop (d + n) dst"
  show "memcpy dst d src s n = Inr ?bytes" using assms by (simp add: memcpy_def)
  show "length ?bytes = length dst" using assms by simp
  fix k assume "k < length dst"
  moreover have "length (take n (drop s src)) = n" using assms by simp
  ultimately show "?bytes ! k = (if d \<le> k \<and> k < d + n then src ! (s + (k - d)) else dst ! k)"
    using assms by (simp add: nth_append) linarith
qed

lemma mod_window_inj:
  assumes "a \<le> (i :: nat)" "i < a + n" "a \<le> j" "j < a + n" "i mod n = j mod n"
  shows "i = j"
proof (rule ccontr)
  assume "i \<noteq> j"
  have step: False if "x < y" "x mod n = y mod n" "a \<le> x" "y < a + n" for x y
  proof -
    have "n dvd y - x" using that mod_eq_dvd_iff_nat [of x y n] by simp
    then have "n \<le> y - x" using that by (intro dvd_imp_le) auto
    then show False using that by linarith
  qed
  show False using step [of i j] step [of j i] assms \<open>i \<noteq> j\<close> by (metis nat_neq_iff)
qed

lemma ring_offset: "(w mod c) * f = (w * f) mod (c * f)" for w c f :: nat
  by (simp add: mod_mult_mult2)

lemma ring_index:
  assumes "w mod c + n \<le> (c :: nat)" "j < n * f"
  shows "(w * f + j) mod (c * f) = (w mod c) * f + j"
proof -
  have "(w mod c) * f + j < (w mod c) * f + n * f" using assms(2) by (rule add_strict_left_mono)
  also have "\<dots> \<le> c * f" using assms(1) by (metis add_mult_distrib mult_le_mono1)
  finally have bound: "(w mod c) * f + j < c * f" .
  have "(w * f + j) mod (c * f) = ((w * f) mod (c * f) + j) mod (c * f)"
    by (simp only: mod_add_left_eq)
  also have "\<dots> = ((w mod c) * f + j) mod (c * f)" by (simp only: ring_offset)
  finally show ?thesis using bound by simp
qed

section \<open>Invariant of a segment\<close>

abbreviation frame_bytes :: "Player \<Rightarrow> nat" where
  "frame_bytes p \<equiv> unat (bytesPerFrame p)"

abbreviation capacity :: "Player \<Rightarrow> nat" where
  "capacity p \<equiv> unat (ringCapacityFrames p)"

text \<open>The two counters stay in order and at most a ring apart; the ring keeps its size.\<close>

definition ring_ok :: "Player \<Rightarrow> bool" where
  "ring_ok p \<longleftrightarrow>
     0 < frame_bytes p \<and> 0 < capacity p \<and> length (ring p) = capacity p * frame_bytes p \<and>
     unat (readFrame p) \<le> unat (writtenFrame p) \<and>
     unat (writtenFrame p) \<le> unat (readFrame p) + capacity p"

text \<open>The bytes of the stream from \<open>a\<close> up to \<open>b\<close> are where the ring keeps them.\<close>

definition ring_holds :: "u8 list \<Rightarrow> Player \<Rightarrow> nat \<Rightarrow> nat \<Rightarrow> bool" where
  "ring_holds source p a b \<longleftrightarrow>
     (\<forall>i. a \<le> i \<and> i < b \<longrightarrow> ring p ! (i mod (capacity p * frame_bytes p)) = source ! i)"

fun prefetcher_ok :: "prefetch_state \<Rightarrow> nat \<Rightarrow> Player \<Rightarrow> bool" where
  "prefetcher_ok (Prefetch_Decode written request) pos p \<longleftrightarrow>
     written = writtenFrame p \<and> pos = unat written \<and> 0 < request \<and>
     unat written + unat request \<le> unat (readFrame p) + capacity p \<and>
     unat written mod capacity p + unat request \<le> capacity p"
| "prefetcher_ok (Prefetch_Publish written framesRead finished) pos p \<longleftrightarrow>
     written = writtenFrame p \<and> pos = unat written + unat framesRead \<and>
     pos \<le> unat (readFrame p) + capacity p \<and> (framesRead = 0 \<longrightarrow> finished)"
| "prefetcher_ok _ pos p \<longleftrightarrow> pos = unat (writtenFrame p)"

fun callback_ok :: "u8 list \<Rightarrow> callback_state \<Rightarrow> Player \<Rightarrow> bool" where
  "callback_ok source Callback_Idle p \<longleftrightarrow> True"
| "callback_ok source (Callback_Copy count read written) p \<longleftrightarrow>
     read = readFrame p \<and> read \<le> written \<and> written \<le> writtenFrame p"
| "callback_ok source (Callback_Store read framesRead written output) p \<longleftrightarrow>
     read = readFrame p \<and> unat read + unat framesRead \<le> unat written \<and> written \<le> writtenFrame p \<and>
     take (unat framesRead * frame_bytes p) output =
       take (unat framesRead * frame_bytes p) (drop (unat read * frame_bytes p) source)"
| "callback_ok source (Callback_Check reached written) p \<longleftrightarrow>
     reached = readFrame p \<and> reached \<le> written \<and> written \<le> writtenFrame p"

definition segment_ok :: "u8 list \<Rightarrow> Segment \<Rightarrow> bool" where
  "segment_ok source s \<longleftrightarrow>
     ring_ok (player s) \<and>
     position s * frame_bytes (player s) \<le> length source \<and> length source < 18446744073709551616 \<and>
     ring_holds source (player s) (unat (readFrame (player s)) * frame_bytes (player s))
       (position s * frame_bytes (player s)) \<and>
     prefetcher_ok (prefetcher s) (position s) (player s) \<and>
     callback_ok source (callback s) (player s) \<and>
     delivered s = take (unat (readFrame (player s)) * frame_bytes (player s)) source \<and>
     (decoderFinished (player s) \<longrightarrow> prefetcher s = Prefetch_Ended) \<and>
     (playbackClock (player s) = None \<longrightarrow> callback s = Callback_Idle \<and> readFrame (player s) = 0) \<and>
     (playbackClock (player s) \<noteq> None \<longrightarrow>
        submittedFrames (player s) = segmentStartFrame (player s) + readFrame (player s))"

lemma segment_okD:
  assumes "segment_ok source s"
  shows "ring_ok (player s)" "position s * frame_bytes (player s) \<le> length source"
    "length source < 18446744073709551616"
    "ring_holds source (player s) (unat (readFrame (player s)) * frame_bytes (player s))
       (position s * frame_bytes (player s))"
    "prefetcher_ok (prefetcher s) (position s) (player s)"
    "callback_ok source (callback s) (player s)"
    "delivered s = take (unat (readFrame (player s)) * frame_bytes (player s)) source"
    "decoderFinished (player s) \<longrightarrow> prefetcher s = Prefetch_Ended"
    "playbackClock (player s) = None \<longrightarrow> callback s = Callback_Idle \<and> readFrame (player s) = 0"
    "playbackClock (player s) \<noteq> None \<longrightarrow>
       submittedFrames (player s) = segmentStartFrame (player s) + readFrame (player s)"
  using assms unfolding segment_ok_def by blast+

text \<open>Steps that leave the ring, the counters and the clock alone keep everything.\<close>

definition same_ring :: "Player \<Rightarrow> Player \<Rightarrow> bool" where
  "same_ring p q \<longleftrightarrow>
     ring q = ring p \<and> ringCapacityFrames q = ringCapacityFrames p \<and>
     bytesPerFrame q = bytesPerFrame p \<and> readFrame q = readFrame p \<and>
     writtenFrame q = writtenFrame p \<and> decoderFinished q = decoderFinished p"

lemma same_ring_ok:
  assumes "same_ring p q"
  shows "ring_ok q = ring_ok p" "ring_holds source q a b = ring_holds source p a b"
    "prefetcher_ok st pos q = prefetcher_ok st pos p"
    "callback_ok source cb q = callback_ok source cb p"
  using assms
  by (simp_all add: same_ring_def ring_ok_def ring_holds_def,
      cases st, simp_all, cases cb, simp_all)

lemma segment_ok_same_ring:
  assumes "segment_ok source s" "same_ring (player s) q"
    "playbackClock q = playbackClock (player s)"
    "submittedFrames q = submittedFrames (player s)"
    "segmentStartFrame q = segmentStartFrame (player s)"
  shows "segment_ok source (s\<lparr>player := q\<rparr>)"
  using assms same_ring_ok [OF assms(2)] by (simp add: segment_ok_def same_ring_def)

lemma freezeTimeline_frame:
  assumes "freezeTimeline completed now now' p = Inr q"
  shows "same_ring p q" "playbackClock q = playbackClock p"
    "submittedFrames q = submittedFrames p" "segmentStartFrame q = segmentStartFrame p"
    "segmentStartTime q = segmentStartTime p" "endReached q = endReached p"
    "deviceInitialized q = deviceInitialized p" "prefetchRunning q = prefetchRunning p"
    "isPlaying q = isPlaying p"
  using assms
  by (auto simp: freezeTimeline_def same_ring_def res_simps split: option.splits if_splits)

lemma stop_player_frame:
  assumes "stop_player now now' p = Inr q"
  shows "same_ring p q" "playbackClock q = playbackClock p"
    "submittedFrames q = submittedFrames p" "segmentStartFrame q = segmentStartFrame p"
    "endReached q = endReached p" "\<not> deviceInitialized q" "\<not> prefetchRunning q" "\<not> isPlaying q"
proof -
  obtain p' where p': "freezeTimeline False now now' p = Inr p'"
    and q: "q = (if deviceInitialized p' then p'\<lparr>isPlaying := False, deviceInitialized := False,
                    prefetchRunning := False\<rparr>
                 else p'\<lparr>isPlaying := False, prefetchRunning := False\<rparr>)"
    using assms by (auto simp: stop_player_def Let_def res_simps split: if_splits)
  note facts = freezeTimeline_frame [OF p']
  show "same_ring p q" "playbackClock q = playbackClock p"
    "submittedFrames q = submittedFrames p" "segmentStartFrame q = segmentStartFrame p"
    "endReached q = endReached p" "\<not> deviceInitialized q" "\<not> prefetchRunning q" "\<not> isPlaying q"
    using facts by (simp_all add: q same_ring_def)
qed

section \<open>Every step keeps the invariant\<close>

lemma unat_min: "unat (min a b) = min (unat a) (unat (b :: u64))"
  by (simp add: min_def word_le_nat_alt)

lemma available_frames:
  assumes "ring_ok p"
  shows "unat (writtenFrame p - readFrame p) = unat (writtenFrame p) - unat (readFrame p)"
    "unat (ringCapacityFrames p - (writtenFrame p - readFrame p)) =
       capacity p - (unat (writtenFrame p) - unat (readFrame p))"
proof -
  show fill: "unat (writtenFrame p - readFrame p) = unat (writtenFrame p) - unat (readFrame p)"
    using assms by (intro unat_u64_sub) (simp add: ring_ok_def word_le_nat_alt)
  have "writtenFrame p - readFrame p \<le> ringCapacityFrames p"
    using assms unfolding word_le_nat_alt fill ring_ok_def by linarith
  then show "unat (ringCapacityFrames p - (writtenFrame p - readFrame p)) =
       capacity p - (unat (writtenFrame p) - unat (readFrame p))"
    by (simp add: unat_u64_sub fill)
qed

lemma contiguous_frames:
  assumes "0 < capacity p"
  shows "unat (ringCapacityFrames p - w mod ringCapacityFrames p) = capacity p - unat w mod capacity p"
    "unat w mod capacity p < capacity p"
proof -
  show less: "unat w mod capacity p < capacity p" using assms by simp
  have "w mod ringCapacityFrames p \<le> ringCapacityFrames p"
    using less by (simp add: word_le_nat_alt unat_mod)
  then show "unat (ringCapacityFrames p - w mod ringCapacityFrames p) =
      capacity p - unat w mod capacity p"
    by (simp add: unat_u64_sub unat_mod)
qed

lemma prefetch_request_ok:
  assumes "ring_ok p"
  shows "prefetcher_ok (prefetch_request p) (unat (writtenFrame p)) p"
proof (cases "\<not> prefetchRunning p \<or> ringCapacityFrames p - (writtenFrame p - readFrame p) = 0")
  case True
  then show ?thesis by (auto simp: prefetch_request_def Let_def)
next
  case False
  define available where "available = ringCapacityFrames p - (writtenFrame p - readFrame p)"
  define contiguous where
    "contiguous = ringCapacityFrames p - writtenFrame p mod ringCapacityFrames p"
  define request where "request = min available (min contiguous 4096)"
  have cap: "0 < capacity p" using assms by (simp add: ring_ok_def)
  have sizes: "unat available = capacity p - (unat (writtenFrame p) - unat (readFrame p))"
      "unat contiguous = capacity p - unat (writtenFrame p) mod capacity p"
      "unat (writtenFrame p) mod capacity p < capacity p"
    using available_frames(2) [OF assms] contiguous_frames [OF cap, of "writtenFrame p"]
    by (simp_all add: available_def contiguous_def)
  have "prefetch_request p = Prefetch_Decode (writtenFrame p) request"
    using False by (simp add: prefetch_request_def Let_def available_def contiguous_def request_def)
  moreover have "0 < unat available" using False by (simp add: available_def unat_gt_0)
  then have "0 < unat request" using sizes by (simp add: request_def unat_min)
  moreover have "unat request \<le> unat available" "unat request \<le> unat contiguous"
    by (simp_all add: request_def unat_min)
  moreover have "unat (readFrame p) \<le> unat (writtenFrame p)"
    "unat (writtenFrame p) \<le> unat (readFrame p) + capacity p"
    using assms by (simp_all add: ring_ok_def)
  moreover have "unat (writtenFrame p) + unat request \<le> unat (readFrame p) + capacity p"
    "unat (writtenFrame p) mod capacity p + unat request \<le> capacity p"
    using calculation sizes by linarith+
  ultimately show ?thesis by (simp add: word_less_nat_alt)
qed

lemma prefetch_request_cases:
  obtains "prefetch_request p = Prefetch_Ended" "\<not> prefetchRunning p"
  | "prefetch_request p = Prefetch_Loop"
  | r where "prefetch_request p = Prefetch_Decode (writtenFrame p) r"
  unfolding prefetch_request_def Let_def by metis

lemma nth_take_drop:
  "a + n \<le> length xs \<Longrightarrow> j < n \<Longrightarrow> take n (drop a xs) ! j = xs ! (a + j)"
  by (simp add: nth_append)

lemma decode_ok:
  assumes ring: "ring_ok p" and holds: "ring_holds source p a (w * frame_bytes p)"
    and w: "w = unat (writtenFrame p)" and a: "a = unat (readFrame p) * frame_bytes p"
    and fits: "w + n \<le> unat (readFrame p) + capacity p" "w mod capacity p + n \<le> capacity p"
    and left: "(w + n) * frame_bytes p \<le> length source"
    and decoded: "decoded = take (n * frame_bytes p) (drop (w * frame_bytes p) source)"
  obtains bytes where
    "memcpy (ring p) (unat (writtenFrame p mod ringCapacityFrames p) * frame_bytes p) decoded 0
       (length decoded) = Inr bytes"
    "length bytes = length (ring p)"
    "ring_holds source (p\<lparr>ring := bytes\<rparr>) a ((w + n) * frame_bytes p)"
proof -
  let ?f = "frame_bytes p" and ?c = "capacity p"
  define spot where "spot = (w mod ?c) * ?f"
  have spot: "unat (writtenFrame p mod ringCapacityFrames p) * ?f = spot"
    by (simp add: spot_def w unat_mod)
  have size: "length decoded = n * ?f" using left by (simp add: decoded add_mult_distrib)
  have size_ring: "length (ring p) = ?c * ?f" and f: "0 < ?f" and c: "0 < ?c"
    using ring by (simp_all add: ring_ok_def)
  have "(w mod ?c + n) * ?f \<le> ?c * ?f" using fits(2) by (rule mult_le_mono1)
  then have fit: "spot + length decoded \<le> length (ring p)"
    by (simp add: spot_def size size_ring add_mult_distrib)
  obtain bytes where bytes: "memcpy (ring p) spot decoded 0 (length decoded) = Inr bytes"
    "length bytes = length (ring p)"
    "\<And>k. k < length (ring p) \<Longrightarrow> bytes ! k =
       (if spot \<le> k \<and> k < spot + length decoded then decoded ! (0 + (k - spot)) else ring p ! k)"
    using memcpy_Inr [of spot "length decoded" "ring p" 0 decoded] fit by auto
  have "bytes ! (i mod (?c * ?f)) = source ! i" if i: "a \<le> i" "i < (w + n) * ?f" for i
  proof (cases "i < w * ?f")
    case True
    have in_ring: "i mod (?c * ?f) < length (ring p)" using c f size_ring by simp
    have "\<not> (spot \<le> i mod (?c * ?f) \<and> i mod (?c * ?f) < spot + length decoded)"
    proof
      assume hit: "spot \<le> i mod (?c * ?f) \<and> i mod (?c * ?f) < spot + length decoded"
      define j where "j = i mod (?c * ?f) - spot"
      have j: "j < n * ?f" using hit by (simp add: j_def size) linarith
      have "(w * ?f + j) mod (?c * ?f) = spot + j"
        using ring_index [OF fits(2) j] by (simp add: spot_def)
      also have "\<dots> = i mod (?c * ?f)" using hit by (simp add: j_def)
      finally have same: "(w * ?f + j) mod (?c * ?f) = i mod (?c * ?f)" .
      have "(w + n) * ?f \<le> (unat (readFrame p) + ?c) * ?f" using fits(1) by (rule mult_le_mono1)
      then have "w * ?f + j < a + ?c * ?f" using j by (simp add: a add_mult_distrib)
      then have "w * ?f + j = i"
        using mod_window_inj [of a "w * ?f + j" "?c * ?f" i] same True i(1) by simp
      then show False using True by simp
    qed
    then show ?thesis using bytes(3) [OF in_ring] holds True i(1) by (auto simp: ring_holds_def)
  next
    case False
    define j where "j = i - w * ?f"
    have i_eq: "i = w * ?f + j" and j: "j < n * ?f"
      using False i by (simp_all add: j_def add_mult_distrib)
    have place: "i mod (?c * ?f) = spot + j"
      unfolding i_eq using ring_index [OF fits(2) j] by (simp add: spot_def)
    have "bytes ! (spot + j) = decoded ! j"
      using bytes(3) [of "spot + j"] fit j size by simp
    also have "\<dots> = source ! i"
      unfolding decoded i_eq using left j by (intro nth_take_drop) (simp_all add: add_mult_distrib)
    finally show ?thesis by (simp add: place)
  qed
  then have "ring_holds source (p\<lparr>ring := bytes\<rparr>) a ((w + n) * ?f)" by (simp add: ring_holds_def)
  then show ?thesis using that bytes(1,2) by (simp add: spot)
qed

lemma callback_ok_other [simp]:
  "callback_ok source cb (p\<lparr>ring := bytes\<rparr>) = callback_ok source cb p"
  "callback_ok source cb (p\<lparr>decoderFinished := b\<rparr>) = callback_ok source cb p"
  "callback_ok source cb (p\<lparr>endReached := b\<rparr>) = callback_ok source cb p"
  by (cases cb, simp_all)+

lemma callback_ok_written:
  "callback_ok source cb p \<Longrightarrow> writtenFrame p \<le> w \<Longrightarrow> callback_ok source cb (p\<lparr>writtenFrame := w\<rparr>)"
  by (cases cb) auto

lemma segment_ok_position:
  assumes "segment_ok source s"
  shows "position s < 18446744073709551616"
proof -
  have "0 < frame_bytes (player s)" "position s * frame_bytes (player s) < 18446744073709551616"
    using assms by (simp_all add: segment_ok_def ring_ok_def)
  then have "position s * 1 \<le> position s * frame_bytes (player s)" by (intro mult_le_mono2) simp
  then show ?thesis
    using \<open>position s * frame_bytes (player s) < 18446744073709551616\<close> by linarith
qed

lemma decode_step_ok:
  assumes ok: "segment_ok source s" and pc: "prefetcher s = Prefetch_Decode written request"
    and contract: "decoder_delivers source (Prefetch n success) s"
  obtains bytes where
    "prefetch_step source n success s = Inr (s\<lparr>
       prefetcher := Prefetch_Publish written n (\<not> success \<or> n < request),
       player := (player s)\<lparr>ring := bytes\<rparr>, position := position s + unat n\<rparr>)"
    "segment_ok source (s\<lparr>
       prefetcher := Prefetch_Publish written n (\<not> success \<or> n < request),
       player := (player s)\<lparr>ring := bytes\<rparr>, position := position s + unat n\<rparr>)"
proof -
  define p where "p = player s"
  have n: "unat n \<le> unat request" and left: "position s + unat n \<le> length source div frame_bytes p"
    using contract pc by (simp_all add: word_le_nat_alt frames_in_source_def p_def)
  have left: "(position s + unat n) * frame_bytes p \<le> length source"
    using left by (metis mult.commute div_times_less_eq_dividend mult_le_mono1 order_trans)
  have pre: "written = writtenFrame p" "position s = unat written" "0 < request"
    "unat written + unat request \<le> unat (readFrame p) + capacity p"
    "unat written mod capacity p + unat request \<le> capacity p"
    using segment_okD(5) [OF ok] unfolding pc p_def prefetcher_ok.simps by blast+
  have ring: "ring_ok p" and
    holds: "ring_holds source p (unat (readFrame p) * frame_bytes p) (position s * frame_bytes p)"
    using ok by (simp_all add: segment_ok_def p_def)
  have fits: "position s + unat n \<le> unat (readFrame p) + capacity p"
      "position s mod capacity p + unat n \<le> capacity p"
    using pre n by simp_all
  obtain bytes where bytes:
    "memcpy (ring p) (unat (writtenFrame p mod ringCapacityFrames p) * frame_bytes p)
       (decoded_bytes source s n) 0 (length (decoded_bytes source s n)) = Inr bytes"
    "length bytes = length (ring p)"
    "ring_holds source (p\<lparr>ring := bytes\<rparr>) (unat (readFrame p) * frame_bytes p)
       ((position s + unat n) * frame_bytes p)"
    using decode_ok [OF ring holds _ refl fits left, of "decoded_bytes source s n"] pre
    by (auto simp: decoded_bytes_def Let_def p_def)
  have empty: "n = 0 \<longrightarrow> (\<not> success \<or> n < request)" using pre(3) by (simp add: word_gt_0)
  show ?thesis
  proof (rule that [of bytes])
    show "prefetch_step source n success s = Inr (s\<lparr>
       prefetcher := Prefetch_Publish written n (\<not> success \<or> n < request),
       player := (player s)\<lparr>ring := bytes\<rparr>, position := position s + unat n\<rparr>)"
      using pc bytes(1) pre by (simp add: prefetch_decode_def p_def)
    show "segment_ok source (s\<lparr>
       prefetcher := Prefetch_Publish written n (\<not> success \<or> n < request),
       player := (player s)\<lparr>ring := bytes\<rparr>, position := position s + unat n\<rparr>)"
      using ok bytes(2,3) left fits pre(1,2) pc empty
      by (simp add: segment_ok_def p_def ring_ok_def)
  qed
qed

lemma publish_step_ok:
  assumes ok: "segment_ok source s" and pc: "prefetcher s = Prefetch_Publish written n finished"
  shows "prefetch_step source k success s = Inr (s\<lparr>
      prefetcher := (if finished then Prefetch_Finish else Prefetch_Loop),
      player := (player s)\<lparr>writtenFrame := written + n\<rparr>\<rparr>)"
    "unat (written + n) = position s"
    "segment_ok source (s\<lparr>
      prefetcher := (if finished then Prefetch_Finish else Prefetch_Loop),
      player := (player s)\<lparr>writtenFrame := written + n\<rparr>\<rparr>)"
proof -
  show "prefetch_step source k success s = Inr (s\<lparr>
      prefetcher := (if finished then Prefetch_Finish else Prefetch_Loop),
      player := (player s)\<lparr>writtenFrame := written + n\<rparr>\<rparr>)"
    using pc by (simp add: prefetch_publish_def)
  have pre: "written = writtenFrame (player s)" "position s = unat written + unat n"
    "position s \<le> unat (readFrame (player s)) + capacity (player s)"
    using segment_okD(5) [OF ok] unfolding pc prefetcher_ok.simps by blast+
  show sum: "unat (written + n) = position s"
    using segment_ok_position [OF ok] pre(2) by (simp add: unat_add_no_wrap)
  have grows: "writtenFrame (player s) \<le> written + n"
    using sum pre by (simp add: word_le_nat_alt)
  have rok: "unat (readFrame (player s)) \<le> unat written"
    using ok pre(1) by (simp add: segment_ok_def ring_ok_def)
  have cb: "callback_ok source (callback s) ((player s)\<lparr>writtenFrame := written + n\<rparr>)"
    using ok grows by (intro callback_ok_written) (simp_all add: segment_ok_def)
  have ring: "ring_ok ((player s)\<lparr>writtenFrame := written + n\<rparr>)"
    using ok sum pre rok by (simp add: segment_ok_def ring_ok_def)
  show "segment_ok source (s\<lparr>
      prefetcher := (if finished then Prefetch_Finish else Prefetch_Loop),
      player := (player s)\<lparr>writtenFrame := written + n\<rparr>\<rparr>)"
    using segment_okD(1-4,7-10) [OF ok] sum ring cb pc by (simp add: segment_ok_def ring_holds_def)
qed

lemma prefetch_step_ok:
  assumes ok: "segment_ok source s" and contract: "decoder_delivers source (Prefetch n success) s"
  obtains s' where "prefetch_step source n success s = Inr s'" "segment_ok source s'"
proof (cases "prefetcher s")
  case Prefetch_Loop
  have "segment_ok source (s\<lparr>prefetcher := prefetch_request (player s)\<rparr>)"
    using ok Prefetch_Loop prefetch_request_ok [of "player s"] segment_okD(2,4) [OF ok]
    by (simp add: segment_ok_def)
  then show ?thesis using that Prefetch_Loop by simp
next
  case (Prefetch_Decode written request)
  then show ?thesis using decode_step_ok [OF ok Prefetch_Decode contract] that by blast
next
  case (Prefetch_Publish written k finished)
  then show ?thesis using publish_step_ok [OF ok Prefetch_Publish] that by blast
next
  case Prefetch_Finish
  have "segment_ok source (s\<lparr>prefetcher := Prefetch_Ended, player := (player s)\<lparr>decoderFinished := True\<rparr>\<rparr>)"
    using segment_okD [OF ok] Prefetch_Finish by (simp add: segment_ok_def ring_ok_def ring_holds_def)
  then show ?thesis using that Prefetch_Finish by (simp add: prefetch_finish_def)
next
  case Prefetch_Ended
  then show ?thesis using that ok by simp
qed

lemma output_of_ring:
  assumes ring: "ring_ok p" and holds: "ring_holds source p (r * f) (m * f)"
    and size: "f = frame_bytes p" and r: "r = unat (readFrame p)"
    and n: "r + n \<le> m" "n \<le> capacity p" "n \<le> count" and left: "m * f \<le> length source"
    and first: "k = min n (capacity p - r mod capacity p)"
  obtains out out' where
    "memcpy (replicate (count * f) 0) 0 (ring p) ((r mod capacity p) * f) (k * f) = Inr out"
    "n > k \<Longrightarrow> memcpy out (k * f) (ring p) 0 ((n - k) * f) = Inr out'"
    "\<not> n > k \<Longrightarrow> out' = out"
    "take (n * f) out' = take (n * f) (drop (r * f) source)"
    "length out' = count * f" "drop (n * f) out' = replicate ((count - n) * f) 0"
proof -
  let ?c = "capacity p"
  have len: "length (ring p) = ?c * f" and f: "0 < f" and c: "0 < ?c"
    using ring by (simp_all add: ring_ok_def size)
  have rc: "r mod ?c < ?c" using c by simp
  have k: "k \<le> n" "r mod ?c + k \<le> ?c" "k \<le> count" using first n rc by simp_all
  have fit1: "0 + k * f \<le> length (replicate (count * f) (0 :: u8))" using k(3) by simp
  have "(r mod ?c + k) * f \<le> ?c * f" using k(2) by (rule mult_le_mono1)
  then have fit2: "(r mod ?c) * f + k * f \<le> length (ring p)" by (simp add: len add_mult_distrib)
  obtain out where out: "memcpy (replicate (count * f) 0) 0 (ring p) ((r mod ?c) * f) (k * f) = Inr out"
    "length out = length (replicate (count * f) (0 :: u8))"
    "\<And>i. i < length (replicate (count * f) (0 :: u8)) \<Longrightarrow> out ! i =
       (if 0 \<le> i \<and> i < 0 + k * f then ring p ! ((r mod ?c) * f + (i - 0)) else replicate (count * f) 0 ! i)"
    using memcpy_Inr [OF fit1 fit2] by blast
  note out = out(1) out(2,3) [unfolded length_replicate]
  obtain out' where out': "n > k \<Longrightarrow> memcpy out (k * f) (ring p) 0 ((n - k) * f) = Inr out'"
    "\<not> n > k \<Longrightarrow> out' = out" "length out' = count * f"
    "\<And>i. i < count * f \<Longrightarrow> out' ! i =
       (if k * f \<le> i \<and> i < n * f then ring p ! (i - k * f) else out ! i)"
  proof (cases "n > k")
    case True
    then have wrap: "k = ?c - r mod ?c" using first by (simp add: min_def split: if_splits)
    have fit3: "k * f + (n - k) * f \<le> length out"
      using out(2) n(3) True by (simp flip: add_mult_distrib)
    have "n - k \<le> ?c" using n(2) by simp
    then have fit4: "0 + (n - k) * f \<le> length (ring p)" by (simp add: len)
    obtain bytes where bytes: "memcpy out (k * f) (ring p) 0 ((n - k) * f) = Inr bytes"
      "length bytes = length out"
      "\<And>i. i < length out \<Longrightarrow> bytes ! i =
         (if k * f \<le> i \<and> i < k * f + (n - k) * f then ring p ! (0 + (i - k * f)) else out ! i)"
      using memcpy_Inr [OF fit3 fit4] by blast
    have "k * f + (n - k) * f = n * f" using True by (simp flip: add_mult_distrib)
    then show ?thesis using that [of bytes] bytes True out(2) by simp
  next
    case False
    then have "n = k" using k(1) by simp
    then show ?thesis using False out(2) by (intro that [of out]) auto
  qed
  have stored: "out' ! i = source ! (r * f + i)" if i: "i < n * f" for i
  proof -
    have ic: "i < count * f" using i mult_le_mono1 [OF n(3), of f] by linarith
    have window: "r * f \<le> r * f + i" "r * f + i < m * f"
      using i n(1) mult_le_mono1 [of "r + n" m f] by (simp_all add: add_mult_distrib)
    have kept: "ring p ! ((r * f + i) mod (?c * f)) = source ! (r * f + i)"
      using holds window by (simp add: ring_holds_def size)
    show ?thesis
    proof (cases "i < k * f")
      case True
      then have "out' ! i = ring p ! ((r mod ?c) * f + i)" using out'(4) [OF ic] out(3) [OF ic] True by simp
      also have "(r mod ?c) * f + i = (r * f + i) mod (?c * f)"
        using ring_index [OF k(2) True] by simp
      finally show ?thesis using kept by simp
    next
      case False
      then have "out' ! i = ring p ! (i - k * f)" using out'(4) [OF ic] i False by simp
      have "n > k" using False i by (metis mult_le_mono1 not_le order_less_le_trans)
      then have wrap: "k + r mod ?c = ?c" using first rc by (simp add: min_def split: if_splits)
      have "r * f + i = (r div ?c * ?c + r mod ?c) * f + i" by simp
      also have "\<dots> = (r div ?c * ?c + (k + r mod ?c)) * f + (i - k * f)"
        using False by (simp add: add_mult_distrib)
      also have "\<dots> = (r div ?c + 1) * (?c * f) + (i - k * f)"
        unfolding wrap by (simp add: algebra_simps)
      finally have split: "r * f + i = (r div ?c + 1) * (?c * f) + (i - k * f)" .
      have "(r * f + i) mod (?c * f) = (i - k * f) mod (?c * f)"
        unfolding split by (rule mod_mult_self3)
      moreover have "i - k * f < ?c * f"
        using i n(2) mult_le_mono1 [of n ?c f] by linarith
      ultimately show ?thesis using \<open>out' ! i = ring p ! (i - k * f)\<close> kept by simp
    qed
  qed
  have "take (n * f) out' = take (n * f) (drop (r * f) source)"
  proof (rule nth_equalityI)
    have "(r + n) * f \<le> length source"
      using mult_le_mono1 [OF n(1), of f] left by linarith
    moreover have "n * f \<le> length out'" using mult_le_mono1 [OF n(3), of f] out'(3) by simp
    ultimately show "length (take (n * f) out') = length (take (n * f) (drop (r * f) source))"
      unfolding length_take length_drop add_mult_distrib by linarith
    fix i assume "i < length (take (n * f) out')"
    then have i: "i < n * f" by simp
    show "take (n * f) out' ! i = take (n * f) (drop (r * f) source) ! i"
      using stored [OF i] i \<open>(r + n) * f \<le> length source\<close> by (simp add: add_mult_distrib)
  qed
  moreover have "drop (n * f) out' = replicate ((count - n) * f) 0"
  proof (rule nth_equalityI)
    show "length (drop (n * f) out') = length (replicate ((count - n) * f) (0 :: u8))"
      by (simp add: out'(3) diff_mult_distrib)
    fix i assume "i < length (drop (n * f) out')"
    then have i: "n * f + i < count * f" by (simp add: out'(3))
    have "k * f \<le> n * f + i" using k(1) mult_le_mono1 [of k n f] by linarith
    moreover have "n * f \<le> length out'" using i out'(3) by linarith
    ultimately show "drop (n * f) out' ! i = replicate ((count - n) * f) 0 ! i"
      using i out'(4) [OF i] out(3) [OF i]
      by (simp add: nth_drop out'(3) diff_mult_distrib)
  qed
  ultimately show ?thesis using that out(1) out'(1-3) by blast
qed

lemma prefetcher_position: "prefetcher_ok pc pos p \<Longrightarrow> unat (writtenFrame p) \<le> pos"
  by (cases pc) auto

text \<open>What a callback copies: the next frames of the stream, as many as fit, then silence.\<close>

lemma copy_step_ok:
  assumes ok: "segment_ok source s" and pc: "callback s = Callback_Copy count read written"
  obtains n outp where
    "callback_copy count read written (player s) = Inr (Callback_Store read n written outp)"
    "unat n = min (unat count) (unat written - unat read)"
    "take (unat n * frame_bytes (player s)) outp =
       take (unat n * frame_bytes (player s)) (drop (unat read * frame_bytes (player s)) source)"
    "drop (unat n * frame_bytes (player s)) outp =
       replicate ((unat count - unat n) * frame_bytes (player s)) 0"
    "length outp = unat count * frame_bytes (player s)"
proof -
  define p where "p = player s"
  note facts = segment_okD [OF ok, folded p_def]
  have pre: "read = readFrame p" "unat read \<le> unat written" "unat written \<le> unat (writtenFrame p)"
    using facts(6) unfolding pc callback_ok.simps word_le_nat_alt by blast+
  have W: "unat (writtenFrame p) \<le> position s"
    using prefetcher_position [OF facts(5)] .
  have window: "unat (writtenFrame p) \<le> unat (readFrame p) + capacity p" and cap: "0 < capacity p"
    using facts(1) by (simp_all add: ring_ok_def)
  define n where "n = min (ucast count) (written - read)"
  define k where "k = min n (ringCapacityFrames p - read mod ringCapacityFrames p)"
  have n: "unat n = min (unat count) (unat written - unat read)"
    using pre(2) by (simp add: n_def unat_min unat_u64_sub word_le_nat_alt)
  have k: "unat k = min (unat n) (capacity p - unat read mod capacity p)"
    using contiguous_frames(1) [OF cap, of read] by (simp add: k_def unat_min)
  have n1: "unat read + unat n \<le> position s" and n2: "unat n \<le> capacity p"
    and n3: "unat n \<le> unat count"
    using n pre(2,3) W window arg_cong [OF pre(1), of unat] by linarith+
  obtain out out' where out:
    "memcpy (silence count p) 0 (ring p) (unat (read mod ringCapacityFrames p) * frame_bytes p)
       (unat k * frame_bytes p) = Inr out"
    "unat n > unat k \<Longrightarrow> memcpy out (unat k * frame_bytes p) (ring p) 0
       ((unat n - unat k) * frame_bytes p) = Inr out'"
    "\<not> unat n > unat k \<Longrightarrow> out' = out"
    "take (unat n * frame_bytes p) out' =
       take (unat n * frame_bytes p) (drop (unat read * frame_bytes p) source)"
    "length out' = unat count * frame_bytes p"
    "drop (unat n * frame_bytes p) out' = replicate ((unat count - unat n) * frame_bytes p) 0"
    using output_of_ring [OF facts(1) facts(4) [folded pre(1)] refl
        arg_cong [OF pre(1), of unat] n1 n2 n3 facts(2) k]
    unfolding silence_def unat_mod by blast
  have "unat (n - k) = unat n - unat k" if "k < n"
    using that by (simp add: unat_u64_sub)
  then have "callback_copy count read written p = Inr (Callback_Store read n written out')"
    using out(1-3)
    by (simp add: callback_copy_def Let_def word_less_nat_alt flip: n_def k_def)
  then show ?thesis using that n out(4-6) by (simp add: p_def)
qed

lemma store_step_ok:
  assumes ok: "segment_ok source s" and pc: "callback s = Callback_Store read n written outp"
  shows "segment_ok source (s\<lparr>callback := Callback_Check (read + n) written,
      player := (player s)\<lparr>readFrame := read + n, submittedFrames := submittedFrames (player s) + n\<rparr>,
      delivered := delivered s @ take (unat n * frame_bytes (player s)) outp\<rparr>)"
    "unat (read + n) = unat read + unat n" "read = readFrame (player s)"
    "delivered s @ take (unat n * frame_bytes (player s)) outp =
       take (unat (read + n) * frame_bytes (player s)) source"
    "unat read + unat n \<le> unat (writtenFrame (player s))"
proof -
  define p where "p = player s"
  note facts = segment_okD [OF ok, folded p_def]
  have pre: "read = readFrame p" "unat read + unat n \<le> unat written" "written \<le> writtenFrame p"
    "take (unat n * frame_bytes p) outp =
       take (unat n * frame_bytes p) (drop (unat read * frame_bytes p) source)"
    using facts(6) unfolding pc callback_ok.simps by blast+
  show read_eq: "read = readFrame (player s)" using pre(1) by (simp add: p_def)
  show sum: "unat (read + n) = unat read + unat n"
    using pre(2) unat_u64_less [of written] by (intro unat_add_no_wrap) linarith
  have W: "unat written \<le> unat (writtenFrame p)" using pre(3) by (simp add: word_le_nat_alt)
  then show "unat read + unat n \<le> unat (writtenFrame (player s))"
    using pre(2) by (simp add: p_def)
  show given: "delivered s @ take (unat n * frame_bytes (player s)) outp =
      take (unat (read + n) * frame_bytes (player s)) source"
    unfolding sum add_mult_distrib take_add using facts(7) pre(1,4) by (simp add: p_def)
  let ?q = "p\<lparr>readFrame := read + n, submittedFrames := submittedFrames p + n\<rparr>"
  have ring: "ring_ok ?q"
    using facts(1) sum pre(1,2) W unfolding ring_ok_def by simp
  have holds: "ring_holds source ?q (unat (read + n) * frame_bytes p) (position s * frame_bytes p)"
  proof -
    have "unat (read + n) * frame_bytes p = unat (readFrame p) * frame_bytes p + unat n * frame_bytes p"
      using sum pre(1) by (simp add: add_mult_distrib)
    then show ?thesis using facts(4) by (auto simp: ring_holds_def)
  qed
  have prefetch: "prefetcher_ok (prefetcher s) (position s) ?q"
    using facts(5) pre(1) sum by (cases "prefetcher s") auto
  have clock: "playbackClock p \<noteq> None" using facts(9) pc by auto
  show "segment_ok source (s\<lparr>callback := Callback_Check (read + n) written,
      player := (player s)\<lparr>readFrame := read + n, submittedFrames := submittedFrames (player s) + n\<rparr>,
      delivered := delivered s @ take (unat n * frame_bytes (player s)) outp\<rparr>)"
  proof -
    have "unat (read + n) \<le> unat written" using pre(2) sum by simp
    then show ?thesis
      using facts(2,3,8,10) ring holds prefetch clock given pre(3) pre(1) [symmetric]
      by (simp add: segment_ok_def word_le_nat_alt flip: p_def)
  qed
qed

lemma segment_ok_callback:
  "segment_ok source s \<Longrightarrow> callback_ok source cb (player s) \<Longrightarrow>
   playbackClock (player s) \<noteq> None \<or> cb = Callback_Idle \<Longrightarrow> segment_ok source (s\<lparr>callback := cb\<rparr>)"
  by (auto simp: segment_ok_def)

text \<open>A step of the callback keeps the invariant; it can only fail on a clock out of range.\<close>

lemma callback_step_ok:
  assumes ok: "segment_ok source s" and allowed: "callback s = Callback_Idle \<longrightarrow> playbackClock (player s) \<noteq> None"
  shows "case callback_step count now now' now'' s of
      Inr s' \<Rightarrow> segment_ok source s' | Inl e \<Rightarrow> e = Signed_Overflow"
proof (cases "callback s")
  case Callback_Idle
  have clock: "playbackClock (player s) \<noteq> None" using allowed Callback_Idle by simp
  have enter: ?thesis if "callback_enter count now now' now'' (player s) = Inr (pc, q)"
    "same_ring (player s) q" "playbackClock q = playbackClock (player s)"
    "submittedFrames q = submittedFrames (player s)"
    "segmentStartFrame q = segmentStartFrame (player s)"
    "pc = Callback_Idle \<or> pc = Callback_Copy count (readFrame q) (writtenFrame q)" for pc q
  proof -
    have kept: "segment_ok source (s\<lparr>player := q\<rparr>)"
      using segment_ok_same_ring [OF ok that(2-5)] .
    have "callback_ok source pc q"
      using that(6) segment_okD(1) [OF kept] by (auto simp: ring_ok_def word_le_nat_alt)
    then have "segment_ok source (s\<lparr>callback := pc, player := q\<rparr>)"
      using kept clock that(3) by (auto simp: segment_ok_def)
    then show ?thesis using that(1) Callback_Idle by simp
  qed
  have same: "same_ring (player s) (player s)" by (simp add: same_ring_def)
  show ?thesis
  proof (cases "now < segmentStartTime (player s) \<or> \<not> endReached (player s)")
    case True
    have "callback_enter count now now' now'' (player s) =
        Inr (if now < segmentStartTime (player s) then Callback_Idle
             else Callback_Copy count (readFrame (player s)) (writtenFrame (player s)), player s)"
      using True clock by (auto simp: callback_enter_def)
    then show ?thesis by (rule enter [OF _ same refl refl refl]) simp
  next
    case False
    show ?thesis
    proof (cases "freezeTimeline True now' now'' (player s)")
      case (Inl e)
      have "e = Signed_Overflow"
        using Inl
        by (auto simp: freezeTimeline_def and_then_Inl_iff elapsedAt_def signed64_def
          frameToTimestamp_def frameToDuration_def Let_def split: option.splits if_splits)
      then show ?thesis using Inl False Callback_Idle by (simp add: callback_enter_def)
    next
      case (Inr q)
      show ?thesis
        by (rule enter [of Callback_Idle "q\<lparr>isPlaying := False\<rparr>"])
          (use freezeTimeline_frame [OF Inr] False Inr in
            \<open>simp_all add: callback_enter_def same_ring_def\<close>)
    qed
  qed
next
  case (Callback_Copy c read written)
  obtain n outp where out:
    "callback_copy c read written (player s) = Inr (Callback_Store read n written outp)"
    "unat n = min (unat c) (unat written - unat read)"
    "take (unat n * frame_bytes (player s)) outp =
       take (unat n * frame_bytes (player s)) (drop (unat read * frame_bytes (player s)) source)"
    using copy_step_ok [OF ok Callback_Copy] by blast
  have "read \<le> written" "written \<le> writtenFrame (player s)" "read = readFrame (player s)"
    using segment_okD(6) [OF ok] unfolding Callback_Copy callback_ok.simps by blast+
  then have "callback_ok source (Callback_Store read n written outp) (player s)"
    using out(2,3) by (simp add: word_le_nat_alt)
  then have "segment_ok source (s\<lparr>callback := Callback_Store read n written outp\<rparr>)"
    by (rule segment_ok_callback [OF ok]) (use segment_okD(9) [OF ok] Callback_Copy in auto)
  then show ?thesis using Callback_Copy out(1) by simp
next
  case (Callback_Store read n written outp)
  then show ?thesis
    using store_step_ok(1) [OF ok Callback_Store] by (simp add: callback_store_def)
next
  case (Callback_Check reached written)
  have idle: "segment_ok source (s\<lparr>callback := Callback_Idle\<rparr>)"
    by (rule segment_ok_callback [OF ok]) simp_all
  have "segment_ok source (s\<lparr>callback := Callback_Idle,
      player := (player s)\<lparr>endReached := True\<rparr>\<rparr>)"
    using segment_ok_same_ring [OF idle, of "(player s)\<lparr>endReached := True\<rparr>"]
    by (simp add: same_ring_def)
  then show ?thesis using idle Callback_Check by (simp add: callback_check_def)
qed

end
