(* ===== verification/Player_Runs.thy ===== *)
theory Player_Runs
  imports Player_Ring
begin

text \<open>
  What holds of every run of a segment of the local player: the ring as a queue, the audio the device
  gets, the end of the stream and the two loops that wait for it.
\<close>

section \<open>The invariant holds in every run\<close>

lemma playFrom_begin_facts:
  assumes "playFrom_begin frame now now' seekError frameSize p = (Inr (), q)" "0 < frameSize"
  shows "ring_ok q" "readFrame q = 0" "writtenFrame q = 0" "playbackClock q = None"
    "\<not> decoderFinished q" "bytesPerFrame q = frameSize" "prefetchRunning q" "decoderInitialized q"
    "ringCapacityFrames q = max (ucast (fileRate (metadata q))) 4096" "\<not> deviceInitialized q"
proof -
  obtain p' where p': "stop_player now now' p = Inr p'" and seek: "seekError = None"
    and init: "decoderInitialized p"
    using assms(1)
    by (auto simp: playFrom_begin_def Let_def split: if_splits sum.splits option.splits)
  define c where "c = max (ucast (fileRate (metadata p'))) (4096 :: u64)"
  define m where "m = unat c * unat frameSize"
  have q: "q = p'\<lparr>playbackClock := None, submittedFrames := frame, stoppedFrame := frame,
      stoppedElapsedNanoseconds := 0, bytesPerFrame := frameSize, ringCapacityFrames := c,
      ring := take m (ring p') @ replicate (m - length (ring p')) 0,
      readFrame := 0, writtenFrame := 0, decoderFinished := False, prefetchRunning := True\<rparr>"
    using assms(1) p' seek init by (simp add: playFrom_begin_def Let_def c_def m_def)
  have "(4096 :: u64) \<le> c" by (simp add: c_def)
  then have "0 < unat c" by (simp add: word_le_nat_alt)
  moreover have "0 < unat frameSize" using assms(2) by (simp add: word_less_nat_alt)
  ultimately show "ring_ok q" by (simp add: ring_ok_def q m_def)
  have same: "decoderInitialized p' = decoderInitialized p"
    using p' by (auto simp: stop_player_def freezeTimeline_def Let_def res_simps
        split: option.splits if_splits)
  show "decoderInitialized q" using same init by (simp add: q)
  show "\<not> deviceInitialized q" using stop_player_frame(6) [OF p'] by (simp add: q)
  show "ringCapacityFrames q = max (ucast (fileRate (metadata q))) 4096" by (simp add: q c_def)
  show "readFrame q = 0" "writtenFrame q = 0" "playbackClock q = None" "\<not> decoderFinished q"
    "bytesPerFrame q = frameSize" "prefetchRunning q"
    by (simp_all add: q)
qed

lemma playFrom_start_facts:
  assumes "playFrom_start frame startTime initError startError p = (result, q)"
    "playbackClock p = None"
  shows "same_ring p q" "playbackClock q \<noteq> None \<Longrightarrow> submittedFrames q = frame \<and>
      segmentStartFrame q = frame \<and> segmentStartTime q = startTime \<and> \<not> endReached q \<and>
      isPlaying q \<and> timelineRunning q \<and> deviceInitialized q"
  using assms
  by (auto simp: playFrom_start_def same_ring_def Let_def
      split: option.splits sum.splits if_splits)

lemma segment_run_ok: "segment_run source s \<Longrightarrow> segment_ok source s"
proof (induction rule: segment_run.induct)
  case (opened frame now now' seekError frameSize p q)
  show ?case
    using playFrom_begin_facts [OF opened(1,2)] opened(3)
    by (simp add: segment_ok_def segment_of_def ring_holds_def)
next
  case (started s frame startTime initError startError result q)
  note facts = playFrom_start_facts [OF started(5,4)]
  have "readFrame (player s) = 0" "callback s = Callback_Idle"
    using segment_okD(9) [OF started.IH] started(4) by simp_all
  moreover have "readFrame q = readFrame (player s)" "decoderFinished q = decoderFinished (player s)"
      "bytesPerFrame q = bytesPerFrame (player s)"
    using facts(1) by (simp_all add: same_ring_def)
  ultimately show ?case
    using segment_okD [OF started.IH] same_ring_ok [OF facts(1)] facts(2)
    by (simp add: segment_ok_def)
next
  case (stepped s e s')
  show ?case
  proof (cases e)
    case (Prefetch n success)
    then show ?thesis
      using prefetch_step_ok [OF stepped.IH, of n success] stepped(2,4) by auto
  next
    case (Callback count now now' now'')
    then show ?thesis
      using callback_step_ok [OF stepped.IH, of count now now' now''] stepped(3,4) by auto
  qed
next
  case (stopped s now now' q)
  show ?case
    by (rule segment_ok_same_ring [OF stopped.IH]) (use stop_player_frame [OF stopped(2)] in simp_all)
qed

section \<open>The ring as a queue\<close>

text \<open>The bytes published and not yet read.\<close>

definition queued :: "Player \<Rightarrow> u8 list" where
  "queued p = map (\<lambda>i. ring p ! (i mod (capacity p * frame_bytes p)))
     [unat (readFrame p) * frame_bytes p ..< unat (writtenFrame p) * frame_bytes p]"

definition moves :: "u8 list \<Rightarrow> Segment \<Rightarrow> Segment \<Rightarrow> bool" where
  "moves source s t \<longleftrightarrow>
     (\<exists>e. decoder_delivers source e s \<and> callback_allowed e s \<and> segment_step source e s = Inr t)"

lemma moves_ok: "segment_ok source s \<Longrightarrow> moves source s t \<Longrightarrow> segment_ok source t"
proof -
  assume ok: "segment_ok source s" and "moves source s t"
  then obtain e where e: "decoder_delivers source e s" "callback_allowed e s"
    "segment_step source e s = Inr t"
    by (auto simp: moves_def)
  show "segment_ok source t"
  proof (cases e)
    case (Prefetch n success)
    then show ?thesis using prefetch_step_ok [OF ok, of n success] e by auto
  next
    case (Callback count now now' now'')
    then show ?thesis using callback_step_ok [OF ok, of count now now' now''] e by auto
  qed
qed

lemma position_covers: "segment_ok source s \<Longrightarrow> unat (writtenFrame (player s)) \<le> position s"
  using segment_okD(5) prefetcher_position by blast

lemma written_in_source:
  assumes "segment_ok source s"
  shows "unat (writtenFrame (player s)) * frame_bytes (player s) \<le> length source"
    "unat (readFrame (player s)) * frame_bytes (player s) \<le>
       unat (writtenFrame (player s)) * frame_bytes (player s)"
proof -
  show "unat (writtenFrame (player s)) * frame_bytes (player s) \<le> length source"
    using mult_le_mono1 [OF position_covers [OF assms], of "frame_bytes (player s)"]
      segment_okD(2) [OF assms] by linarith
  show "unat (readFrame (player s)) * frame_bytes (player s) \<le>
      unat (writtenFrame (player s)) * frame_bytes (player s)"
    using segment_okD(1) [OF assms] by (intro mult_le_mono1) (simp add: ring_ok_def)
qed

lemma queued_eq:
  assumes "segment_ok source s"
  shows "delivered s @ queued (player s) =
      take (unat (writtenFrame (player s)) * frame_bytes (player s)) source"
    "length (queued (player s)) \<le> capacity (player s) * frame_bytes (player s)"
proof -
  let ?p = "player s"
  let ?r = "unat (readFrame ?p) * frame_bytes ?p" and ?w = "unat (writtenFrame ?p) * frame_bytes ?p"
  note bounds = written_in_source [OF assms]
  have pos: "?w \<le> position s * frame_bytes ?p"
    using position_covers [OF assms] by (rule mult_le_mono1)
  have "ring ?p ! (i mod (capacity ?p * frame_bytes ?p)) = source ! i" if "?r \<le> i" "i < ?w" for i
    using segment_okD(4) [OF assms] that less_le_trans [OF that(2) pos] by (simp add: ring_holds_def)
  then have "queued ?p = map (\<lambda>i. source ! i) [?r..<?w]" by (simp add: queued_def)
  also have "\<dots> = take (?w - ?r) (drop ?r source)"
    using bounds by (intro nth_equalityI) simp_all
  finally have "queued ?p = take (?w - ?r) (drop ?r source)" .
  then show "delivered s @ queued ?p = take ?w source"
    using segment_okD(7) [OF assms] bounds take_add [of ?r "?w - ?r" source] by simp
  have "unat (writtenFrame ?p) \<le> unat (readFrame ?p) + capacity ?p"
    using segment_okD(1) [OF assms] by (simp add: ring_ok_def)
  from mult_le_mono1 [OF this, of "frame_bytes ?p"]
  show "length (queued ?p) \<le> capacity ?p * frame_bytes ?p"
    by (simp add: queued_def add_mult_distrib)
qed

text \<open>A step moves at most one of the counters, and only forward.\<close>

lemma step_counters:
  assumes "segment_ok source s" "moves source s t"
  shows "bytesPerFrame (player t) = bytesPerFrame (player s)"
    "ringCapacityFrames (player t) = ringCapacityFrames (player s)"
    "readFrame (player t) = readFrame (player s) \<and> delivered t = delivered s \<and>
       unat (writtenFrame (player s)) \<le> unat (writtenFrame (player t)) \<or>
     writtenFrame (player t) = writtenFrame (player s) \<and>
       unat (readFrame (player s)) \<le> unat (readFrame (player t))"
proof -
  obtain e where e: "decoder_delivers source e s" "callback_allowed e s"
    "segment_step source e s = Inr t"
    using assms(2) by (auto simp: moves_def)
  have "bytesPerFrame (player t) = bytesPerFrame (player s) \<and>
     ringCapacityFrames (player t) = ringCapacityFrames (player s) \<and>
    (readFrame (player t) = readFrame (player s) \<and> delivered t = delivered s \<and>
       unat (writtenFrame (player s)) \<le> unat (writtenFrame (player t)) \<or>
     writtenFrame (player t) = writtenFrame (player s) \<and>
       unat (readFrame (player s)) \<le> unat (readFrame (player t)))"
  proof (cases e)
    case (Prefetch n success)
    show ?thesis
    proof (cases "\<exists>w k fin. prefetcher s = Prefetch_Publish w k fin")
      case True
      then obtain w k fin where pc: "prefetcher s = Prefetch_Publish w k fin" by blast
      have "unat (writtenFrame (player s)) \<le> unat (w + k)"
        using publish_step_ok(2) [OF assms(1) pc] position_covers [OF assms(1)] by simp
      then show ?thesis using publish_step_ok(1) [OF assms(1) pc] e Prefetch by auto
    next
      case False
      then show ?thesis
        using e Prefetch
        by (auto simp: prefetch_decode_def prefetch_finish_def res_simps
            split: prefetch_state.splits)
    qed
  next
    case (Callback count now now' now'')
    show ?thesis
    proof (cases "callback s")
      case Callback_Idle
      then show ?thesis
        using e Callback freezeTimeline_frame(1)
        by (fastforce simp: callback_enter_def res_simps same_ring_def split: if_splits)
    next
      case (Callback_Copy c r w)
      then show ?thesis using e Callback by (auto simp: res_simps)
    next
      case (Callback_Store r k w outp)
      then show ?thesis
        using e Callback store_step_ok(2,3) [OF assms(1) Callback_Store]
        by (auto simp: callback_store_def)
    next
      case (Callback_Check c w)
      then show ?thesis using e Callback by (auto simp: callback_check_def split: if_splits)
    qed
  qed
  then show "bytesPerFrame (player t) = bytesPerFrame (player s)"
    "ringCapacityFrames (player t) = ringCapacityFrames (player s)"
    "readFrame (player t) = readFrame (player s) \<and> delivered t = delivered s \<and>
       unat (writtenFrame (player s)) \<le> unat (writtenFrame (player t)) \<or>
     writtenFrame (player t) = writtenFrame (player s) \<and>
       unat (readFrame (player s)) \<le> unat (readFrame (player t))"
    by blast+
qed

text \<open>
  A queue between a producer and a consumer, whatever moves it: each move adds at the back or hands
  over from the front.
\<close>

locale producer_consumer =
  fixes good :: "'s \<Rightarrow> bool"
    and move :: "'s \<Rightarrow> 's \<Rightarrow> bool"
    and queue :: "'s \<Rightarrow> 'a list"
    and got :: "'s \<Rightarrow> 'a list"
  assumes good_move: "good s \<Longrightarrow> move s t \<Longrightarrow> good t"
    and fifo: "good s \<Longrightarrow> move s t \<Longrightarrow>
      (\<exists>xs. queue t = queue s @ xs \<and> got t = got s) \<or>
      (\<exists>xs. queue s = xs @ queue t \<and> got t = got s @ xs)"
begin

lemma good_moves: "move\<^sup>*\<^sup>* s t \<Longrightarrow> good s \<Longrightarrow> good t"
  by (induction rule: rtranclp_induct) (auto intro: good_move)

lemma handed_over_in_order:
  "move\<^sup>*\<^sup>* s t \<Longrightarrow> good s \<Longrightarrow> \<exists>xs. got t @ queue t = got s @ queue s @ xs"
proof (induction rule: rtranclp_induct)
  case base
  then show ?case by simp
next
  case (step t u)
  then obtain xs where xs: "got t @ queue t = got s @ queue s @ xs" by blast
  show ?case
    using fifo [OF good_moves [OF step(1) step.prems] step(2)]
  proof
    assume "\<exists>ys. queue u = queue t @ ys \<and> got u = got t"
    then obtain ys where "queue u = queue t @ ys" "got u = got t" by blast
    then have "got u @ queue u = got s @ queue s @ (xs @ ys)" using xs by (metis append.assoc)
    then show ?thesis by blast
  next
    assume "\<exists>ys. queue t = ys @ queue u \<and> got u = got t @ ys"
    then show ?thesis using xs by auto
  qed
qed

lemma got_grows: "move\<^sup>*\<^sup>* s t \<Longrightarrow> good s \<Longrightarrow> \<exists>xs. got t = got s @ xs"
proof (induction rule: rtranclp_induct)
  case base
  then show ?case by simp
next
  case (step t u)
  then show ?case using fifo [OF good_moves [OF step(1) step.prems] step(2)] by force
qed

end

lemma take_take_append: "m \<le> n \<Longrightarrow> take n xs = take m xs @ take (n - m) (drop m xs)"
  by (metis le_add_diff_inverse take_add)

lemma ring_fifo:
  assumes "segment_ok source s" "moves source s t"
  shows "(\<exists>xs. queued (player t) = queued (player s) @ xs \<and> delivered t = delivered s) \<or>
    (\<exists>xs. queued (player s) = xs @ queued (player t) \<and> delivered t = delivered s @ xs)"
proof -
  note t_ok = moves_ok [OF assms] and counters = step_counters [OF assms]
  have f: "frame_bytes (player t) = frame_bytes (player s)" using counters(1) by simp
  show ?thesis
    using counters(3)
  proof
    assume one: "readFrame (player t) = readFrame (player s) \<and> delivered t = delivered s \<and>
       unat (writtenFrame (player s)) \<le> unat (writtenFrame (player t))"
    then have "unat (writtenFrame (player s)) * frame_bytes (player s) \<le>
        unat (writtenFrame (player t)) * frame_bytes (player t)"
      unfolding f by (intro mult_le_mono1) simp
    from take_take_append [OF this, of source]
    have "delivered t @ queued (player t) = delivered s @ queued (player s) @
        take (unat (writtenFrame (player t)) * frame_bytes (player t) -
          unat (writtenFrame (player s)) * frame_bytes (player s))
         (drop (unat (writtenFrame (player s)) * frame_bytes (player s)) source)"
      using queued_eq(1) [OF assms(1)] queued_eq(1) [OF t_ok] by (metis append.assoc)
    then show ?thesis using one by simp
  next
    assume one: "writtenFrame (player t) = writtenFrame (player s) \<and>
       unat (readFrame (player s)) \<le> unat (readFrame (player t))"
    have same: "delivered t @ queued (player t) = delivered s @ queued (player s)"
      using queued_eq(1) [OF assms(1)] queued_eq(1) [OF t_ok] one f by simp
    have "unat (readFrame (player s)) * frame_bytes (player s) \<le>
        unat (readFrame (player t)) * frame_bytes (player t)"
      unfolding f using one by (intro mult_le_mono1) simp
    from take_take_append [OF this, of source]
    obtain xs where xs: "delivered t = delivered s @ xs"
      using segment_okD(7) [OF assms(1)] segment_okD(7) [OF t_ok] by simp
    then show ?thesis using same by auto
  qed
qed

interpretation ring: producer_consumer "segment_ok source" "moves source"
    "\<lambda>s. queued (player s)" delivered
  for source
  by unfold_locales (erule (1) moves_ok, erule (1) ring_fifo)

section \<open>Callbacks that nobody interrupts\<close>

fun segment_steps :: "u8 list \<Rightarrow> segment_event list \<Rightarrow> Segment \<Rightarrow> exn + Segment" where
  "segment_steps source [] s = Inr s"
| "segment_steps source (e # es) s = and_then (segment_step source e s) (segment_steps source es)"

definition whole_callback :: "u32 \<Rightarrow> int \<Rightarrow> int \<Rightarrow> int \<Rightarrow> Segment \<Rightarrow> exn + Segment" where
  "whole_callback count now now' now'' s =
     and_then (callback_step count now now' now'' s) (\<lambda>s.
       if callback s = Callback_Idle then Inr s
       else and_then (callback_step count now now' now'' s) (\<lambda>s.
            and_then (callback_step count now now' now'' s) (callback_step count now now' now'')))"

lemma frozen_at_end:
  assumes "playbackClock p = Some clock" "0 \<le> now'' - clockStart clock"
    "now'' - clockStart clock \<le> int64_max"
  obtains q where "freezeTimeline True now' now'' p = Inr q" "\<not> timelineRunning q"
proof (cases "timelineRunning p")
  case False
  then show ?thesis using that assms(1) by (simp add: freezeTimeline_def)
next
  case True
  define stopped where "stopped = submittedFrames p"
  have elapsed: "elapsedAt clock now'' = Inr (now'' - clockStart clock)"
    using assms(2,3) by (simp add: elapsedAt_def in_int64_def)
  have "\<exists>e. catch_overflow
      (and_then (frameToTimestamp clock stopped) (\<lambda>boundary.
       and_then (signed64 (boundary - clockStart clock)) (\<lambda>scheduledElapsed.
         Inr (if scheduledElapsed > now'' - clockStart clock then scheduledElapsed
              else now'' - clockStart clock)))) (now'' - clockStart clock) = Inr e"
  proof (cases "frameToDuration clock stopped")
    case (Inl e)
    then have "\<exists>m. e = Overflow_Error m"
      by (auto simp: frameToDuration_def Let_def split: if_splits)
    then show ?thesis using Inl by (auto simp: frameToTimestamp_def)
  next
    case (Inr offset)
    then obtain w where "offset = sint (w :: u64)"
      by (auto simp: frameToDuration_def Let_def split: if_splits)
    then have "in_int64 offset"
      using sint_range_size [of w] by (simp add: in_int64_def word_size)
    then show ?thesis using Inr by (simp add: frameToTimestamp_def)
  qed
  then obtain e where e: "catch_overflow
      (and_then (frameToTimestamp clock stopped) (\<lambda>boundary.
       and_then (signed64 (boundary - clockStart clock)) (\<lambda>scheduledElapsed.
         Inr (if scheduledElapsed > now'' - clockStart clock then scheduledElapsed
              else now'' - clockStart clock)))) (now'' - clockStart clock) = Inr e"
    by blast
  show ?thesis
    by (rule that [of "p\<lparr>stoppedFrame := stopped, stoppedElapsedNanoseconds := e,
        timelineRunning := False\<rparr>"])
      (use True assms(1) elapsed e in \<open>simp_all add: freezeTimeline_def stopped_def\<close>)
qed

text \<open>The audible part of a callback, from its entry to its return.\<close>

lemma whole_callback_plays:
  assumes ok: "segment_ok source s" and idle: "callback s = Callback_Idle"
    and clock: "playbackClock (player s) \<noteq> None" and begun: "segmentStartTime (player s) \<le> now"
    and going: "\<not> endReached (player s)"
  obtains n out t where
    "unat n = min (unat count) (unat (writtenFrame (player s)) - unat (readFrame (player s)))"
    "unat (readFrame (player s) + n) = unat (readFrame (player s)) + unat n"
    "whole_callback count now now' now'' s = Inr t" "segment_ok source t"
    "t = s\<lparr>player := (player s)\<lparr>readFrame := readFrame (player s) + n,
            submittedFrames := submittedFrames (player s) + n,
            endReached := decoderFinished (player s) \<and>
              readFrame (player s) + n = writtenFrame (player s)\<rparr>,
          delivered := delivered s @ out\<rparr>"
proof -
  let ?p = "player s"
  let ?copy = "Callback_Copy count (readFrame ?p) (writtenFrame ?p)"
  have s1: "callback_step count now now' now'' s = Inr (s\<lparr>callback := ?copy\<rparr>)"
    using idle clock begun going by (simp add: callback_enter_def)
  have ok1: "segment_ok source (s\<lparr>callback := ?copy\<rparr>)"
    using callback_step_ok [OF ok, of count now now' now''] s1 clock by simp
  obtain n outp where copy: "callback_copy count (readFrame ?p) (writtenFrame ?p) ?p =
      Inr (Callback_Store (readFrame ?p) n (writtenFrame ?p) outp)"
    "unat n = min (unat count) (unat (writtenFrame ?p) - unat (readFrame ?p))"
  proof -
    have pc: "callback (s\<lparr>callback := ?copy\<rparr>) = ?copy" by simp
    show ?thesis by (rule copy_step_ok [OF ok1 pc]) (use that in simp)
  qed
  let ?store = "Callback_Store (readFrame ?p) n (writtenFrame ?p) outp"
  have s2: "callback_step count now now' now'' (s\<lparr>callback := ?copy\<rparr>) = Inr (s\<lparr>callback := ?store\<rparr>)"
    using copy(1) by simp
  have ok2: "segment_ok source (s\<lparr>callback := ?store\<rparr>)"
    using callback_step_ok [OF ok1, of count now now' now''] s2 by simp
  define out where "out = take (unat n * frame_bytes ?p) outp"
  define q where "q = ?p\<lparr>readFrame := readFrame ?p + n, submittedFrames := submittedFrames ?p + n\<rparr>"
  let ?check = "Callback_Check (readFrame ?p + n) (writtenFrame ?p)"
  have s3: "callback_step count now now' now'' (s\<lparr>callback := ?store\<rparr>) =
      Inr (s\<lparr>callback := ?check, player := q, delivered := delivered s @ out\<rparr>)"
    by (simp add: callback_store_def out_def q_def)
  have ok3: "segment_ok source (s\<lparr>callback := ?check, player := q, delivered := delivered s @ out\<rparr>)"
    using callback_step_ok [OF ok2, of count now now' now''] s3 by simp
  define t where "t = s\<lparr>player := q\<lparr>endReached := decoderFinished ?p \<and>
      readFrame ?p + n = writtenFrame ?p\<rparr>, delivered := delivered s @ out\<rparr>"
  have s4: "callback_step count now now' now''
      (s\<lparr>callback := ?check, player := q, delivered := delivered s @ out\<rparr>) = Inr t"
    using idle going by (simp add: callback_check_def t_def q_def)
  have "segment_ok source t"
    using callback_step_ok [OF ok3, of count now now' now''] s4 by simp
  moreover have "whole_callback count now now' now'' s = Inr t"
    unfolding whole_callback_def s1 and_then_simps using s2 s3 s4 by simp
  moreover have "unat (readFrame ?p + n) = unat (readFrame ?p) + unat n"
    using store_step_ok(2) [OF ok2] by simp
  ultimately show ?thesis using that [of n t out] copy(2) by (simp add: t_def q_def)
qed

lemma whole_callback_ends:
  assumes ok: "segment_ok source s" and idle: "callback s = Callback_Idle"
    and clock: "playbackClock (player s) = Some clock" and begun: "segmentStartTime (player s) \<le> now"
    and ended: "endReached (player s)"
    and readings: "0 \<le> now'' - clockStart clock" "now'' - clockStart clock \<le> int64_max"
  obtains t where "whole_callback count now now' now'' s = Inr t" "segment_ok source t"
    "delivered t = delivered s" "callback t = Callback_Idle" "position t = position s"
    "\<not> isPlaying (player t)" "\<not> timelineRunning (player t)" "endReached (player t)"
    "same_ring (player s) (player t)" "playbackClock (player t) = Some clock"
    "segmentStartTime (player t) = segmentStartTime (player s)"
proof -
  obtain q where q: "freezeTimeline True now' now'' (player s) = Inr q" "\<not> timelineRunning q"
    using frozen_at_end [OF clock readings] by blast
  define t where "t = s\<lparr>callback := Callback_Idle, player := q\<lparr>isPlaying := False\<rparr>\<rparr>"
  have step: "callback_step count now now' now'' s = Inr t"
    using idle begun ended q(1) by (simp add: callback_enter_def t_def)
  have "segment_ok source t"
    using callback_step_ok [OF ok, of count now now' now''] step clock by simp
  moreover have "whole_callback count now now' now'' s = Inr t"
    unfolding whole_callback_def step by (simp add: t_def)
  ultimately show ?thesis
    using that [of t] freezeTimeline_frame [OF q(1)] q(2) ended clock
    by (simp add: t_def same_ring_def)
qed

section \<open>An example file\<close>

text \<open>
  A file of three one-byte frames, so short that the first chunk is the last one: the states a run
  goes through up to the decoded chunk, with the device already asking for audio.
\<close>

definition example_file :: audio_file where
  "example_file = \<lparr>pathText = ''a.wav'', existsError = None, isRegular = True, openError = None,
     lengthError = None, outputRate = 2, outputChannels = 1, pcmFrames = 3\<rparr>"

definition example_source :: "u8 list" where
  "example_source = [10, 20, 30]"

definition example_opened :: Player where
  "example_opened = snd (playFrom_begin 0 0 0 None 1 (snd (load 0 0 example_file Player_new)))"

definition example_started :: Player where
  "example_started = snd (playFrom_start 0 0 None None example_opened)"

lemma example_opened_eq:
  "example_opened = Player_new\<lparr>decoderInitialized := True,
     metadata := \<lparr>fileRate = 2, fileChannels = 1, fileFrames = 3,
       durationSeconds = dbl (dbl 3 / 2)\<rparr>,
     bytesPerFrame := 1, ringCapacityFrames := 4096, ring := replicate 4096 0,
     prefetchRunning := True\<rparr>"
  "playFrom_begin 0 0 0 None 1 (snd (load 0 0 example_file Player_new)) = (Inr (), example_opened)"
  by (simp_all add: example_opened_def playFrom_begin_def load_def stop_player_def
      freezeTimeline_def Player_new_def example_file_def max_def Let_def)

lemma example_started_eq:
  "example_started = example_opened\<lparr>deviceInitialized := True,
     playbackClock := Some \<lparr>clockRate = 2, clockStart = 0\<rparr>, timelineRunning := True,
     isPlaying := True\<rparr>"
  "playFrom_start 0 0 None None example_opened = (Inr (), example_started)"
proof -
  have "playFrom_start 0 0 None None example_opened = (Inr (), example_opened\<lparr>
     deviceInitialized := True, playbackClock := Some \<lparr>clockRate = 2, clockStart = 0\<rparr>,
     timelineRunning := True, isPlaying := True\<rparr>)"
    by (simp add: example_opened_eq(1) playFrom_start_def Player_new_def PlaybackClock_new_def
        frameToTimestamp_def frameToDuration_def nanosecondsPerSecond_def signed64_def in_int64_def
        Let_def)
  then show "example_started = example_opened\<lparr>deviceInitialized := True,
     playbackClock := Some \<lparr>clockRate = 2, clockStart = 0\<rparr>, timelineRunning := True,
     isPlaying := True\<rparr>"
    "playFrom_start 0 0 None None example_opened = (Inr (), example_started)"
    by (simp_all add: example_started_def)
qed

definition example_decoded :: Segment where
  "example_decoded =
     \<lparr>player = example_started\<lparr>ring := example_source @ replicate 4093 0\<rparr>,
      prefetcher = Prefetch_Publish 0 3 True, callback = Callback_Idle, position = 3, delivered = []\<rparr>"

lemma example_fields [simp]:
  "bytesPerFrame example_started = 1" "ringCapacityFrames example_started = 4096"
  "readFrame example_started = 0" "writtenFrame example_started = 0"
  "ring example_started = replicate 4096 0" "prefetchRunning example_started"
  "deviceInitialized example_started" "playbackClock example_started = Some \<lparr>clockRate = 2, clockStart = 0\<rparr>"
  "segmentStartTime example_started = 0" "\<not> endReached example_started"
  "\<not> decoderFinished example_started" "metadata example_opened =
    \<lparr>fileRate = 2, fileChannels = 1, fileFrames = 3, durationSeconds = dbl (dbl 3 / 2)\<rparr>"
  by (simp_all add: example_started_eq(1) example_opened_eq(1) Player_new_def)

lemma example_request:
  "segment_run example_source
     \<lparr>player = example_started, prefetcher = Prefetch_Decode 0 4096, callback = Callback_Idle,
      position = 0, delivered = []\<rparr>"
proof -
  have opened: "segment_run example_source (segment_of example_opened)"
    by (rule segment_run.opened [OF example_opened_eq(2)]) (simp_all add: example_source_def)
  have "prefilled example_opened"
    by (simp add: prefilled_def example_opened_eq(1) Player_new_def)
  then have started: "segment_run example_source (segment_of example_started)"
    using segment_run.started [OF opened, of 0 0 None None "Inr ()" example_started] example_started_eq(2)
    by (simp add: segment_of_def example_opened_eq(1) Player_new_def)
  have "prefetch_request example_started = Prefetch_Decode 0 4096"
    by (simp add: prefetch_request_def Let_def)
  then show ?thesis
    by (intro segment_run.stepped [OF started, of "Prefetch 0 True"]) (simp_all add: segment_of_def)
qed

lemma example_decoded_run: "segment_run example_source example_decoded"
  by (rule segment_run.stepped [OF example_request, of "Prefetch 3 True"])
    (simp_all add: frames_in_source_def example_source_def decoded_bytes_def Let_def
      prefetch_decode_def memcpy_def example_decoded_def)

definition example_finished :: Segment where
  "example_finished = example_decoded\<lparr>prefetcher := Prefetch_Ended,
     player := (player example_decoded)\<lparr>writtenFrame := 3, decoderFinished := True\<rparr>\<rparr>"

lemma example_finished_run: "segment_run example_source example_finished"
proof -
  have "segment_run example_source (example_decoded\<lparr>prefetcher := Prefetch_Finish,
      player := (player example_decoded)\<lparr>writtenFrame := 3\<rparr>\<rparr>)"
    by (rule segment_run.stepped [OF example_decoded_run, of "Prefetch 0 True"])
      (simp_all add: example_decoded_def prefetch_publish_def)
  then show ?thesis
    by (rule segment_run.stepped [where e = "Prefetch 0 True"])
      (simp_all add: example_finished_def prefetch_finish_def)
qed

section \<open>Properties\<close>

text \<open>
  C22. A callback plays the stream: it hands the device the bytes that follow everything delivered
  before, as many whole frames as it was asked for and were published when it looked, and fills the
  rest with silence, however the prefetch thread interleaves with it.
\<close>

theorem callback_plays_stream:
  assumes "segment_run source s" "callback s = Callback_Copy count read written"
  shows "\<exists>n out. callback_copy count read written (player s) = Inr (Callback_Store read n written out) \<and>
    unat n = min (unat count) (unat written - unat read) \<and>
    out = take (unat n * frame_bytes (player s)) (drop (length (delivered s)) source) @
      replicate ((unat count - unat n) * frame_bytes (player s)) 0"
proof -
  note ok = segment_run_ok [OF assms(1)]
  obtain n out where out: "callback_copy count read written (player s) =
      Inr (Callback_Store read n written out)"
    "unat n = min (unat count) (unat written - unat read)"
    "take (unat n * frame_bytes (player s)) out =
       take (unat n * frame_bytes (player s)) (drop (unat read * frame_bytes (player s)) source)"
    "drop (unat n * frame_bytes (player s)) out =
       replicate ((unat count - unat n) * frame_bytes (player s)) 0"
    using copy_step_ok [OF ok assms(2)] by blast
  have "read = readFrame (player s)"
    using segment_okD(6) [OF ok] unfolding assms(2) callback_ok.simps by blast
  then have "length (delivered s) = unat read * frame_bytes (player s)"
    using segment_okD(7) [OF ok] order_trans [OF written_in_source(2) [OF ok] written_in_source(1) [OF ok]]
    by (simp add: min_absorb2)
  then show ?thesis using out append_take_drop_id [of "unat n * frame_bytes (player s)" out] by metis
qed

lemma example_copy_run:
  "segment_run example_source (example_decoded\<lparr>callback := Callback_Copy 2 0 0\<rparr>)"
  by (rule segment_run.stepped [OF example_decoded_run, of "Callback 2 0 0 0"])
    (simp_all add: example_decoded_def callback_enter_def)

theorem callback_plays_stream_witness:
  "\<exists>n out. callback_copy 2 0 0 (player example_decoded) = Inr (Callback_Store 0 n 0 out) \<and>
    unat n = 0 \<and> out = replicate 2 0"
  using callback_plays_stream [OF example_copy_run, of 2 0 0] by (auto simp: example_decoded_def)

text \<open>
  C10. The ring refines a bounded queue of bytes: each step of either thread leaves queue and delivered
  audio as they are or appends the next bytes of the stream to the queue or moves bytes from its front
  to the device, and the queue never holds more than the capacity of the ring.
\<close>

theorem ring_refines_queue:
  assumes "segment_run source s" "moves source s t"
  shows "((\<exists>xs. queued (player t) = queued (player s) @ xs \<and> delivered t = delivered s \<and>
        xs = take (length xs) (drop (length (delivered s @ queued (player s))) source)) \<or>
      (\<exists>xs. queued (player s) = xs @ queued (player t) \<and> delivered t = delivered s @ xs)) \<and>
    length (queued (player t)) \<le> capacity (player t) * frame_bytes (player t)"
proof (rule conjI)
  note ok = segment_run_ok [OF assms(1)]
  note ok' = moves_ok [OF ok assms(2)]
  show "length (queued (player t)) \<le> capacity (player t) * frame_bytes (player t)"
    by (rule queued_eq(2) [OF ok'])
  have stream: "delivered s @ queued (player s) @ xs = take k source \<Longrightarrow>
      xs = take (length xs) (drop (length (delivered s @ queued (player s))) source)" for xs k
  proof -
    assume eq: "delivered s @ queued (player s) @ xs = take k source"
    have "(delivered s @ queued (player s) @ xs) @ drop k source = source"
      unfolding eq by (rule append_take_drop_id)
    then have "source = (delivered s @ queued (player s)) @ xs @ drop k source" by simp
    then have "drop (length (delivered s @ queued (player s))) source = xs @ drop k source"
      by (metis append_eq_conv_conj)
    then show ?thesis by simp
  qed
  show "(\<exists>xs. queued (player t) = queued (player s) @ xs \<and> delivered t = delivered s \<and>
        xs = take (length xs) (drop (length (delivered s @ queued (player s))) source)) \<or>
      (\<exists>xs. queued (player s) = xs @ queued (player t) \<and> delivered t = delivered s @ xs)"
    using ring.fifo [OF ok assms(2)]
  proof
    assume "\<exists>xs. queued (player t) = queued (player s) @ xs \<and> delivered t = delivered s"
    then obtain xs where xs: "queued (player t) = queued (player s) @ xs" "delivered t = delivered s"
      by blast
    then show ?thesis using stream [of xs] queued_eq(1) [OF ok'] by auto
  qed blast
qed

lemma example_published:
  "moves example_source example_decoded
     (example_decoded\<lparr>prefetcher := Prefetch_Finish,
        player := (player example_decoded)\<lparr>writtenFrame := 3\<rparr>\<rparr>)"
  unfolding moves_def
  by (rule exI [of _ "Prefetch 0 True"]) (simp add: example_decoded_def prefetch_publish_def)

theorem ring_refines_queue_witness:
  "(\<exists>xs. queued ((player example_decoded)\<lparr>writtenFrame := 3\<rparr>) = queued (player example_decoded) @ xs) \<and>
    length (queued ((player example_decoded)\<lparr>writtenFrame := 3\<rparr>)) \<le> 4096"
  using ring_refines_queue [OF example_decoded_run example_published]
  by (auto simp: example_decoded_def queued_def)

text \<open>The bytes of the ring the decoder is given to fill, and those a callback copies.\<close>

definition decoder_region :: "u64 \<Rightarrow> u64 \<Rightarrow> Player \<Rightarrow> nat set" where
  "decoder_region written request p =
     (let base = unat (written mod ringCapacityFrames p) * frame_bytes p in
      {base ..< base + unat request * frame_bytes p})"

definition copy_region :: "u32 \<Rightarrow> u64 \<Rightarrow> u64 \<Rightarrow> Player \<Rightarrow> nat set" where
  "copy_region count read written p =
     (let framesRead = min (ucast count) (written - read);
          first = min framesRead (ringCapacityFrames p - read mod ringCapacityFrames p);
          base = unat (read mod ringCapacityFrames p) * frame_bytes p in
      {base ..< base + unat first * frame_bytes p} \<union>
      (if framesRead > first then {0 ..< unat (framesRead - first) * frame_bytes p} else {}))"

lemma region_index:
  assumes "a \<in> {unat (w mod ringCapacityFrames p) * frame_bytes p ..<
      unat (w mod ringCapacityFrames p) * frame_bytes p + unat n * frame_bytes p}"
    "unat w mod capacity p + unat n \<le> capacity p"
  obtains i where "i < unat n * frame_bytes p"
    "a = (unat w * frame_bytes p + i) mod (capacity p * frame_bytes p)"
proof -
  define i where "i = a - (unat w mod capacity p) * frame_bytes p"
  have "i < unat n * frame_bytes p" "a = (unat w mod capacity p) * frame_bytes p + i"
    using assms(1) by (auto simp: i_def unat_mod)
  then show ?thesis using that [of i] ring_index [OF assms(2), of i] by simp
qed

lemma copy_region_index:
  assumes "0 < capacity p" "a \<in> copy_region count read written p" "unat read \<le> unat written"
    "unat written \<le> unat read + capacity p"
  obtains j where "j < (unat written - unat read) * frame_bytes p"
    "a = (unat read * frame_bytes p + j) mod (capacity p * frame_bytes p)"
proof -
  define n where "n = min (ucast count) (written - read)"
  define k where "k = min n (ringCapacityFrames p - read mod ringCapacityFrames p)"
  note room = contiguous_frames [OF assms(1), of read]
  have n: "unat n \<le> unat written - unat read"
    using assms(3) by (simp add: n_def unat_min unat_u64_sub word_le_nat_alt)
  then have frames: "unat n * frame_bytes p \<le> (unat written - unat read) * frame_bytes p"
    by (rule mult_le_mono1)
  have k: "unat k = min (unat n) (capacity p - unat read mod capacity p)"
    using room(1) by (simp add: k_def unat_min)
  have k_fits: "unat read mod capacity p + unat k \<le> capacity p" using k room(2) by linarith
  have k_frames: "unat k * frame_bytes p \<le> unat n * frame_bytes p"
    using k by (intro mult_le_mono1) simp
  have region: "copy_region count read written p =
      {unat (read mod ringCapacityFrames p) * frame_bytes p ..<
        unat (read mod ringCapacityFrames p) * frame_bytes p + unat k * frame_bytes p} \<union>
      (if n > k then {0 ..< unat (n - k) * frame_bytes p} else {})"
    by (simp add: copy_region_def Let_def n_def k_def)
  show ?thesis
  proof (cases "a \<in> {unat (read mod ringCapacityFrames p) * frame_bytes p ..<
        unat (read mod ringCapacityFrames p) * frame_bytes p + unat k * frame_bytes p}")
    case True
    obtain i where i: "i < unat k * frame_bytes p"
      "a = (unat read * frame_bytes p + i) mod (capacity p * frame_bytes p)"
      using region_index [OF True k_fits] .
    have "i < (unat written - unat read) * frame_bytes p" using i(1) k_frames frames by linarith
    then show ?thesis using that i(2) by blast
  next
    case False
    then have wrap: "k < n" and a: "a < unat (n - k) * frame_bytes p"
      using assms(2) unfolding region by (auto split: if_splits)
    have "unat (n - k) = unat n - unat k" using wrap by (simp add: unat_u64_sub)
    then have a: "a < unat n * frame_bytes p - unat k * frame_bytes p"
      using a by (simp add: diff_mult_distrib)
    have "unat k < unat n" using wrap by (simp add: word_less_nat_alt)
    then have full: "unat read mod capacity p + unat k = capacity p" using k room(2) by linarith
    have "unat read * frame_bytes p + (unat k * frame_bytes p + a) =
        (unat read div capacity p * capacity p + unat read mod capacity p) * frame_bytes p +
        unat k * frame_bytes p + a"
      by (simp only: div_mult_mod_eq add.assoc)
    also have "\<dots> = unat read div capacity p * capacity p * frame_bytes p +
        (unat read mod capacity p + unat k) * frame_bytes p + a"
      by (simp only: add_mult_distrib add.assoc)
    also have "\<dots> = (unat read div capacity p + 1) * (capacity p * frame_bytes p) + a"
      unfolding full by (simp add: algebra_simps)
    finally have "(unat read * frame_bytes p + (unat k * frame_bytes p + a)) mod
        (capacity p * frame_bytes p) = a mod (capacity p * frame_bytes p)"
      by (simp only: mod_mult_self3)
    moreover have "unat n * frame_bytes p \<le> capacity p * frame_bytes p"
      using n assms(4) by (intro mult_le_mono1) linarith
    then have "a < capacity p * frame_bytes p" using a by linarith
    moreover have "unat k * frame_bytes p + a < (unat written - unat read) * frame_bytes p"
      using a frames by linarith
    ultimately show ?thesis using that [of "unat k * frame_bytes p + a"] by simp
  qed
qed

text \<open>
  C23. The two threads never touch the same byte of the ring at the same time, without any lock: while
  the decoder fills the part it was given, no callback copies from that part.
\<close>

theorem ring_is_free_of_races:
  assumes "segment_run source s" "prefetcher s = Prefetch_Decode written request"
    "callback s = Callback_Copy count read seen"
  shows "decoder_region written request (player s) \<inter> copy_region count read seen (player s) = {}"
proof (rule equals0I)
  let ?p = "player s" and ?f = "frame_bytes (player s)"
  note ok = segment_run_ok [OF assms(1)]
  fix a assume "a \<in> decoder_region written request ?p \<inter> copy_region count read seen ?p"
  then have a: "a \<in> decoder_region written request ?p" "a \<in> copy_region count read seen ?p" by auto
  have d: "written = writtenFrame ?p"
    "unat written + unat request \<le> unat (readFrame ?p) + capacity ?p"
    "unat written mod capacity ?p + unat request \<le> capacity ?p"
    using segment_okD(5) [OF ok] unfolding assms(2) prefetcher_ok.simps by blast+
  have c: "read = readFrame ?p" "unat read \<le> unat seen" "unat seen \<le> unat (writtenFrame ?p)"
    using segment_okD(6) [OF ok] unfolding assms(3) callback_ok.simps word_le_nat_alt by blast+
  have r: "unat read = unat (readFrame ?p)" and w: "unat written = unat (writtenFrame ?p)"
    using c(1) d(1) by simp_all
  have cap: "0 < capacity ?p" using segment_okD(1) [OF ok] by (simp add: ring_ok_def)
  obtain i where i: "i < unat request * ?f"
    "a = (unat written * ?f + i) mod (capacity ?p * ?f)"
    using region_index [OF _ d(3), of a] a(1) by (auto simp: decoder_region_def Let_def)
  have near: "unat seen \<le> unat read + capacity ?p" using c(3) d(2) r w by linarith
  obtain j where j: "j < (unat seen - unat read) * ?f"
    "a = (unat read * ?f + j) mod (capacity ?p * ?f)"
    using copy_region_index [OF cap a(2) c(2) near] .
  have "unat seen * ?f \<le> unat written * ?f" using c(3) w by (intro mult_le_mono1) simp
  then have before: "unat read * ?f + j < unat written * ?f"
    using j(1) unfolding diff_mult_distrib by linarith
  have "(unat written + unat request) * ?f \<le> (unat read + capacity ?p) * ?f"
    using d(2) r by (intro mult_le_mono1) simp
  then have window: "unat written * ?f + i < unat read * ?f + capacity ?p * ?f"
    using i(1) by (simp add: add_mult_distrib)
  have "unat written * ?f + i = unat read * ?f + j"
  proof (rule mod_window_inj)
    show "unat read * ?f \<le> unat written * ?f + i" using before by linarith
    show "unat written * ?f + i < unat read * ?f + capacity ?p * ?f" by (rule window)
    show "unat read * ?f \<le> unat read * ?f + j" by (rule le_add1)
    show "unat read * ?f + j < unat read * ?f + capacity ?p * ?f" using before window by linarith
    show "(unat written * ?f + i) mod (capacity ?p * ?f) = (unat read * ?f + j) mod (capacity ?p * ?f)"
      using i(2) j(2) by (rule trans [OF sym])
  qed
  then show False using before by simp
qed

lemma example_race_run:
  "segment_run example_source
     \<lparr>player = example_started, prefetcher = Prefetch_Decode 0 4096,
      callback = Callback_Copy 2 0 0, position = 0, delivered = []\<rparr>"
  by (rule segment_run.stepped [OF example_request, of "Callback 2 0 0 0"])
    (simp_all add: callback_enter_def)

theorem ring_is_free_of_races_witness:
  "decoder_region 0 4096 example_started \<inter> copy_region 2 0 0 example_started = {}"
  using ring_is_free_of_races [OF example_race_run, of 0 4096 2 0 0] by simp

text \<open>
  No step of either thread reads or writes outside the ring or the device's buffer; the only
  failure left is a clock reading too far from the start of the segment.
\<close>

theorem ring_accesses_in_bounds:
  assumes "segment_run source s" "decoder_delivers source e s" "callback_allowed e s"
  shows "(\<exists>t. segment_step source e s = Inr t) \<or> segment_step source e s = Inl Signed_Overflow"
proof (cases e)
  case (Prefetch n success)
  then show ?thesis
    using prefetch_step_ok [OF segment_run_ok [OF assms(1)], of n success] assms(2) by auto
next
  case (Callback count now now' now'')
  have "callback s = Callback_Idle \<longrightarrow> playbackClock (player s) \<noteq> None"
    using assms(3) Callback by auto
  from callback_step_ok [OF segment_run_ok [OF assms(1)] this, of count now now' now'']
  show ?thesis
    unfolding Callback segment_step.simps by (cases "callback_step count now now' now'' s") simp_all
qed

theorem ring_accesses_in_bounds_witness:
  "(\<exists>t. segment_step example_source (Callback 5 0 0 0) example_decoded = Inr t) \<or>
   segment_step example_source (Callback 5 0 0 0) example_decoded = Inl Signed_Overflow"
  by (rule ring_accesses_in_bounds [OF example_decoded_run]) (simp_all add: example_decoded_def)

lemma ended_step:
  assumes "endReached (player s)" "callback s = Callback_Idle" "segment_step source e s = Inr t"
  shows "endReached (player t) \<and> callback t = Callback_Idle \<and> delivered t = delivered s"
proof (cases e)
  case (Prefetch n success)
  then show ?thesis
    using assms
    by (auto simp: prefetch_decode_def prefetch_publish_def prefetch_finish_def res_simps
        split: prefetch_state.splits)
next
  case (Callback count now now' now'')
  then show ?thesis
    using assms freezeTimeline_frame(6)
    by (auto simp: callback_enter_def res_simps split: if_splits)
qed

lemma ended_steps:
  "endReached (player s) \<Longrightarrow> callback s = Callback_Idle \<Longrightarrow> segment_steps source es s = Inr t \<Longrightarrow>
   delivered t = delivered s"
proof (induction es arbitrary: s)
  case Nil
  then show ?case by simp
next
  case (Cons e es)
  then obtain u where "segment_step source e s = Inr u" "segment_steps source es u = Inr t"
    by (auto simp: res_simps)
  then show ?case using Cons.IH [of u] ended_step [OF Cons.prems(1,2)] by simp
qed



text \<open>
  When the prefetch thread does not get between the two reads of a callback, the stream ends only
  after everything the decoder produced was delivered.
\<close>

theorem end_means_all_delivered:
  assumes "segment_run source s" "callback s = Callback_Idle" "playbackClock (player s) \<noteq> None"
    "segmentStartTime (player s) \<le> now" "\<not> endReached (player s)"
  shows "\<exists>t. whole_callback count now now' now'' s = Inr t \<and>
    (endReached (player t) \<longleftrightarrow> decoderFinished (player s) \<and> length (queued (player s)) \<le> unat count * frame_bytes (player s)) \<and>
    (endReached (player t) \<longrightarrow>
       delivered t = take (position s * frame_bytes (player s)) source \<and> queued (player t) = [])"
proof -
  let ?p = "player s"
  note ok = segment_run_ok [OF assms(1)]
  obtain n out t where t: "whole_callback count now now' now'' s = Inr t" "segment_ok source t"
    "t = s\<lparr>player := ?p\<lparr>readFrame := readFrame ?p + n, submittedFrames := submittedFrames ?p + n,
            endReached := decoderFinished ?p \<and> readFrame ?p + n = writtenFrame ?p\<rparr>,
          delivered := delivered s @ out\<rparr>"
    and n: "unat n = min (unat count) (unat (writtenFrame ?p) - unat (readFrame ?p))"
    "unat (readFrame ?p + n) = unat (readFrame ?p) + unat n"
    using whole_callback_plays [OF ok assms(2-5), of count now' now''] by metis
  have ordered: "unat (readFrame ?p) \<le> unat (writtenFrame ?p)" and f: "0 < frame_bytes ?p"
    using segment_okD(1) [OF ok] by (simp_all add: ring_ok_def)
  have "readFrame ?p + n = writtenFrame ?p \<longleftrightarrow> unat (readFrame ?p) + unat n = unat (writtenFrame ?p)"
    using n(2) by (simp add: word_unat_eq_iff)
  also have "\<dots> \<longleftrightarrow> unat (writtenFrame ?p) - unat (readFrame ?p) \<le> unat count"
    using n(1) ordered by linarith
  also have "\<dots> \<longleftrightarrow> length (queued ?p) \<le> unat count * frame_bytes ?p"
    using f by (simp add: queued_def flip: diff_mult_distrib)
  finally have drained: "readFrame ?p + n = writtenFrame ?p \<longleftrightarrow>
      length (queued ?p) \<le> unat count * frame_bytes ?p" .
  have "delivered t = take (position s * frame_bytes (player s)) source \<and> queued (player t) = []"
    if ended: "endReached (player t)"
  proof -
    have finished: "decoderFinished (player t)" "readFrame (player t) = writtenFrame (player t)"
      using ended t(3) by simp_all
    have pc: "prefetcher t = Prefetch_Ended" using segment_okD(8) [OF t(2)] finished(1) by simp
    then have "position t = unat (writtenFrame (player t))"
      using segment_okD(5) [OF t(2)] by simp
    then have "delivered t = take (position t * frame_bytes (player t)) source"
      using segment_okD(7) [OF t(2)] finished(2) by simp
    then show ?thesis using finished(2) t(3) by (simp add: queued_def)
  qed
  then show ?thesis using t(1) drained t(3) by auto
qed

theorem end_means_all_delivered_witness:
  "\<exists>t. whole_callback 5 0 0 0 example_finished = Inr t \<and> endReached (player t) \<and>
     delivered t = example_source \<and> queued (player t) = []"
  using end_means_all_delivered [OF example_finished_run, of 0 5 0 0]
  by (auto simp: example_finished_def example_decoded_def queued_def example_source_def)

text \<open>A device that keeps asking: one callback after another.\<close>

fun whole_callbacks :: "(u32 \<times> int \<times> int \<times> int) list \<Rightarrow> Segment \<Rightarrow> exn + Segment" where
  "whole_callbacks [] s = Inr s"
| "whole_callbacks ((count, now, now', now'') # cs) s =
     and_then (whole_callback count now now' now'' s) (whole_callbacks cs)"

text \<open>Each asks for something, after the start of the segment, with readings the clock can subtract.\<close>

definition timely :: "Player \<Rightarrow> u32 \<times> int \<times> int \<times> int \<Rightarrow> bool" where
  "timely p = (\<lambda>(count, now, now', now''). 0 < count \<and> segmentStartTime p \<le> now \<and>
     (\<forall>clock. playbackClock p = Some clock \<longrightarrow>
        0 \<le> now'' - clockStart clock \<and> now'' - clockStart clock \<le> int64_max))"

lemma finished_callbacks:
  assumes "segment_ok source s" "callback s = Callback_Idle" "playbackClock (player s) = Some clock"
    "endReached (player s)" "list_all (timely (player s)) cs"
    "\<not> isPlaying (player s) \<and> \<not> timelineRunning (player s) \<or> cs \<noteq> []"
  shows "\<exists>t. whole_callbacks cs s = Inr t \<and> \<not> isPlaying (player t) \<and>
    \<not> timelineRunning (player t) \<and> delivered t = delivered s"
  using assms
proof (induction cs arbitrary: s)
  case Nil
  then show ?case by simp
next
  case (Cons c cs)
  obtain count now now' now'' where c: "c = (count, now, now', now'')" by (metis prod_cases4)
  have timely: "segmentStartTime (player s) \<le> now" "0 \<le> now'' - clockStart clock"
      "now'' - clockStart clock \<le> int64_max"
    using Cons.prems(3,5) by (simp_all add: c timely_def)
  obtain u where u: "whole_callback count now now' now'' s = Inr u" "segment_ok source u"
    "delivered u = delivered s" "callback u = Callback_Idle" "\<not> isPlaying (player u)"
    "\<not> timelineRunning (player u)" "endReached (player u)" "playbackClock (player u) = Some clock"
    "segmentStartTime (player u) = segmentStartTime (player s)"
    using whole_callback_ends [OF Cons.prems(1-3) timely(1) Cons.prems(4) timely(2,3),
        of count now'] by metis
  have "timely (player u) = timely (player s)"
    using u(8,9) Cons.prems(3) by (simp add: timely_def)
  then have "list_all (timely (player u)) cs" using Cons.prems(5) by simp
  from Cons.IH [OF u(2,4,8,7) this] show ?case using u by (simp add: c)
qed

text \<open>
  C12. Once the whole file is decoded, playback comes to its end by itself: at most one callback for
  each frame left and two more, and everything was delivered, the timeline is frozen and the player
  reports that it no longer plays, which is what \<open>waitForPlayback\<close> waits for.
\<close>

theorem playback_ends:
  assumes "segment_run source s" "callback s = Callback_Idle" "playbackClock (player s) \<noteq> None"
    "decoderFinished (player s)" "\<not> endReached (player s)"
    "list_all (timely (player s)) cs" 
    "unat (writtenFrame (player s)) - unat (readFrame (player s)) + 2 \<le> length cs"
  shows "\<exists>t. whole_callbacks cs s = Inr t \<and> \<not> isPlaying (player t) \<and> \<not> timelineRunning (player t) \<and>
    delivered t = take (position s * frame_bytes (player s)) source"
proof -
  have "\<exists>t. whole_callbacks cs s = Inr t \<and> \<not> isPlaying (player t) \<and> \<not> timelineRunning (player t) \<and>
      delivered t = take (position s * frame_bytes (player s)) source"
    if "segment_ok source s" "callback s = Callback_Idle" "playbackClock (player s) \<noteq> None"
      "decoderFinished (player s)" "\<not> endReached (player s)" "list_all (timely (player s)) cs"
      "unat (writtenFrame (player s)) - unat (readFrame (player s)) + 2 \<le> length cs" for s cs
    using that
  proof (induction cs arbitrary: s)
    case Nil
    then show ?case by simp
  next
    case (Cons c cs)
    let ?p = "player s"
    obtain count now now' now'' where c: "c = (count, now, now', now'')" by (metis prod_cases4)
    have timely: "segmentStartTime ?p \<le> now" "0 < count"
      using Cons.prems(6) by (simp_all add: c timely_def)
    obtain n out u where n: "unat n = min (unat count) (unat (writtenFrame ?p) - unat (readFrame ?p))"
      "unat (readFrame ?p + n) = unat (readFrame ?p) + unat n"
      and u: "whole_callback count now now' now'' s = Inr u" "segment_ok source u"
      "u = s\<lparr>player := ?p\<lparr>readFrame := readFrame ?p + n, submittedFrames := submittedFrames ?p + n,
            endReached := decoderFinished ?p \<and> readFrame ?p + n = writtenFrame ?p\<rparr>,
          delivered := delivered s @ out\<rparr>"
      using whole_callback_plays [OF Cons.prems(1-3) timely(1) Cons.prems(5), of count now' now'']
      by metis
    have same: "timely (player u) = timely ?p" "callback u = Callback_Idle"
        "playbackClock (player u) = playbackClock ?p" "decoderFinished (player u)"
        "position u = position s" "frame_bytes (player u) = frame_bytes ?p"
        "readFrame (player u) = readFrame ?p + n" "writtenFrame (player u) = writtenFrame ?p"
      using Cons.prems(2,4) by (simp_all add: u(3) timely_def)
    show ?case
    proof (cases "endReached (player u)")
      case False
      then have "readFrame ?p + n \<noteq> writtenFrame ?p" using Cons.prems(4) u(3) by simp
      then have more: "unat (readFrame ?p) + unat n \<noteq> unat (writtenFrame ?p)"
        using n(2) by (metis word_unat_eq_iff)
      have "0 < unat count" using timely(2) by (simp add: word_less_nat_alt)
      then have "unat (writtenFrame (player u)) - unat (readFrame (player u)) + 2 \<le> length cs"
      proof -
        have "unat (readFrame ?p) \<le> unat (writtenFrame ?p)"
          using segment_okD(1) [OF Cons.prems(1)] by (simp add: ring_ok_def)
        moreover have "unat n = unat count \<or>
            unat n = unat (writtenFrame ?p) - unat (readFrame ?p)"
          "unat n \<le> unat (writtenFrame ?p) - unat (readFrame ?p)"
          using n(1) by (simp_all add: min_def)
        ultimately show ?thesis
          unfolding same(7,8) n(2) using \<open>0 < unat count\<close> more Cons.prems(7)
          unfolding list.size by (elim disjE) linarith+
      qed
      then show ?thesis
        using Cons.IH [of u] u(1,2) same Cons.prems(3,6) False by (simp add: c)
    next
      case True
      obtain clock where clock: "playbackClock (player u) = Some clock"
        using Cons.prems(3) same(3) by auto
      have "cs \<noteq> []" using Cons.prems(7) by auto
      then obtain t where t: "whole_callbacks cs u = Inr t" "\<not> isPlaying (player t)"
        "\<not> timelineRunning (player t)" "delivered t = delivered u"
        using finished_callbacks [OF u(2) same(2) clock True] Cons.prems(6) same(1) by auto
      have "prefetcher u = Prefetch_Ended" using segment_okD(8) [OF u(2)] same(4) by simp
      then have "position u = unat (writtenFrame (player u))"
        using segment_okD(5) [OF u(2)] by simp
      moreover have "readFrame (player u) = writtenFrame (player u)" using True u(3) by simp
      ultimately have "delivered u = take (position s * frame_bytes ?p) source"
        using segment_okD(7) [OF u(2)] same(5,6) by simp
      then show ?thesis using t u(1) by (simp add: c)
    qed
  qed
  then show ?thesis using segment_run_ok [OF assms(1)] assms(2-7) by blast
qed

theorem playback_ends_witness:
  "\<exists>t. whole_callbacks [(2, 7, 7, 7), (2, 7, 7, 7), (1, 9, 9, 9), (2, 9, 9, 9), (2, 9, 9, 9)] example_finished = Inr t \<and>
    \<not> isPlaying (player t) \<and> \<not> timelineRunning (player t) \<and> delivered t = example_source"
  using playback_ends [OF example_finished_run, of
      "[(2, 7, 7, 7), (2, 7, 7, 7), (1, 9, 9, 9), (2, 9, 9, 9), (2, 9, 9, 9)]"]
  by (simp add: example_finished_def example_decoded_def queued_def example_source_def timely_def)

text \<open>\<open>k\<close> steps of the prefetch thread alone, while \<open>playFrom\<close> waits for it.\<close>

inductive prefetched :: "u8 list \<Rightarrow> nat \<Rightarrow> Segment \<Rightarrow> Segment \<Rightarrow> bool" for source :: "u8 list" where
  none: "prefetched source 0 s s"
| more: "prefetched source k s t \<Longrightarrow> decoder_delivers source (Prefetch n success) t \<Longrightarrow>
    prefetch_step source n success t = Inr u \<Longrightarrow> prefetched source (Suc k) s u"

definition prefill_target :: "Player \<Rightarrow> u64" where
  "prefill_target p = min (ucast (fileRate (metadata p)) div 4) (ringCapacityFrames p)"

lemma prefilled_iff: "prefilled p \<longleftrightarrow> prefill_target p \<le> writtenFrame p \<or> decoderFinished p"
  unfolding prefilled_def prefill_target_def by (meson not_less)

fun prefetch_stage :: "prefetch_state \<Rightarrow> nat" where
  "prefetch_stage Prefetch_Loop = 0"
| "prefetch_stage (Prefetch_Decode _ _) = 1"
| "prefetch_stage (Prefetch_Publish _ _ _) = 2"
| "prefetch_stage Prefetch_Finish = 3"
| "prefetch_stage Prefetch_Ended = 0"

lemma prefetch_progress:
  assumes "segment_ok source t" "readFrame (player t) = 0" "prefetchRunning (player t)"
    "prefetch_step source n success t = Inr u" "\<not> prefilled (player t)" "prefetcher t \<noteq> Prefetch_Ended"
  shows "prefilled (player u) \<or>
    prefetcher u \<noteq> Prefetch_Ended \<and>
    3 * unat (writtenFrame (player t)) + prefetch_stage (prefetcher t) <
    3 * unat (writtenFrame (player u)) + prefetch_stage (prefetcher u)"
proof (cases "prefetcher t")
  case Prefetch_Loop
  have "writtenFrame (player t) < ringCapacityFrames (player t)"
    using assms(5) by (auto simp: prefilled_def)
  then have "ringCapacityFrames (player t) - (writtenFrame (player t) - readFrame (player t)) \<noteq> 0"
    using assms(2) by simp
  then have "\<exists>r. prefetch_request (player t) = Prefetch_Decode (writtenFrame (player t)) r"
    using assms(3) by (simp add: prefetch_request_def Let_def)
  then show ?thesis using assms(4) Prefetch_Loop by auto
next
  case (Prefetch_Decode w r)
  then show ?thesis using assms(4) by (auto simp: prefetch_decode_def res_simps)
next
  case (Prefetch_Publish w k fin)
  have pre: "w = writtenFrame (player t)" "position t = unat w + unat k" "k = 0 \<longrightarrow> fin"
    using segment_okD(5) [OF assms(1)] unfolding Prefetch_Publish prefetcher_ok.simps by blast+
  have u: "u = t\<lparr>prefetcher := if fin then Prefetch_Finish else Prefetch_Loop,
      player := (player t)\<lparr>writtenFrame := w + k\<rparr>\<rparr>"
    using publish_step_ok(1) [OF assms(1) Prefetch_Publish] assms(4) by simp
  have "unat (w + k) = unat w + unat k"
    using publish_step_ok(2) [OF assms(1) Prefetch_Publish] pre(2) by simp
  moreover have "\<not> fin \<longrightarrow> 0 < unat k" using pre(3) unat_gt_0 by blast
  ultimately show ?thesis using u pre(1) Prefetch_Publish by auto
next
  case Prefetch_Finish
  then show ?thesis using assms(4) by (auto simp: prefetch_finish_def prefilled_iff)
next
  case Prefetch_Ended
  then show ?thesis using assms(6) by simp
qed

lemma prefetch_step_keeps:
  assumes "prefetch_step source n success t = Inr u"
  shows "readFrame (player u) = readFrame (player t)" "prefetchRunning (player u) = prefetchRunning (player t)"
    "prefill_target (player u) = prefill_target (player t)"
  using assms
  by (auto simp: prefetch_decode_def prefetch_publish_def prefetch_finish_def prefill_target_def
      res_simps split: prefetch_state.splits)

lemma prefetched_progress:
  assumes "prefetched source k s t" "segment_ok source s" "readFrame (player s) = 0"
    "prefetchRunning (player s)" "prefetcher s \<noteq> Prefetch_Ended"
  shows "segment_ok source t \<and> readFrame (player t) = 0 \<and> prefetchRunning (player t) \<and>
    prefill_target (player t) = prefill_target (player s) \<and>
    (prefilled (player t) \<or>
     prefetcher t \<noteq> Prefetch_Ended \<and>
     k \<le> 3 * unat (writtenFrame (player t)) + prefetch_stage (prefetcher t))"
  using assms
proof (induction rule: prefetched.induct)
  case (none s)
  then show ?case by simp
next
  case (more k s t n success u)
  note IH = more.IH [OF more.prems]
  have ok: "segment_ok source u" using prefetch_step_ok [of source t n success] IH more(2,3) by auto
  have kept: "prefilled (player u)" if "prefilled (player t)"
  proof -
    have "moves source t u"
      unfolding moves_def by (rule exI [of _ "Prefetch n success"]) (use more(2,3) in simp)
    then have "writtenFrame (player t) \<le> writtenFrame (player u)"
      using step_counters(3) [of source t u] IH by (auto simp: word_le_nat_alt)
    moreover have "decoderFinished (player t) \<Longrightarrow> decoderFinished (player u)"
      using more(3) by (auto simp: prefetch_decode_def prefetch_publish_def prefetch_finish_def
          res_simps split: prefetch_state.splits)
    ultimately show ?thesis
      using that prefetch_step_keeps(3) [OF more(3)] unfolding prefilled_iff by auto
  qed
  show ?case
  proof (cases "prefilled (player t)")
    case True
    then show ?thesis using ok kept IH prefetch_step_keeps [OF more(3)] by simp
  next
    case False
    then show ?thesis
      using prefetch_progress [of source t n success u] ok IH prefetch_step_keeps [OF more(3)] more(3)
      by auto
  qed
qed

text \<open>
  The wait in \<open>playFrom\<close> for the first quarter of a second ends: whatever chunks the decoder
  returns, the prefetch thread has filled that much or has finished the file after at most three
  steps for each frame of it and four more, and it is never stuck before.
\<close>

theorem prefill_wait_ends:
  assumes "playFrom_begin frame now now' seekError frameSize p = (Inr (), q)" "0 < frameSize"
    "length source < 18446744073709551616" "prefetched source k (segment_of q) t"
    "3 * unat (prefill_target q) + 4 \<le> k"
  shows "prefilled (player t) \<and>
    (\<forall>n success. decoder_delivers source (Prefetch n success) t \<longrightarrow>
      (\<exists>u. prefetch_step source n success t = Inr u))"
proof -
  have ok: "segment_ok source (segment_of q)"
    by (rule segment_run_ok [OF segment_run.opened [OF assms(1-3)]])
  have t: "segment_ok source t" "prefill_target (player t) = prefill_target q"
    "prefilled (player t) \<or> k \<le> 3 * unat (writtenFrame (player t)) + prefetch_stage (prefetcher t)"
    using prefetched_progress [OF assms(4) ok] playFrom_begin_facts [OF assms(1,2)]
    by (auto simp: segment_of_def)
  have last: "prefetch_stage (prefetcher t) \<le> 3" by (cases "prefetcher t") simp_all
  have "prefilled (player t)"
    using t(3)
  proof
    assume "k \<le> 3 * unat (writtenFrame (player t)) + prefetch_stage (prefetcher t)"
    then have "unat (prefill_target (player t)) \<le> unat (writtenFrame (player t))"
      using last assms(5) unfolding t(2) by linarith
    then show ?thesis unfolding prefilled_iff word_le_nat_alt by blast
  qed
  then show ?thesis using prefetch_step_ok [OF t(1)] by metis
qed

lemma example_prefetched:
  "prefetched example_source 5 (segment_of example_opened)
     (segment_of example_opened\<lparr>prefetcher := Prefetch_Ended, position := 3,
        player := example_opened\<lparr>ring := example_source @ replicate 4093 0, writtenFrame := 3,
          decoderFinished := True\<rparr>\<rparr>)"
proof -
  have o: "ringCapacityFrames example_opened = 4096" "readFrame example_opened = 0"
    "writtenFrame example_opened = 0" "prefetchRunning example_opened"
    "bytesPerFrame example_opened = 1" "ring example_opened = replicate 4096 0"
    by (simp_all add: example_opened_eq(1) Player_new_def)
  let ?s = "segment_of example_opened"
  let ?filled = "example_opened\<lparr>ring := example_source @ replicate 4093 0\<rparr>"
  have p1: "prefetched example_source (Suc 0) ?s (?s\<lparr>prefetcher := Prefetch_Decode 0 4096\<rparr>)"
    by (rule prefetched.more [OF prefetched.none, where n = 0 and success = True])
      (simp_all add: segment_of_def prefetch_request_def Let_def o)
  have p2: "prefetched example_source (Suc (Suc 0)) ?s (?s\<lparr>prefetcher := Prefetch_Publish 0 3 True,
      position := 3, player := ?filled\<rparr>)"
    by (rule prefetched.more [OF p1, of 3 True])
      (simp_all add: segment_of_def frames_in_source_def example_source_def decoded_bytes_def Let_def
        prefetch_decode_def memcpy_def o)
  have p3: "prefetched example_source (Suc (Suc (Suc 0))) ?s (?s\<lparr>prefetcher := Prefetch_Finish,
      position := 3, player := ?filled\<lparr>writtenFrame := 3\<rparr>\<rparr>)"
    by (rule prefetched.more [OF p2, of 0 True]) (simp_all add: prefetch_publish_def)
  have p4: "prefetched example_source (Suc (Suc (Suc (Suc 0)))) ?s (?s\<lparr>prefetcher := Prefetch_Ended,
      position := 3, player := ?filled\<lparr>writtenFrame := 3, decoderFinished := True\<rparr>\<rparr>)"
    by (rule prefetched.more [OF p3, of 0 True]) (simp_all add: prefetch_finish_def)
  have "prefetched example_source (Suc (Suc (Suc (Suc (Suc 0))))) ?s (?s\<lparr>prefetcher := Prefetch_Ended,
      position := 3, player := ?filled\<lparr>writtenFrame := 3, decoderFinished := True\<rparr>\<rparr>)"
    by (rule prefetched.more [OF p4, of 0 True]) simp_all
  then show ?thesis by (simp add: eval_nat_numeral)
qed

theorem prefill_wait_ends_witness:
  "prefilled (example_opened\<lparr>ring := example_source @ replicate 4093 0, writtenFrame := 3,
     decoderFinished := True\<rparr>)"
proof -
  have "prefill_target example_opened = 0"
    by (simp add: prefill_target_def example_opened_eq(1) Player_new_def)
  then show ?thesis
    using prefill_wait_ends [OF example_opened_eq(2) _ _ example_prefetched]
    by (simp add: example_source_def segment_of_def)
qed

end
