(* ===== verification/Network_Impairment.thy ===== *)
theory Network_Impairment
  imports Prelude Complex_Main "HOL-Library.Multiset" "HOL-Library.Product_Lexorder"
begin

text \<open>
  The packet-path simulator of debug builds, \<open>desktop/src/NetworkImpairment.cpp\<close>. The generator
  \<open>std::mt19937\<close> and the two distributions are library code: they are a parameter, a state \<open>'g\<close> and the
  functions that draw from it. Milliseconds are \<open>int\<close>, percentages rationals.
\<close>

section \<open>State\<close>

record NetworkImpairmentConfig =
  lossPercent :: rat
  baseDelayMs :: u32
  jitterMs :: u32
  duplicatePercent :: rat
  reorderPercent :: rat
  blackoutDurationMs :: u32
  impairmentSeed :: u32

record ImpairedDatagram =
  deliveryTime :: int
  datagramBytes :: "u8 list"
  datagramSequence :: u64

record 'g NetworkImpairment =
  impairmentConfig :: NetworkImpairmentConfig
  randomState :: 'g
  pendingDatagrams :: "ImpairedDatagram list"
  nextSequence :: u64
  started :: bool
  startTime :: int

text \<open>Draws: a double in \<open>[0, 100)\<close>, and an integer from zero up to a bound.\<close>

record 'g random_source =
  seeded :: "u32 \<Rightarrow> 'g"
  drawPercent :: "'g \<Rightarrow> rat \<times> 'g"
  drawUpTo :: "u32 \<Rightarrow> 'g \<Rightarrow> u32 \<times> 'g"

section \<open>Operations\<close>

definition checkPercent :: "rat \<Rightarrow> exn + unit" where
  "checkPercent v =
     (if \<not> (v \<ge> 0 \<and> v \<le> 100)
      then Inl (Invalid_Argument ''Impairment percent must be within 0..100'') else Inr ())"

definition NetworkImpairment_new ::
    "'g random_source \<Rightarrow> NetworkImpairmentConfig \<Rightarrow> exn + 'g NetworkImpairment" where
  "NetworkImpairment_new rnd c =
     and_then (checkPercent (lossPercent c)) (\<lambda>_.
     and_then (checkPercent (duplicatePercent c)) (\<lambda>_.
     and_then (checkPercent (reorderPercent c)) (\<lambda>_.
       if baseDelayMs c > 10000 \<or> jitterMs c > 10000 \<or> blackoutDurationMs c > 60000
       then Inl (Invalid_Argument ''Impairment duration exceeds debug limit'')
       else Inr \<lparr>impairmentConfig = c, randomState = seeded rnd (impairmentSeed c),
         pendingDatagrams = [], nextSequence = 0, started = False, startTime = 0\<rparr>)))"

definition chance :: "'g random_source \<Rightarrow> rat \<Rightarrow> 'g \<Rightarrow> bool \<times> 'g" where
  "chance rnd percent g =
     (if percent \<le> 0 then (False, g)
      else if percent \<ge> 100 then (True, g)
      else let (x, g) = drawPercent rnd g in (x < percent, g))"

text \<open>One copy of a datagram, with its own jitter and its own chance of an extra delay.\<close>

definition submit_copy ::
    "'g random_source \<Rightarrow> u8 list \<Rightarrow> int \<Rightarrow> 'g NetworkImpairment \<Rightarrow> 'g NetworkImpairment" where
  "submit_copy rnd bytes now n =
     (let c = impairmentConfig n;
          (jitter, g) = (if jitterMs c = 0 then (0, randomState n)
                         else drawUpTo rnd (jitterMs c) (randomState n));
          (reordered, g) = chance rnd (reorderPercent c) g;
          extra = (if reordered then 30 else 0) :: u32 in
      n\<lparr>randomState := g,
        pendingDatagrams := pendingDatagrams n @
          [\<lparr>deliveryTime = now + int (unat (baseDelayMs c + jitter + extra)),
            datagramBytes = bytes, datagramSequence = nextSequence n\<rparr>],
        nextSequence := nextSequence n + 1\<rparr>)"

fun submit_copies ::
    "nat \<Rightarrow> 'g random_source \<Rightarrow> u8 list \<Rightarrow> int \<Rightarrow> 'g NetworkImpairment \<Rightarrow> 'g NetworkImpairment" where
  "submit_copies 0 rnd bytes now n = n"
| "submit_copies (Suc k) rnd bytes now n =
     submit_copies k rnd bytes now (submit_copy rnd bytes now n)"

definition submit ::
    "'g random_source \<Rightarrow> u8 list \<Rightarrow> int \<Rightarrow> 'g NetworkImpairment \<Rightarrow> 'g NetworkImpairment" where
  "submit rnd bytes now n =
     (let n = (if started n then n else n\<lparr>started := True, startTime := now\<rparr>);
          c = impairmentConfig n in
      if now - startTime n < int (unat (blackoutDurationMs c)) then n
      else
        let (lost, g) = chance rnd (lossPercent c) (randomState n);
            n = n\<lparr>randomState := g\<rparr> in
        if lost then n
        else
          let (twice, g) = chance rnd (duplicatePercent c) (randomState n) in
          submit_copies (if twice then 2 else 1) rnd bytes now (n\<lparr>randomState := g\<rparr>))"

definition drain :: "int \<Rightarrow> 'g NetworkImpairment \<Rightarrow> ImpairedDatagram list \<times> 'g NetworkImpairment" where
  "drain now n =
     (sort_key (\<lambda>d. (deliveryTime d, datagramSequence d))
        (filter (\<lambda>d. deliveryTime d \<le> now) (pendingDatagrams n)),
      n\<lparr>pendingDatagrams := filter (\<lambda>d. \<not> deliveryTime d \<le> now) (pendingDatagrams n)\<rparr>)"

definition pending :: "'g NetworkImpairment \<Rightarrow> nat" where
  "pending n = length (pendingDatagrams n)"

section \<open>Runs\<close>

datatype impairment_event = Submit "u8 list" int | Drain int

text \<open>A run from a simulator: what was submitted and what was delivered, in order.\<close>

inductive impairment_run ::
    "'g random_source \<Rightarrow> 'g NetworkImpairment \<Rightarrow> u8 list list \<Rightarrow> ImpairedDatagram list \<Rightarrow>
     'g NetworkImpairment \<Rightarrow> bool"
  for rnd :: "'g random_source" where
  created: "NetworkImpairment_new rnd c = Inr n \<Longrightarrow> impairment_run rnd n [] [] n"
| submitted: "impairment_run rnd n sent got m \<Longrightarrow>
    impairment_run rnd n (sent @ [bytes]) got (submit rnd bytes now m)"
| drained: "impairment_run rnd n sent got m \<Longrightarrow> drain now m = (ready, m') \<Longrightarrow>
    impairment_run rnd n sent (got @ ready) m'"

abbreviation contents :: "ImpairedDatagram list \<Rightarrow> u8 list multiset" where
  "contents ds \<equiv> mset (map datagramBytes ds)"

lemma submit_copies_contents:
  "contents (pendingDatagrams (submit_copies k rnd bytes now n)) =
     contents (pendingDatagrams n) + replicate_mset k bytes"
proof (induction k arbitrary: n)
  case 0
  then show ?case by simp
next
  case (Suc k)
  have "contents (pendingDatagrams (submit_copy rnd bytes now n)) =
      contents (pendingDatagrams n) + {#bytes#}"
    by (simp add: submit_copy_def Let_def split: prod.splits)
  then show ?case using Suc.IH [of "submit_copy rnd bytes now n"] by simp
qed

lemma submit_contents:
  "\<exists>k \<le> 2. contents (pendingDatagrams (submit rnd bytes now n)) =
     contents (pendingDatagrams n) + replicate_mset k bytes"
proof -
  have "\<exists>k n'. k \<le> 2 \<and> pendingDatagrams n' = pendingDatagrams n \<and>
      submit rnd bytes now n = submit_copies k rnd bytes now n'"
  proof -
    define q where "q = (if started n then n else n\<lparr>started := True, startTime := now\<rparr>)"
    have same: "pendingDatagrams q = pendingDatagrams n" by (simp add: q_def)
    obtain lost g where lost: "chance rnd (lossPercent (impairmentConfig q)) (randomState q) = (lost, g)"
      by fastforce
    obtain twice g' where twice:
      "chance rnd (duplicatePercent (impairmentConfig q)) g = (twice, g')"
      by fastforce
    consider "submit rnd bytes now n = q" | "submit rnd bytes now n = q\<lparr>randomState := g\<rparr>"
      | "submit rnd bytes now n =
          submit_copies (if twice then 2 else 1) rnd bytes now (q\<lparr>randomState := g'\<rparr>)"
    proof -
      have "submit rnd bytes now n =
          (if now - startTime q < int (unat (blackoutDurationMs (impairmentConfig q))) then q
           else if lost then q\<lparr>randomState := g\<rparr>
           else submit_copies (if twice then 2 else 1) rnd bytes now (q\<lparr>randomState := g'\<rparr>))"
        using lost twice by (simp add: submit_def Let_def flip: q_def)
      then show thesis using that by argo
    qed
    then show ?thesis
    proof cases
      case 1
      then show ?thesis using same by (intro exI [of _ 0] exI [of _ q]) simp
    next
      case 2
      then show ?thesis using same by (intro exI [of _ 0] exI [of _ "q\<lparr>randomState := g\<rparr>"]) simp
    next
      case 3
      then show ?thesis
        using same
        by (intro exI [of _ "if twice then 2 else 1"] exI [of _ "q\<lparr>randomState := g'\<rparr>"])
          (simp del: submit_copies.simps)
    qed
  qed
  then show ?thesis using submit_copies_contents by metis
qed

lemma drain_splits:
  assumes "drain now n = (ready, n')"
  shows "mset ready + mset (pendingDatagrams n') = mset (pendingDatagrams n)"
    "\<forall>d \<in> set ready. deliveryTime d \<le> now"
    "\<forall>d \<in> set (pendingDatagrams n'). now < deliveryTime d"
    "sorted (map (\<lambda>d. (deliveryTime d, datagramSequence d)) ready)"
  using assms multiset_partition [of "mset (pendingDatagrams n)" "\<lambda>d. deliveryTime d \<le> now"]
  by (auto simp: drain_def not_le)

section \<open>Property\<close>

definition example_impairment :: NetworkImpairmentConfig where
  "example_impairment = \<lparr>lossPercent = 0, baseDelayMs = 5, jitterMs = 0, duplicatePercent = 100,
     reorderPercent = 0, blackoutDurationMs = 0, impairmentSeed = 1\<rparr>"

definition example_random :: "nat random_source" where
  "example_random = \<lparr>seeded = unat, drawPercent = (\<lambda>g. (of_nat (g mod 100), g + 37)),
     drawUpTo = (\<lambda>bound g. (word_of_nat g mod bound, g + 1))\<rparr>"

text \<open>
  The simulated network invents and forgets nothing and is never early: whatever is drawn, the
  datagrams delivered and the ones still pending are copies of submitted ones, at most two of each,
  a drain delivers exactly the pending datagrams whose time has come, in order of their time.
\<close>

theorem impairment_conserves:
  assumes "impairment_run rnd n sent got m"
  shows "contents got + contents (pendingDatagrams m) \<subseteq># mset sent + mset sent \<and>
    (\<forall>now ready m'. drain now m = (ready, m') \<longrightarrow>
       mset ready + mset (pendingDatagrams m') = mset (pendingDatagrams m) \<and>
       (\<forall>d \<in> set ready. deliveryTime d \<le> now) \<and>
       (\<forall>d \<in> set (pendingDatagrams m'). now < deliveryTime d) \<and>
       sorted (map (\<lambda>d. (deliveryTime d, datagramSequence d)) ready))"
proof (rule conjI)
  show "contents got + contents (pendingDatagrams m) \<subseteq># mset sent + mset sent"
    using assms
  proof (induction rule: impairment_run.induct)
    case (created c n)
    then show ?case by (auto simp: NetworkImpairment_new_def res_simps)
  next
    case (submitted n sent got m bytes now)
    obtain k where k: "k \<le> 2" "contents (pendingDatagrams (submit rnd bytes now m)) =
        contents (pendingDatagrams m) + replicate_mset k bytes"
      using submit_contents [of rnd bytes now m] by blast
    have "replicate_mset k bytes \<subseteq># {#bytes#} + {#bytes#}"
      using k(1) by (auto simp: less_Suc_eq_le numeral_2_eq_2 le_Suc_eq)
    with submitted.IH have "(contents got + contents (pendingDatagrams m)) + replicate_mset k bytes
        \<subseteq># (mset sent + mset sent) + ({#bytes#} + {#bytes#})"
      by (rule subset_mset.add_mono)
    then show ?case using k(2) by (simp add: add.assoc)
  next
    case (drained n sent got m now ready m')
    have "mset ready + mset (pendingDatagrams m') = mset (pendingDatagrams m)"
      by (rule drain_splits(1) [OF drained(2)])
    then have "contents ready + contents (pendingDatagrams m') = contents (pendingDatagrams m)"
      by (metis image_mset_union mset_map)
    then show ?case using drained.IH by (simp add: add.assoc)
  qed
  show "\<forall>now ready m'. drain now m = (ready, m') \<longrightarrow>
       mset ready + mset (pendingDatagrams m') = mset (pendingDatagrams m) \<and>
       (\<forall>d \<in> set ready. deliveryTime d \<le> now) \<and>
       (\<forall>d \<in> set (pendingDatagrams m'). now < deliveryTime d) \<and>
       sorted (map (\<lambda>d. (deliveryTime d, datagramSequence d)) ready)"
    using drain_splits by (intro allI impI) blast
qed

theorem impairment_conserves_witness:
  "contents (fst (drain 5 (submit example_random [1, 2] 0
       (projr (NetworkImpairment_new example_random example_impairment))))) \<subseteq>#
     {#[1, 2], [1, 2]#} \<and>
   length (fst (drain 5 (submit example_random [1, 2] 0
       (projr (NetworkImpairment_new example_random example_impairment))))) = 2"
proof -
  define n where "n = \<lparr>impairmentConfig = example_impairment, randomState = seeded example_random 1,
      pendingDatagrams = [], nextSequence = 0, started = False, startTime = 0\<rparr>"
  have n: "NetworkImpairment_new example_random example_impairment = Inr n"
    by (simp add: NetworkImpairment_new_def checkPercent_def example_impairment_def n_def)
  obtain ready m where d: "drain 5 (submit example_random [1, 2] 0 n) = (ready, m)" by fastforce
  have "impairment_run example_random n [[1, 2]] ready m"
    using impairment_run.drained [OF impairment_run.submitted [OF impairment_run.created [OF n]] d]
    by simp
  from impairment_conserves [OF this]
  have "contents ready \<subseteq># {#[1, 2], [1, 2]#}"
    by (auto intro: subset_mset.trans [OF mset_subset_eq_add_left])
  moreover have two: "submit_copies 2 r b t k = submit_copy r b t (submit_copy r b t k)"
    for r :: "nat random_source" and b t k
    by (simp add: numeral_2_eq_2)
  have "length ready = 2"
    using d
    by (auto simp: drain_def submit_def submit_copy_def chance_def n_def two example_impairment_def
        simp del: submit_copies.simps)
  ultimately show ?thesis using n d by simp
qed

end
