(* ===== verification/Udp_Audio.thy ===== *)
theory Udp_Audio
  imports Audio_Packet
begin

text \<open>
  The UDP endpoints of the audio stream, \<open>desktop/src/UdpAudioSender.cpp\<close> and
  \<open>desktop/src/UdpAudioReceiver.cpp\<close>: the checks they make and what they do with the results of the
  socket calls. The calls themselves (and \<open>inet_pton\<close>, which says whether a text is a numeric IPv4
  address) are outside the model; their results are arguments.
\<close>

section \<open>Sender\<close>

record UdpAudioSender =
  senderAddress :: string
  senderPort :: u16

text \<open>The error texts of the set-up calls, \<open>None\<close> for success.\<close>

record sender_setup =
  createError :: "string option"
  nonblockingError :: "string option"
  broadcastError :: "string option"

definition UdpAudioSender_new ::
    "(string \<Rightarrow> bool) \<Rightarrow> sender_setup \<Rightarrow> string \<Rightarrow> u16 \<Rightarrow> exn + UdpAudioSender" where
  "UdpAudioSender_new is_ipv4 setup address port =
     (if port = 0 then Inl (Invalid_Argument ''UDP destination port must be non-zero'')
      else case createError setup of
        Some e \<Rightarrow> Inl (Runtime_Error (''Unable to create UDP socket: '' @ e))
      | None \<Rightarrow> (case nonblockingError setup of
          Some e \<Rightarrow> Inl (Runtime_Error (''Unable to make UDP socket nonblocking: '' @ e))
        | None \<Rightarrow> (case broadcastError setup of
            Some e \<Rightarrow> Inl (Runtime_Error (''Unable to enable UDP broadcast: '' @ e))
          | None \<Rightarrow>
              if \<not> is_ipv4 address
              then Inl (Invalid_Argument ''UDP destination must be a numeric IPv4 address'')
              else Inr \<lparr>senderAddress = address, senderPort = port\<rparr>)))"

text \<open>What \<open>sendto\<close> returns: the number of bytes sent, or an error.\<close>

datatype send_result = Sent nat | Send_Failed string

definition sendToAddress :: "u8 list \<Rightarrow> send_result \<Rightarrow> exn + unit" where
  "sendToAddress datagram result =
     (if datagram = [] \<or> length datagram > MaximumDatagramSize
      then Inl (Invalid_Argument ''UDP audio datagram size is invalid'')
      else case result of
        Sent n \<Rightarrow>
          if n \<noteq> length datagram then Inl (Runtime_Error ''Unable to send UDP audio packet: '')
          else Inr ()
      | Send_Failed e \<Rightarrow> Inl (Runtime_Error (''Unable to send UDP audio packet: '' @ e)))"

definition sendTo :: "(string \<Rightarrow> bool) \<Rightarrow> u8 list \<Rightarrow> string \<Rightarrow> u16 \<Rightarrow> send_result \<Rightarrow> exn + unit" where
  "sendTo is_ipv4 datagram address port result =
     (if port = 0 \<or> \<not> is_ipv4 address
      then Inl (Invalid_Argument ''Room client endpoint is not valid IPv4'')
      else sendToAddress datagram result)"

definition send :: "u8 list \<Rightarrow> send_result \<Rightarrow> exn + unit" where
  "send datagram result = sendToAddress datagram result"

section \<open>Receiver\<close>

record receiver_setup =
  socketError :: "string option"
  timeoutError :: "string option"
  bindError :: "string option"

definition UdpAudioReceiver_new ::
    "(string \<Rightarrow> bool) \<Rightarrow> receiver_setup \<Rightarrow> string \<Rightarrow> u16 \<Rightarrow> int \<Rightarrow> exn + unit" where
  "UdpAudioReceiver_new is_ipv4 setup bindAddress port timeout =
     (if port = 0 then Inl (Invalid_Argument ''UDP receive port must be non-zero'')
      else if timeout \<le> 0 then Inl (Invalid_Argument ''UDP receive timeout must be positive'')
      else case socketError setup of
        Some e \<Rightarrow> Inl (Runtime_Error (''Unable to create UDP receive socket: '' @ e))
      | None \<Rightarrow> (case timeoutError setup of
          Some e \<Rightarrow> Inl (Runtime_Error (''Unable to set UDP receive timeout: '' @ e))
        | None \<Rightarrow>
            if \<not> is_ipv4 bindAddress
            then Inl (Invalid_Argument ''UDP bind address must be a numeric IPv4 address'')
            else (case bindError setup of
              Some e \<Rightarrow> Inl (Runtime_Error (''Unable to bind UDP receive socket: '' @ e))
            | None \<Rightarrow> Inr ())))"

text \<open>
  What waits at the socket: nothing until the timeout, an error, or a datagram of which \<open>recvfrom\<close>
  returns as much as the buffer holds, one byte more than the largest valid datagram.
\<close>

datatype arrival = No_Datagram | Receive_Error string | Datagram "u8 list"

definition receive :: "arrival \<Rightarrow> exn + u8 list option" where
  "receive a =
     (case a of
        No_Datagram \<Rightarrow> Inr None
      | Receive_Error e \<Rightarrow> Inl (Runtime_Error (''Unable to receive UDP audio packet: '' @ e))
      | Datagram bytes \<Rightarrow>
          let received = min (length bytes) (MaximumDatagramSize + 1) in
          if received = 0 \<or> received > MaximumDatagramSize
          then Inl (Runtime_Error ''Received UDP audio datagram has invalid size'')
          else Inr (Some (take received bytes)))"

lemma receive_datagram:
  "receive (Datagram bytes) =
     (if bytes = [] \<or> length bytes > 1200
      then Inl (Runtime_Error ''Received UDP audio datagram has invalid size'')
      else Inr (Some bytes))"
  by (auto simp: receive_def Let_def)

lemma send_received:
  "send datagram result = Inr () \<Longrightarrow> receive (Datagram datagram) = Inr (Some datagram)"
  by (auto simp: send_def sendToAddress_def receive_datagram split: if_splits)

end
