(* ===== verification/Network_Host.thy ===== *)
theory Network_Host
  imports Udp_Audio Room Jitter_Buffer Playback_Clock
begin

text \<open>
  The sending side of a stream, \<open>desktop/src/DesktopNetworkHost.cpp\<close>: the checks of the constructor,
  the size of a packet, and the loop of \<open>streamFile\<close> that decodes, stamps, serializes and sends one
  packet per turn until the source or the room ends it. The decoder is miniaudio: each turn brings
  what it returned, along with the room as seen then and the results of the sends. The debug-only
  detour through the impairment simulator is in \<open>Network_Impairment\<close>; this is the release build.
\<close>

section \<open>Configuration\<close>

record HostConfig =
  hostAddress :: string
  hostPort :: u16
  desiredPacketDuration :: int
  sendAhead :: int
  hostOutputLatency :: int
  config_sessionId :: u64
  config_streamId :: u32

definition DesktopNetworkHost_new :: "HostConfig \<Rightarrow> exn + HostConfig" where
  "DesktopNetworkHost_new c =
     (if hostPort c = 0 \<or> config_streamId c = 0
      then Inl (Invalid_Argument ''Host UDP port must be non-zero'')
      else if desiredPacketDuration c \<le> 0
      then Inl (Invalid_Argument ''Packet duration must be positive'')
      else if sendAhead c < 0
      then Inl (Invalid_Argument ''Send-ahead duration must not be negative'')
      else if hostOutputLatency c < - 1000 \<or> hostOutputLatency c > 1000
      then Inl (Invalid_Argument ''Host output latency calibration is invalid'')
      else Inr c)"

definition frames_per_packet :: "u32 \<Rightarrow> u16 \<Rightarrow> int \<Rightarrow> exn + u64" where
  "frames_per_packet rate channels duration =
     (let bytesPerFrame = unat channels * 2;
          maximumFrames = word_of_nat (MaximumPayloadSize div bytesPerFrame) :: u64;
          desiredFrames = max 1 ((ucast rate * word_of_int duration + 999) div 1000);
          framesPerPacket = min desiredFrames maximumFrames in
      if framesPerPacket = 0 \<or> framesPerPacket > 65535
      then Inl (Runtime_Error ''Audio format cannot fit in an MTU-safe packet'')
      else Inr framesPerPacket)"

text \<open>Samples as they go on the wire: two bytes, the low one first.\<close>

fun toLittleEndianPcm :: "i16 list \<Rightarrow> u8 list" where
  "toLittleEndianPcm [] = []"
| "toLittleEndianPcm (sample # samples) =
     ucast (sample AND 0xFF) # ucast (drop_bit 8 sample) # toLittleEndianPcm samples"

section \<open>The stream\<close>

record HostStats =
  packetsSent :: u64
  framesSent :: u64
  audioDatagramBytesSent :: u64
  datagramsSent :: u64
  clientSendFailures :: u64
  packetDurationMilliseconds :: rat
  lastFrame :: u64
  endedForCommand :: bool
  sourceExhausted :: bool

record HostStream =
  config :: HostConfig
  stats :: HostStats
  stats_sessionId :: u64
  framesPerPacket :: u64
  stream_rate :: u32
  stream_channels :: u16
  stream_clock :: PlaybackClock
  initialFrame :: u64
  nextFrame :: u64
  nextSequenceNumber :: u32
  progressFrame :: "u64 option"
  running :: bool

text \<open>The decoder as opened on the file: an error, or its format.\<close>

record opened_source =
  openFailure :: "string option"
  seekFails :: bool
  sourceRate :: u32
  sourceChannels :: u32

definition stream_begin ::
    "HostConfig \<Rightarrow> u64 \<Rightarrow> opened_source \<Rightarrow> int \<Rightarrow> u32 \<Rightarrow> u16 \<Rightarrow> u64 \<Rightarrow> exn + UdpAudioSender \<Rightarrow> exn + HostStream"
  where
  "stream_begin c drawnSession source playbackStart expectedRate expectedChannels first sender =
     (case openFailure source of
        Some e \<Rightarrow> Inl (Runtime_Error (''Unable to open network audio source: '' @ e))
      | None \<Rightarrow>
          if first \<noteq> 0 \<and> seekFails source
          then Inl (Runtime_Error ''Unable to seek network audio source'')
          else if sourceChannels source > 65535
          then Inl (Runtime_Error ''Audio channel count is unsupported'')
          else let channelCount = ucast (sourceChannels source) :: u16 in
          if sourceRate source \<noteq> expectedRate \<or> channelCount \<noteq> expectedChannels
          then Inl (Runtime_Error ''Network decoder format does not match local playback format'')
          else
            and_then (frames_per_packet expectedRate channelCount (desiredPacketDuration c))
              (\<lambda>framesPerPacket.
            and_then sender (\<lambda>_.
            and_then (in_nanoseconds (hostOutputLatency c)) (\<lambda>latency.
            and_then (signed64 (playbackStart + latency)) (\<lambda>origin.
            and_then (PlaybackClock_new expectedRate origin) (\<lambda>clock.
              Inr \<lparr>config = c,
                stats = \<lparr>packetsSent = 0, framesSent = 0, audioDatagramBytesSent = 0, datagramsSent = 0,
                  clientSendFailures = 0,
                  packetDurationMilliseconds = dbl (dbl (1000 * of_nat (unat framesPerPacket)) /
                    of_nat (unat expectedRate)),
                  lastFrame = 0, endedForCommand = False, sourceExhausted = False\<rparr>,
                stats_sessionId = (if config_sessionId c \<noteq> 0 then config_sessionId c else drawnSession),
                framesPerPacket = framesPerPacket, stream_rate = expectedRate,
                stream_channels = channelCount, stream_clock = clock, initialFrame = first,
                nextFrame = first, nextSequenceNumber = 0, progressFrame = None, running = True\<rparr>))))))"

text \<open>What one turn of the loop meets, and what it sends: the packet, its datagram, the endpoints.\<close>

record host_turn =
  routeChanged :: bool
  roomSeen :: "RoomSnapshot option"
  decodeError :: "string option"
  decodedSamples :: "i16 list"
  membersSeen :: "RoomMember list option"
  sendResult :: "string \<Rightarrow> u16 \<Rightarrow> send_result"

record sent_packet =
  packet :: AudioPacket
  wire :: "u8 list"
  endpoints :: "(string \<times> u16) list"

text \<open>The end of the segment a pending action sets, or the frames left before it.\<close>

datatype cut = Cut_Now | Cut_After u64

definition command_cut :: "ScheduledRoomAction \<Rightarrow> int \<Rightarrow> HostStream \<Rightarrow> exn + cut" where
  "command_cut pending presentation h =
     and_then (if action pending = Seek then in_nanoseconds (sendAhead (config h)) else Inr 0) (\<lambda>ahead.
     and_then (signed64 (effectiveHostNanoseconds pending - ahead)) (\<lambda>cutoff.
       if presentation \<ge> cutoff then Inr Cut_Now
       else
         and_then (signed64 (cutoff - presentation)) (\<lambda>left.
           let framesUntilCutoff =
                 dbl (dbl (dbl (of_int left) / 1000000000) * of_nat (unat (stream_rate h))) in
           Inr (Cut_After
             (if framesUntilCutoff < dbl (of_nat (unat (framesPerPacket h)))
              then max 1 (word_of_int \<lfloor>framesUntilCutoff\<rfloor>) else framesPerPacket h)))))"

definition host_packet :: "HostStream \<Rightarrow> int \<Rightarrow> i16 list \<Rightarrow> AudioPacket" where
  "host_packet h presentation samples =
     default_AudioPacket\<lparr>sessionId := stats_sessionId h, streamId := config_streamId (config h),
       sequenceNumber := nextSequenceNumber h, sampleRate := stream_rate h,
       channelCount := stream_channels h, startFrame := nextFrame h,
       presentationTimestampNanoseconds := word_of_int presentation,
       frameCount := word_of_nat (length samples div unat (stream_channels h)),
       pcmPayload := toLittleEndianPcm samples\<rparr>"

text \<open>In a room every member gets the datagram and a failed send is counted; else it is an error.\<close>

fun deliver_members ::
    "(string \<Rightarrow> bool) \<Rightarrow> u8 list \<Rightarrow> (string \<Rightarrow> u16 \<Rightarrow> send_result) \<Rightarrow> RoomMember list \<Rightarrow> HostStats \<Rightarrow>
     HostStats \<times> (string \<times> u16) list" where
  "deliver_members is_ipv4 bytes result [] s = (s, [])"
| "deliver_members is_ipv4 bytes result (m # ms) s =
     (let address = ipv4Address m; port = member_audioPort m in
      case sendTo is_ipv4 bytes address port (result address port) of
        Inr _ \<Rightarrow>
          (let (s, sent) = deliver_members is_ipv4 bytes result ms
                 (s\<lparr>audioDatagramBytesSent := audioDatagramBytesSent s + word_of_nat (length bytes),
                    datagramsSent := datagramsSent s + 1\<rparr>) in
           (s, (address, port) # sent))
      | Inl _ \<Rightarrow>
          deliver_members is_ipv4 bytes result ms
            (s\<lparr>clientSendFailures := clientSendFailures s + 1\<rparr>))"

definition deliver ::
    "(string \<Rightarrow> bool) \<Rightarrow> u8 list \<Rightarrow> host_turn \<Rightarrow> HostStream \<Rightarrow> exn + HostStats \<times> (string \<times> u16) list" where
  "deliver is_ipv4 bytes t h =
     (case membersSeen t of
        Some ms \<Rightarrow> Inr (deliver_members is_ipv4 bytes (sendResult t) ms (stats h))
      | None \<Rightarrow>
          (let address = hostAddress (config h); port = hostPort (config h); s = stats h in
           and_then (send bytes (sendResult t address port)) (\<lambda>_.
             Inr (s\<lparr>audioDatagramBytesSent := audioDatagramBytesSent s + word_of_nat (length bytes),
                    datagramsSent := datagramsSent s + 1\<rparr>, [(address, port)]))))"

definition stream_end :: "HostStream \<Rightarrow> (HostStats \<Rightarrow> HostStats) \<Rightarrow> HostStream" where
  "stream_end h mark = h\<lparr>stats := (mark (stats h))\<lparr>lastFrame := nextFrame h\<rparr>, running := False\<rparr>"

text \<open>How many frames this turn asks the decoder for; \<open>None\<close> ends the stream for a command.\<close>

definition requested_frames :: "host_turn \<Rightarrow> int \<Rightarrow> HostStream \<Rightarrow> exn + u64 option" where
  "requested_frames t presentation h =
     (case roomSeen t of
        Some r \<Rightarrow>
          (case pendingAction r of
             Some pending \<Rightarrow>
               and_then (command_cut pending presentation h) (\<lambda>cut.
                 case cut of Cut_Now \<Rightarrow> Inr None | Cut_After n \<Rightarrow> Inr (Some n))
           | None \<Rightarrow> Inr (Some (framesPerPacket h)))
      | None \<Rightarrow> Inr (Some (framesPerPacket h)))"

definition host_send ::
    "(string \<Rightarrow> bool) \<Rightarrow> host_turn \<Rightarrow> int \<Rightarrow> HostStream \<Rightarrow> exn + HostStream \<times> sent_packet list" where
  "host_send is_ipv4 t presentation h =
     and_then (in_nanoseconds (sendAhead (config h))) (\<lambda>ahead.
     and_then (signed64 (presentation - ahead)) (\<lambda>_.
       let framesRead = word_of_nat (length (decodedSamples t) div unat (stream_channels h)) :: u64;
           p = host_packet h presentation (decodedSamples t) in
       if presentation < 0
       then Inl (Runtime_Error ''Host monotonic timestamp is negative'')
       else
         and_then (serialize p) (\<lambda>datagram.
         and_then (deliver is_ipv4 datagram t h) (\<lambda>(s, sent).
           Inr (h\<lparr>stats := s\<lparr>packetsSent := packetsSent s + 1, framesSent := framesSent s + framesRead\<rparr>,
                  nextSequenceNumber := nextSequenceNumber h + 1,
                  nextFrame := nextFrame h + framesRead,
                  progressFrame := Some (nextFrame h + framesRead)\<rparr>,
                [\<lparr>packet = p, wire = datagram, endpoints = sent\<rparr>])))))"

definition host_step ::
    "(string \<Rightarrow> bool) \<Rightarrow> host_turn \<Rightarrow> HostStream \<Rightarrow> exn + HostStream \<times> sent_packet list" where
  "host_step is_ipv4 t h =
     (if routeChanged t
      then Inl (Runtime_Error
        ''Host output route changed; restart with a calibration for the new route'')
      else
        and_then (frameToTimestamp (stream_clock h) (nextFrame h - initialFrame h)) (\<lambda>presentation.
        and_then (requested_frames t presentation h) (\<lambda>request.
          case request of
            None \<Rightarrow> Inr (stream_end h (\<lambda>s. s\<lparr>endedForCommand := True\<rparr>), [])
          | Some _ \<Rightarrow>
              (case decodeError t of
                 Some e \<Rightarrow> Inl (Runtime_Error (''Unable to decode network audio: '' @ e))
               | None \<Rightarrow>
                   if length (decodedSamples t) div unat (stream_channels h) = 0
                   then Inr (stream_end h (\<lambda>s. s\<lparr>sourceExhausted := True\<rparr>), [])
                   else host_send is_ipv4 t presentation h))))"

text \<open>The loop over the turns met; packets sent before an error stay sent.\<close>

fun host_loop ::
    "(string \<Rightarrow> bool) \<Rightarrow> host_turn list \<Rightarrow> HostStream \<Rightarrow> (exn + HostStream) \<times> sent_packet list" where
  "host_loop is_ipv4 [] h = (Inr h, [])"
| "host_loop is_ipv4 (t # ts) h =
     (if \<not> running h then (Inr h, [])
      else case host_step is_ipv4 t h of
        Inl e \<Rightarrow> (Inl e, [])
      | Inr (h, sent) \<Rightarrow>
          (let (result, later) = host_loop is_ipv4 ts h in (result, sent @ later)))"

section \<open>The decoder's contract\<close>

text \<open>
  \<open>source\<close> is the audio from the first frame of the segment on. Each call returns the frames that
  follow, at most as many as it was asked for, and none only at the end.
\<close>

definition host_offset :: "HostStream \<Rightarrow> nat" where
  "host_offset h = unat (nextFrame h - initialFrame h)"

definition turn_ok :: "i16 list \<Rightarrow> host_turn \<Rightarrow> HostStream \<Rightarrow> bool" where
  "turn_ok source t h \<longleftrightarrow>
     (case frameToTimestamp (stream_clock h) (nextFrame h - initialFrame h) of
        Inl _ \<Rightarrow> True
      | Inr presentation \<Rightarrow>
          (case requested_frames t presentation h of
             Inr (Some r) \<Rightarrow> decodeError t = None \<longrightarrow>
               (let c = unat (stream_channels h); k = length (decodedSamples t) div c in
                decodedSamples t = take (k * c) (drop (host_offset h * c) source) \<and>
                k \<le> unat r \<and> (host_offset h + k) * c \<le> length source \<and>
                (k = 0 \<longrightarrow> host_offset h * c = length source))
           | _ \<Rightarrow> True))"

fun turns_ok :: "(string \<Rightarrow> bool) \<Rightarrow> i16 list \<Rightarrow> host_turn list \<Rightarrow> HostStream \<Rightarrow> bool" where
  "turns_ok is_ipv4 source [] h = True"
| "turns_ok is_ipv4 source (t # ts) h =
     (running h \<longrightarrow> turn_ok source t h \<and>
       (case host_step is_ipv4 t h of
          Inl _ \<Rightarrow> True | Inr (h, _) \<Rightarrow> turns_ok is_ipv4 source ts h))"

section \<open>Lemmas\<close>

lemma pcm_sample:
  "ucast (ucast (s AND 0xFF) :: u8) OR push_bit 8 (ucast (ucast (drop_bit 8 s) :: u8)) = (s :: i16)"
proof -
  have low: "(0xFF :: i16) = mask 8" by (simp add: mask_eq_exp_minus_1)
  show ?thesis unfolding low by (rule bit_word_eqI) (auto simp: bit_simps)
qed

lemma length_toLittleEndianPcm [simp]: "length (toLittleEndianPcm xs) = 2 * length xs"
  by (induction xs rule: toLittleEndianPcm.induct) simp_all

lemma decode_toLittleEndianPcm [simp]: "decodePcm (toLittleEndianPcm xs) = xs"
  by (induction xs rule: toLittleEndianPcm.induct) (simp_all add: pcm_sample)

text \<open>What \<open>stream_begin\<close> establishes and no turn changes.\<close>

definition host_ok :: "HostStream \<Rightarrow> bool" where
  "host_ok h \<longleftrightarrow>
     clock_ok (stream_clock h) \<and> clockRate (stream_clock h) = stream_rate h \<and>
     0 < unat (stream_channels h) \<and> 0 < unat (framesPerPacket h) \<and>
     unat (framesPerPacket h) * (2 * unat (stream_channels h)) \<le> 1148"

lemma frames_per_packet_bounds:
  assumes "frames_per_packet rate channels duration = Inr n"
  shows "0 < unat channels" "0 < unat n" "unat n * (2 * unat channels) \<le> 1148"
proof -
  define m where "m = MaximumPayloadSize div (unat channels * 2)"
  have m: "m * (unat channels * 2) \<le> 1148" and "m < 18446744073709551616"
    by (simp_all add: m_def order_le_less_trans [OF div_le_dividend])
  then have "unat (word_of_nat m :: u64) = m"
    by (simp add: unsigned_of_nat take_bit_nat_eq_self_iff)
  moreover have n: "n = min (max 1 ((ucast rate * word_of_int duration + 999) div 1000)) (word_of_nat m)"
    "n \<noteq> 0"
    using assms by (auto simp: frames_per_packet_def Let_def m_def split: if_splits)
  ultimately have "unat n \<le> m" by (metis min.cobounded2 word_le_nat_alt)
  then have "unat n * (unat channels * 2) \<le> m * (unat channels * 2)" by (rule mult_le_mono1)
  then show "unat n * (2 * unat channels) \<le> 1148" using m by (simp only: mult.commute [of 2])
  show pos: "0 < unat n" using n(2) unat_gt_0 by blast
  show "0 < unat channels"
  proof (rule ccontr)
    assume "\<not> 0 < unat channels"
    then have "m = 0" by (simp add: m_def)
    then show False using \<open>unat n \<le> m\<close> pos by simp
  qed
qed

lemma stream_begin_ok:
  assumes "stream_begin c drawn source start rate channels first sender = Inr h"
  shows "host_ok h" "initialFrame h = first" "nextFrame h = first" "nextSequenceNumber h = 0"
    "running h" "host_offset h = 0" "stream_rate h = rate" "stream_channels h = channels"
    "config h = c" "packetsSent (stats h) = 0" "\<not> endedForCommand (stats h)" "\<not> sourceExhausted (stats h)"
proof -
  obtain n origin clock where n: "frames_per_packet rate channels (desiredPacketDuration c) = Inr n"
    and origin: "in_int64 origin" and clock: "PlaybackClock_new rate origin = Inr clock"
    and h: "stream_clock h = clock" "stream_rate h = rate" "stream_channels h = channels"
      "framesPerPacket h = n" "initialFrame h = first" "nextFrame h = first"
      "nextSequenceNumber h = 0" "running h" "config h = c" "packetsSent (stats h) = 0"
      "\<not> endedForCommand (stats h)" "\<not> sourceExhausted (stats h)"
    using assms
    by (auto simp: stream_begin_def Let_def res_simps split: option.splits if_splits)
  have "clockRate clock = rate"
    using clock by (auto simp: PlaybackClock_new_def split: if_splits)
  then show "host_ok h"
    using clock_ok_new [OF clock origin] frames_per_packet_bounds [OF n] h by (simp add: host_ok_def)
  show "initialFrame h = first" "nextFrame h = first" "nextSequenceNumber h = 0"
    "running h" "host_offset h = 0" "stream_rate h = rate" "stream_channels h = channels"
    "config h = c" "packetsSent (stats h) = 0" "\<not> endedForCommand (stats h)" "\<not> sourceExhausted (stats h)"
    using h by (simp_all add: host_offset_def)
qed

lemma unat_word_of_int: "0 \<le> i \<Longrightarrow> i < 1000 \<Longrightarrow> unat (word_of_int i :: u64) = nat i"
  by (simp add: unsigned_of_int take_bit_int_eq_self)

lemma word_of_int_floor:
  assumes "0 \<le> x" "x < of_nat n" "n \<le> 1000"
  shows "unat (word_of_int \<lfloor>x\<rfloor> :: u64) = nat \<lfloor>x\<rfloor>" "nat \<lfloor>x\<rfloor> < n"
proof -
  have bounds: "0 \<le> \<lfloor>x\<rfloor>" "\<lfloor>x\<rfloor> < int n"
    using assms by (simp_all add: floor_less_iff)
  show "nat \<lfloor>x\<rfloor> < n" using bounds by linarith
  have "\<lfloor>x\<rfloor> < 1000" using bounds(2) assms(3) by linarith
  with bounds(1) show "unat (word_of_int \<lfloor>x\<rfloor> :: u64) = nat \<lfloor>x\<rfloor>" by (rule unat_word_of_int)
qed

lemma dbl_nat: "n \<le> 1000 \<Longrightarrow> dbl (of_nat n) = of_nat n"
  using dbl_int [of "int n"] by simp

lemma dbl_frames: "unat (n :: u64) \<le> 1000 \<Longrightarrow> dbl (of_nat (unat n)) = of_nat (unat n)"
  by (rule dbl_nat)

lemma command_cut_cases:
  assumes "command_cut pending presentation h = Inr ct" "unat (framesPerPacket h) \<le> 1000"
  obtains cutoff where "cutoff \<le> presentation" "ct = Cut_Now"
      "cutoff = effectiveHostNanoseconds pending -
         (if action pending = Seek then sendAhead (config h) * 1000000 else 0)"
  | cutoff left n where "presentation < cutoff" "left = cutoff - presentation" "ct = Cut_After n"
      "cutoff = effectiveHostNanoseconds pending -
         (if action pending = Seek then sendAhead (config h) * 1000000 else 0)"
      "n = framesPerPacket h \<and> of_nat (unat (framesPerPacket h)) \<le>
         dbl (dbl (dbl (of_int left) / 1000000000) * of_nat (unat (stream_rate h))) \<or>
       unat n = max 1 (nat \<lfloor>dbl (dbl (dbl (of_int left) / 1000000000) * of_nat (unat (stream_rate h)))\<rfloor>)"
      "0 < unat (framesPerPacket h) \<Longrightarrow> unat n \<le> unat (framesPerPacket h) \<and> 0 < unat n"
proof -
  define cutoff where "cutoff = effectiveHostNanoseconds pending -
     (if action pending = Seek then sendAhead (config h) * 1000000 else 0)"
  define left where "left = cutoff - presentation"
  define x where
    "x = dbl (dbl (dbl (of_int left) / 1000000000) * of_nat (unat (stream_rate h)))"
  have result: "if cutoff \<le> presentation then ct = Cut_Now
      else ct = Cut_After (if x < dbl (of_nat (unat (framesPerPacket h)))
        then max 1 (word_of_int \<lfloor>x\<rfloor>) else framesPerPacket h)"
    using assms(1)
    by (auto simp: command_cut_def in_nanoseconds_def cutoff_def left_def x_def Let_def res_simps
        split: if_splits)
  show ?thesis
  proof (cases "cutoff \<le> presentation")
    case True
    then show ?thesis using that(1) [of cutoff] result cutoff_def by simp
  next
    case False
    then have "0 \<le> x"
      unfolding x_def left_def
      by (intro binary64.nonneg mult_nonneg_nonneg divide_nonneg_nonneg of_nat_0_le_iff) simp_all
    define n where "n = (if x < of_nat (unat (framesPerPacket h))
        then max 1 (word_of_int \<lfloor>x\<rfloor>) else framesPerPacket h)"
    have ct: "ct = Cut_After n" using result False dbl_frames [OF assms(2)] by (simp add: n_def)
    have word: "unat (word_of_int \<lfloor>x\<rfloor> :: u64) = nat \<lfloor>x\<rfloor>" "nat \<lfloor>x\<rfloor> < unat (framesPerPacket h)"
      if "x < of_nat (unat (framesPerPacket h))"
      using word_of_int_floor [OF \<open>0 \<le> x\<close> that assms(2)] by simp_all
    have clamped: "unat n = max 1 (nat \<lfloor>x\<rfloor>)" if "x < of_nat (unat (framesPerPacket h))"
      using word [OF that] that by (simp add: n_def max_def word_le_nat_alt)
    have frames: "n = framesPerPacket h \<and> of_nat (unat (framesPerPacket h)) \<le> x \<or>
        unat n = max 1 (nat \<lfloor>x\<rfloor>)"
    proof (cases "x < of_nat (unat (framesPerPacket h))")
      case True
      then show ?thesis using clamped by blast
    next
      case False
      then show ?thesis unfolding n_def not_less by simp
    qed
    have "unat n \<le> unat (framesPerPacket h) \<and> 0 < unat n" if "0 < unat (framesPerPacket h)"
      using clamped word(2) that by (cases "x < of_nat (unat (framesPerPacket h))") (auto simp: n_def)
    then show ?thesis
      using that(2) [of cutoff left n] False ct frames by (simp add: cutoff_def left_def x_def)
  qed
qed

lemma host_okD:
  assumes "host_ok h"
  shows "clock_ok (stream_clock h)" "clockRate (stream_clock h) = stream_rate h"
    "0 < unat (stream_channels h)" "0 < unat (framesPerPacket h)" "unat (framesPerPacket h) \<le> 574"
    "unat (framesPerPacket h) * (2 * unat (stream_channels h)) \<le> 1148"
proof -
  show facts: "clock_ok (stream_clock h)" "clockRate (stream_clock h) = stream_rate h"
    "0 < unat (stream_channels h)" "0 < unat (framesPerPacket h)"
    "unat (framesPerPacket h) * (2 * unat (stream_channels h)) \<le> 1148"
    using assms unfolding host_ok_def by blast+
  have "unat (framesPerPacket h) * 2 \<le> unat (framesPerPacket h) * (2 * unat (stream_channels h))"
    using facts(3) by simp
  then show "unat (framesPerPacket h) \<le> 574" using facts(5) by linarith
qed

lemma requested_frames_bounds:
  assumes "host_ok h" "requested_frames t presentation h = Inr (Some n)"
  shows "0 < unat n" "unat n \<le> unat (framesPerPacket h)"
proof -
  note ok = host_okD [OF assms(1)]
  have small: "unat (framesPerPacket h) \<le> 1000" using ok(5) by linarith
  have "0 < unat n \<and> unat n \<le> unat (framesPerPacket h)"
  proof (cases "\<exists>r pending. roomSeen t = Some r \<and> pendingAction r = Some pending")
    case True
    then obtain pending ct where c: "command_cut pending presentation h = Inr ct"
      "(case ct of Cut_Now \<Rightarrow> Inr None | Cut_After n \<Rightarrow> Inr (Some n)) = (Inr (Some n) :: exn + u64 option)"
      using assms(2) by (auto simp: requested_frames_def res_simps)
    then have "ct = Cut_After n" by (cases ct) auto
    then have "command_cut pending presentation h = Inr (Cut_After n)" using c(1) by simp
    then show ?thesis by (rule command_cut_cases [OF _ small]) (use ok(4) in simp_all)
  next
    case False
    then have "n = framesPerPacket h"
      using assms(2) by (auto simp: requested_frames_def split: option.splits)
    then show ?thesis using ok(4) by simp
  qed
  then show "0 < unat n" "unat n \<le> unat (framesPerPacket h)" by simp_all
qed

text \<open>A turn that sends: the packet, and where the stream is after it.\<close>

lemma host_step_sends:
  assumes "host_ok h" "turn_ok source t h" "length source < 18446744073709551616"
    "host_step is_ipv4 t h = Inr (h', sent)" "sent \<noteq> []"
  obtains presentation k x where "sent = [x]" "packet x = host_packet h presentation (decodedSamples t)"
    "serialize (packet x) = Inr (wire x)" "0 \<le> presentation" "presentation \<le> int64_max"
    "frameToTimestamp (stream_clock h) (nextFrame h - initialFrame h) = Inr presentation"
    "unat (frameCount (packet x)) = k" "0 < k" "k \<le> unat (framesPerPacket h)"
    "decodedSamples t = take (k * unat (stream_channels h))
       (drop (host_offset h * unat (stream_channels h)) source)"
    "(host_offset h + k) * unat (stream_channels h) \<le> length source"
    "nextFrame h' = nextFrame h + ucast (frameCount (packet x))"
    "host_offset h' = host_offset h + k" "nextSequenceNumber h' = nextSequenceNumber h + 1"
    "initialFrame h' = initialFrame h" "stream_clock h' = stream_clock h" "host_ok h'"
    "stream_channels h' = stream_channels h" "stream_rate h' = stream_rate h" "config h' = config h"
    "running h' = running h"
    "\<exists>r. requested_frames t presentation h = Inr (Some r) \<and> k \<le> unat r"
proof -
  let ?c = "unat (stream_channels h)"
  note ok = host_okD [OF assms(1)]
  define k where "k = length (decodedSamples t) div ?c"
  obtain presentation r where pres:
    "frameToTimestamp (stream_clock h) (nextFrame h - initialFrame h) = Inr presentation"
    and request: "requested_frames t presentation h = Inr (Some r)" and decoded: "decodeError t = None"
    and k_pos: "k \<noteq> 0" and sends: "host_send is_ipv4 t presentation h = Inr (h', sent)"
    using assms(4,5)
    by (auto simp: host_step_def k_def res_simps split: if_splits option.splits)
  have turn: "decodedSamples t = take (k * ?c) (drop (host_offset h * ?c) source)" "k \<le> unat r"
    "(host_offset h + k) * ?c \<le> length source"
    using assms(2) pres request decoded by (simp_all add: turn_ok_def Let_def k_def)
  have r: "unat r \<le> unat (framesPerPacket h)"
    by (rule requested_frames_bounds(2) [OF assms(1) request])
  define p where "p = host_packet h presentation (decodedSamples t)"
  obtain bytes s dests where nonneg: "0 \<le> presentation" and bytes: "serialize p = Inr bytes"
    and h': "h' = h\<lparr>stats := s\<lparr>packetsSent := packetsSent s + 1,
          framesSent := framesSent s + word_of_nat k\<rparr>,
        nextSequenceNumber := nextSequenceNumber h + 1, nextFrame := nextFrame h + word_of_nat k,
        progressFrame := Some (nextFrame h + word_of_nat k)\<rparr>"
    and sent: "sent = [\<lparr>packet = p, wire = bytes, endpoints = dests\<rparr>]"
    using sends by (auto simp: host_send_def Let_def k_def p_def res_simps split: if_splits)
  have small: "k \<le> 574" using turn(2) r ok(5) by linarith
  have count: "unat (frameCount p) = k"
    using small by (simp add: p_def host_packet_def unsigned_of_nat take_bit_nat_eq_self_iff
        flip: k_def)
  have k64: "unat (word_of_nat k :: u64) = k"
    using small by (simp add: unsigned_of_nat take_bit_nat_eq_self_iff)
  have ucount: "ucast (frameCount p) = (word_of_nat k :: u64)"
    unfolding word_unat_eq_iff k64 unat_ucast_u16_u64 by (rule count)
  have "host_offset h + k \<le> (host_offset h + k) * ?c" using ok(3) by simp
  then have fits: "host_offset h + k < 18446744073709551616" using turn(3) assms(3) by linarith
  have offset: "unat (nextFrame h - initialFrame h + word_of_nat k) = host_offset h + k"
    using fits k64 by (subst unat_add_no_wrap) (simp_all only: host_offset_def)
  have "presentation \<le> int64_max"
    using pres frameToTimestamp_Inr_iff [OF ok(1)] by simp
  then show ?thesis
    using that [of "\<lparr>packet = p, wire = bytes, endpoints = dests\<rparr>" presentation k] sent bytes nonneg pres count k_pos
      turn r h' offset ucount request assms(1)
    by (simp add: p_def host_offset_def host_ok_def algebra_simps)
qed

text \<open>A turn that sends nothing ends the stream, for a command or at the end of the source.\<close>

lemma host_step_ends:
  assumes "host_ok h" "turn_ok source t h" "host_step is_ipv4 t h = Inr (h', [])"
  shows "\<not> running h'" "lastFrame (stats h') = nextFrame h" "host_offset h' = host_offset h"
    "sourceExhausted (stats h') \<Longrightarrow> \<not> sourceExhausted (stats h) \<Longrightarrow>
       host_offset h * unat (stream_channels h) = length source"
proof -
  let ?k = "length (decodedSamples t) div unat (stream_channels h)"
  obtain presentation request where
    pres: "frameToTimestamp (stream_clock h) (nextFrame h - initialFrame h) = Inr presentation"
    and request: "requested_frames t presentation h = Inr request"
    and step: "(case request of None \<Rightarrow> Inr (stream_end h (\<lambda>s. s\<lparr>endedForCommand := True\<rparr>), [])
      | Some _ \<Rightarrow> (case decodeError t of
          Some e \<Rightarrow> Inl (Runtime_Error (''Unable to decode network audio: '' @ e))
        | None \<Rightarrow> if ?k = 0 then Inr (stream_end h (\<lambda>s. s\<lparr>sourceExhausted := True\<rparr>), [])
            else host_send is_ipv4 t presentation h)) = (Inr (h', []) :: exn + HostStream \<times> sent_packet list)"
    using assms(3) by (auto simp: host_step_def res_simps split: if_splits)
  have no_send: "host_send is_ipv4 t presentation h \<noteq> Inr (h', [])"
    by (auto simp: host_send_def Let_def res_simps)
  consider "h' = stream_end h (\<lambda>s. s\<lparr>endedForCommand := True\<rparr>)"
    | r where "h' = stream_end h (\<lambda>s. s\<lparr>sourceExhausted := True\<rparr>)" "request = Some r"
      "decodeError t = None" "?k = 0"
    using step no_send by (auto split: option.splits if_splits)
  then have "\<not> running h' \<and> lastFrame (stats h') = nextFrame h \<and> host_offset h' = host_offset h \<and>
      (sourceExhausted (stats h') \<longrightarrow> \<not> sourceExhausted (stats h) \<longrightarrow>
       host_offset h * unat (stream_channels h) = length source)"
  proof cases
    case 1
    then show ?thesis by (simp add: stream_end_def host_offset_def)
  next
    case (2 r)
    then have "host_offset h * unat (stream_channels h) = length source"
      using assms(2) pres request by (simp add: turn_ok_def Let_def)
    then show ?thesis using 2(1) by (simp add: stream_end_def host_offset_def)
  qed
  then show "\<not> running h'" "lastFrame (stats h') = nextFrame h" "host_offset h' = host_offset h"
    "sourceExhausted (stats h') \<Longrightarrow> \<not> sourceExhausted (stats h) \<Longrightarrow>
       host_offset h * unat (stream_channels h) = length source"
    by blast+
qed

text \<open>
  What a receiver may expect of a stream: consecutive sequence numbers, each packet starting at the
  frame after the last one of the packet before, stamped with the time of its first frame.
\<close>

fun packets_follow :: "u64 \<Rightarrow> u32 \<Rightarrow> sent_packet list \<Rightarrow> bool" where
  "packets_follow frame seq [] \<longleftrightarrow> True"
| "packets_follow frame seq (x # xs) \<longleftrightarrow>
     startFrame (packet x) = frame \<and> sequenceNumber (packet x) = seq \<and>
     packets_follow (frame + ucast (frameCount (packet x))) (seq + 1) xs"

definition packet_stamped :: "PlaybackClock \<Rightarrow> u64 \<Rightarrow> sent_packet \<Rightarrow> bool" where
  "packet_stamped clock first x \<longleftrightarrow>
     serialize (packet x) = Inr (wire x) \<and>
     frameToTimestamp clock (startFrame (packet x) - first) =
       Inr (int (unat (presentationTimestampNanoseconds (packet x))))"

definition sent_audio :: "sent_packet list \<Rightarrow> i16 list" where
  "sent_audio xs = concat (map (\<lambda>x. decodePcm (pcmPayload (packet x))) xs)"

definition sent_frames :: "sent_packet list \<Rightarrow> nat" where
  "sent_frames xs = sum_list (map (\<lambda>x. unat (frameCount (packet x))) xs)"

lemma unat_timestamp: "0 \<le> i \<Longrightarrow> i \<le> int64_max \<Longrightarrow> int (unat (word_of_int i :: u64)) = i"
  by (simp add: unsigned_of_int take_bit_int_eq_self)

lemma host_packet_stamped:
  assumes "packet x = host_packet h presentation samples" "serialize (packet x) = Inr (wire x)"
    "0 \<le> presentation" "presentation \<le> int64_max"
    "frameToTimestamp (stream_clock h) (nextFrame h - initialFrame h) = Inr presentation"
  shows "packet_stamped (stream_clock h) (initialFrame h) x"
  using assms unat_timestamp [OF assms(3,4)] by (simp add: packet_stamped_def host_packet_def)

lemma take_drop_step:
  "take (a * c + b * c) (drop (o1 * c) xs) =
   take (a * c) (drop (o1 * c) xs) @ take (b * c) (drop ((o1 + a) * c) xs)"
  by (simp add: take_add add_mult_distrib add.commute)

lemma deliver_members_marks:
  "deliver_members is_ipv4 bytes res ms st = (s, dests) \<Longrightarrow> sourceExhausted s = sourceExhausted st"
  by (induction ms arbitrary: st s dests) (auto simp: Let_def split: sum.splits prod.splits)

lemma deliver_marks:
  "deliver is_ipv4 bytes t h = Inr (s, dests) \<Longrightarrow> sourceExhausted s = sourceExhausted (stats h)"
  by (auto simp: deliver_def Let_def res_simps dest: deliver_members_marks split: option.splits)

lemma host_step_keeps_marks:
  assumes "host_step is_ipv4 t h = Inr (h1, now)" "now \<noteq> []"
  shows "sourceExhausted (stats h1) = sourceExhausted (stats h)"
proof -
  obtain presentation where "host_send is_ipv4 t presentation h = Inr (h1, now)"
    using assms by (auto simp: host_step_def res_simps split: if_splits option.splits)
  then show ?thesis using deliver_marks by (auto simp: host_send_def Let_def res_simps split: if_splits)
qed

lemma host_loop_stream:
  assumes "host_ok h" "turns_ok is_ipv4 source ts h" "length source < 18446744073709551616"
    "host_loop is_ipv4 ts h = (result, sent)"
  shows "packets_follow (nextFrame h) (nextSequenceNumber h) sent \<and>
    list_all (packet_stamped (stream_clock h) (initialFrame h)) sent \<and>
    sent_audio sent = take (sent_frames sent * unat (stream_channels h))
      (drop (host_offset h * unat (stream_channels h)) source) \<and>
    (host_offset h * unat (stream_channels h) \<le> length source \<longrightarrow>
       (host_offset h + sent_frames sent) * unat (stream_channels h) \<le> length source) \<and>
    (\<forall>h'. result = Inr h' \<longrightarrow> host_offset h' = host_offset h + sent_frames sent \<and>
       (sourceExhausted (stats h') \<longrightarrow> \<not> sourceExhausted (stats h) \<longrightarrow>
         (host_offset h + sent_frames sent) * unat (stream_channels h) = length source))"
  using assms
proof (induction ts arbitrary: h sent result)
  case Nil
  then show ?case by (auto simp: sent_audio_def sent_frames_def)
next
  case (Cons t ts)
  show ?case
  proof (cases "running h")
    case False
    then show ?thesis using Cons.prems(4) by (auto simp: sent_audio_def sent_frames_def)
  next
    case True
    note run = True
    show ?thesis
    proof (cases "host_step is_ipv4 t h")
      case (Inl e)
      then show ?thesis using Cons.prems(4) run by (auto simp: sent_audio_def sent_frames_def)
    next
      case (Inr step)
      obtain h1 now where step: "host_step is_ipv4 t h = Inr (h1, now)" using Inr by (cases step) simp
      obtain later where later: "host_loop is_ipv4 ts h1 = (result, later)" "sent = now @ later"
        using Cons.prems(4) step run by (auto split: prod.splits)
      have turn: "turn_ok source t h" and turns: "turns_ok is_ipv4 source ts h1"
        using Cons.prems(2) run step by simp_all
      show ?thesis
      proof (cases "now = []")
        case True
        note ended = host_step_ends [OF Cons.prems(1) turn step [unfolded True]]
        have none: "later = [] \<and> result = Inr h1" using later(1) ended(1) by (cases ts) auto
        then show ?thesis
          using ended(3,4) none later(2) True by (auto simp: sent_audio_def sent_frames_def)
      next
        case False
        let ?c = "unat (stream_channels h)"
        obtain presentation k x where x: "now = [x]"
          "packet x = host_packet h presentation (decodedSamples t)"
          "serialize (packet x) = Inr (wire x)" "0 \<le> presentation" "presentation \<le> int64_max"
          "frameToTimestamp (stream_clock h) (nextFrame h - initialFrame h) = Inr presentation"
          and k: "unat (frameCount (packet x)) = k"
          "decodedSamples t = take (k * ?c) (drop (host_offset h * ?c) source)"
          "(host_offset h + k) * ?c \<le> length source"
          and h1: "nextFrame h1 = nextFrame h + ucast (frameCount (packet x))"
          "host_offset h1 = host_offset h + k" "nextSequenceNumber h1 = nextSequenceNumber h + 1"
          "initialFrame h1 = initialFrame h" "stream_clock h1 = stream_clock h" "host_ok h1"
          "stream_channels h1 = stream_channels h"
          by (rule host_step_sends [OF Cons.prems(1) turn Cons.prems(3) step False])
        note exhausted = host_step_keeps_marks [OF step False]
        note IH = Cons.IH [OF h1(6) turns Cons.prems(3) later(1)]
        have "startFrame (packet x) = nextFrame h" "sequenceNumber (packet x) = nextSequenceNumber h"
          "decodePcm (pcmPayload (packet x)) = decodedSamples t"
          by (simp_all add: x(2) host_packet_def)
        moreover have "packet_stamped (stream_clock h) (initialFrame h) x"
          by (rule host_packet_stamped [OF x(2-6)])
        moreover have "sent_frames sent = k + sent_frames later"
          "sent_audio sent = decodePcm (pcmPayload (packet x)) @ sent_audio later"
          by (simp_all add: later(2) x(1) sent_frames_def sent_audio_def k(1))
        ultimately show ?thesis
          using IH k(2,3) h1 later(2) x(1) exhausted
          by (simp add: take_drop_step add_mult_distrib add.assoc)
      qed
    qed
  qed
qed

section \<open>Properties\<close>

definition example_host :: HostConfig where
  "example_host = \<lparr>hostAddress = ''10.0.0.255'', hostPort = 40100, desiredPacketDuration = 10,
     sendAhead = 500, hostOutputLatency = 20, config_sessionId = 7, config_streamId = 1\<rparr>"

definition example_file_source :: opened_source where
  "example_file_source = \<lparr>openFailure = None, seekFails = False, sourceRate = 8000, sourceChannels = 1\<rparr>"

definition example_stream :: HostStream where
  "example_stream = projr (stream_begin example_host 0 example_file_source 1000000000 8000 1 48000
     (Inr \<lparr>senderAddress = ''10.0.0.255'', senderPort = 40100\<rparr>))"

lemma example_frames_per_packet: "frames_per_packet 8000 1 10 = Inr 80"
proof -
  have "(min (max 1 80) 574 :: u64) = 80" by (simp add: min_def max_def)
  then show ?thesis by (simp add: frames_per_packet_def)
qed

lemma example_stream_begin:
  "stream_begin example_host 0 example_file_source 1000000000 8000 1 48000
     (Inr \<lparr>senderAddress = ''10.0.0.255'', senderPort = 40100\<rparr>) = Inr example_stream"
  "framesPerPacket example_stream = 80" "stream_clock example_stream = \<lparr>clockRate = 8000, clockStart = 1020000000\<rparr>"
  "stats_sessionId example_stream = 7"
  by (simp_all add: example_stream_def stream_begin_def example_host_def example_file_source_def
      example_frames_per_packet in_nanoseconds_def in_int64_def PlaybackClock_new_def)

text \<open>Two turns: two samples come out of the decoder, then the source is at its end.\<close>

definition example_turn :: "i16 list \<Rightarrow> host_turn" where
  "example_turn samples = \<lparr>routeChanged = False, roomSeen = None, decodeError = None,
     decodedSamples = samples, membersSeen = None, sendResult = (\<lambda>_ _. Sent 56)\<rparr>"

text \<open>
  C13. The packets of a stream carry the source, all of it and nothing else: whatever chunks the
  decoder returns and however the stream ends, the packets sent have consecutive sequence numbers and
  start frames, each serializes to the datagram sent and is stamped with the exact time of its first
  frame, and their audio in order is the source from the first frame on, the whole source when the
  stream reports it exhausted.
\<close>

theorem stream_carries_source:
  assumes "stream_begin c drawn file start rate channels first sender = Inr h"
    "turns_ok is_ipv4 source ts h" "length source < 18446744073709551616"
    "host_loop is_ipv4 ts h = (result, sent)"
  shows "packets_follow first 0 sent \<and> list_all (packet_stamped (stream_clock h) first) sent \<and>
    sent_audio sent = take (sent_frames sent * unat channels) source \<and>
    (\<forall>h'. result = Inr h' \<longrightarrow> sourceExhausted (stats h') \<longrightarrow> sent_audio sent = source)"
proof -
  note begun = stream_begin_ok [OF assms(1)]
  note all = host_loop_stream [OF begun(1) assms(2-4)]
  show ?thesis using all begun by auto
qed

lemma example_offset: "nextFrame example_stream = 48000" "initialFrame example_stream = 48000"
  "stream_channels example_stream = 1" "running example_stream" "host_offset example_stream = 0"
  "config example_stream = example_host" "stream_rate example_stream = 8000"
  "nextSequenceNumber example_stream = 0"
  using stream_begin_ok [OF example_stream_begin(1)] by simp_all

definition example_sent_packet :: AudioPacket where
  "example_sent_packet = default_AudioPacket\<lparr>
     sessionId := 7, sampleRate := 8000, channelCount := 1, startFrame := 48000,
     presentationTimestampNanoseconds := 1020000000, frameCount := 2,
     pcmPayload := [1, 0, 255, 127]\<rparr>"

definition example_sent :: sent_packet where
  "example_sent = \<lparr>packet = example_sent_packet,
     wire = header example_sent_packet @ pcmPayload example_sent_packet,
     endpoints = [(''10.0.0.255'', 40100)]\<rparr>"

definition example_after :: HostStream where
  "example_after = example_stream\<lparr>
     stats := (stats example_stream)\<lparr>audioDatagramBytesSent := audioDatagramBytesSent (stats example_stream) + 56,
       datagramsSent := datagramsSent (stats example_stream) + 1,
       packetsSent := packetsSent (stats example_stream) + 1,
       framesSent := framesSent (stats example_stream) + 2\<rparr>,
     nextSequenceNumber := 1, nextFrame := 48002, progressFrame := Some 48002\<rparr>"

lemma example_sent_valid: "packet_valid example_sent_packet"
  by (simp add: packet_valid_def example_sent_packet_def default_AudioPacket_def
      CurrentProtocolVersion_def)

lemma example_stream_packet:
  "host_packet example_stream 1020000000 [1, 32767] = example_sent_packet"
  by (simp add: host_packet_def example_sent_packet_def example_offset example_stream_begin(4)
      example_host_def default_AudioPacket_def)

lemma example_times:
  "frameToTimestamp \<lparr>clockRate = 8000, clockStart = 1020000000\<rparr> 0 = Inr 1020000000"
  "frameToTimestamp \<lparr>clockRate = 8000, clockStart = 1020000000\<rparr> 2 = Inr 1020250000"
proof -
  have ok: "clock_ok \<lparr>clockRate = 8000, clockStart = 1020000000\<rparr>"
    by (simp add: clock_ok_def in_int64_def)
  show "frameToTimestamp \<lparr>clockRate = 8000, clockStart = 1020000000\<rparr> 0 = Inr 1020000000"
    "frameToTimestamp \<lparr>clockRate = 8000, clockStart = 1020000000\<rparr> 2 = Inr 1020250000"
    by (simp_all add: frameToTimestamp_Inr_iff [OF ok] duration_of_def)
qed

lemma example_first_step:
  "host_step (\<lambda>_. True) (example_turn [1, 32767]) example_stream = Inr (example_after, [example_sent])"
proof -
  have "length (header example_sent_packet @ pcmPayload example_sent_packet) = 56"
    by (simp add: example_sent_packet_def)
  moreover have "header example_sent_packet \<noteq> []"
    using length_header [of example_sent_packet] by (metis list.size(3) zero_neq_numeral)
  ultimately show ?thesis
    by (simp add: host_step_def example_turn_def example_offset example_stream_begin(2,3) example_times
        requested_frames_def host_send_def in_nanoseconds_def in_int64_def example_stream_packet
        serialize_valid [OF example_sent_valid] deliver_def send_def sendToAddress_def Let_def
        example_host_def example_sent_def example_after_def)
qed

lemma example_last_step:
  "host_step (\<lambda>_. True) (example_turn []) example_after =
     Inr (stream_end example_after (\<lambda>s. s\<lparr>sourceExhausted := True\<rparr>), [])"
  by (simp add: host_step_def example_turn_def example_after_def example_offset
      example_stream_begin(3) example_times requested_frames_def)

lemma example_turns:
  "turns_ok (\<lambda>_. True) [1, 32767] [example_turn [1, 32767], example_turn []] example_stream"
proof -
  have "turn_ok [1, 32767] (example_turn [1, 32767]) example_stream"
    by (simp add: turn_ok_def example_turn_def example_offset example_stream_begin(2,3) example_times
        requested_frames_def)
  moreover have "turn_ok [1, 32767] (example_turn []) example_after"
    by (simp add: turn_ok_def example_turn_def example_after_def example_offset host_offset_def
        example_stream_begin(2,3) example_times requested_frames_def)
  ultimately show ?thesis by (simp add: example_first_step example_last_step)
qed

lemma example_loop:
  "host_loop (\<lambda>_. True) [example_turn [1, 32767], example_turn []] example_stream =
     (Inr (stream_end example_after (\<lambda>s. s\<lparr>sourceExhausted := True\<rparr>)), [example_sent])"
  by (simp add: example_first_step example_last_step example_offset)
    (simp add: example_after_def example_offset)

theorem stream_carries_source_witness:
  "packets_follow 48000 0 [example_sent] \<and> sent_audio [example_sent] = [1, 32767]"
proof -
  have "length [1, 32767 :: i16] < 18446744073709551616"
    and "sourceExhausted (stats (stream_end example_after (\<lambda>s. s\<lparr>sourceExhausted := True\<rparr>)))"
    by (simp_all add: stream_end_def)
  then show ?thesis
    using stream_carries_source [OF example_stream_begin(1) example_turns _ example_loop] by blast
qed

text \<open>
  C14. Streaming a file ends: with a decoder that delivers, the loop is over after at most one turn for
  each frame of the source and one more, by an error, for a command or because the source is
  exhausted.
\<close>

theorem stream_ends:
  assumes "stream_begin c drawn file start rate channels first sender = Inr h"
    "turns_ok is_ipv4 source ts h" "length source < 18446744073709551616"
    "length source div unat channels < length ts"
  shows "case fst (host_loop is_ipv4 ts h) of Inl _ \<Rightarrow> True | Inr h' \<Rightarrow> \<not> running h'"
proof -
  have "case fst (host_loop is_ipv4 ts h) of Inl _ \<Rightarrow> True | Inr h' \<Rightarrow> \<not> running h'"
    if "host_ok h" "turns_ok is_ipv4 source ts h" "host_offset h * unat (stream_channels h) \<le> length source"
      "length source div unat (stream_channels h) < host_offset h + length ts" for h ts
    using that
  proof (induction ts arbitrary: h)
    case Nil
    have "host_offset h \<le> length source div unat (stream_channels h)"
      using Nil(3) host_okD(3) [OF Nil(1)] by (simp add: less_eq_div_iff_mult_less_eq)
    then show ?case using Nil(4) by simp
  next
    case (Cons t ts)
    show ?case
    proof (cases "running h")
      case False
      then show ?thesis by simp
    next
      case True
      note run = True
      show ?thesis
      proof (cases "host_step is_ipv4 t h")
        case (Inl e)
        then show ?thesis using run by simp
      next
        case (Inr step)
        obtain h1 now where step: "host_step is_ipv4 t h = Inr (h1, now)" using Inr by (cases step) simp
        have turn: "turn_ok source t h" and turns: "turns_ok is_ipv4 source ts h1"
          using Cons.prems(2) run step by simp_all
        have loop: "fst (host_loop is_ipv4 (t # ts) h) = fst (host_loop is_ipv4 ts h1)"
          using run step by (simp split: prod.splits)
        show ?thesis
        proof (cases "now = []")
          case True
          have "\<not> running h1" by (rule host_step_ends(1) [OF Cons.prems(1) turn step [unfolded True]])
          then have "fst (host_loop is_ipv4 ts h1) = Inr h1" by (cases ts) simp_all
          then show ?thesis using loop \<open>\<not> running h1\<close> by simp
        next
          case False
          have "host_ok h1 \<and> stream_channels h1 = stream_channels h \<and> host_offset h < host_offset h1 \<and>
              host_offset h1 * unat (stream_channels h) \<le> length source"
            by (rule host_step_sends [OF Cons.prems(1) turn assms(3) step False]) simp
          then show ?thesis
            using Cons.IH [of h1] turns Cons.prems(4) loop by simp
        qed
      qed
    qed
  qed
  then show ?thesis using stream_begin_ok [OF assms(1)] assms(2,4) by simp
qed

theorem stream_ends_witness:
  "length [1, 32767 :: i16] div unat (1 :: u16) <
     length [example_turn [1, 32767], example_turn [], example_turn []] \<and>
   (case fst (host_loop (\<lambda>_. True) [example_turn [1, 32767], example_turn [], example_turn []]
      example_stream) of Inl _ \<Rightarrow> True | Inr h' \<Rightarrow> \<not> running h')"
proof -
  have "turns_ok (\<lambda>_. True) [1, 32767] [example_turn [1, 32767], example_turn [], example_turn []]
      example_stream"
    using example_turns by (simp add: example_first_step example_last_step) (simp add: stream_end_def)
  from stream_ends [OF example_stream_begin(1) this] show ?thesis by simp
qed

lemma host_loop_ok:
  assumes "host_ok h" "turns_ok is_ipv4 source ts h" "length source < 18446744073709551616"
    "host_loop is_ipv4 ts h = (Inr h', sent)"
  shows "host_ok h'"
  using assms
proof (induction ts arbitrary: h sent)
  case Nil
  then show ?case by simp
next
  case (Cons t ts)
  show ?case
  proof (cases "running h")
    case False
    then show ?thesis using Cons.prems(1,4) by simp
  next
    case True
    then obtain h1 now later where step: "host_step is_ipv4 t h = Inr (h1, now)"
      "host_loop is_ipv4 ts h1 = (Inr h', later)"
      using Cons.prems(4) by (auto split: sum.splits prod.splits)
    have turn: "turn_ok source t h" and turns: "turns_ok is_ipv4 source ts h1"
      using Cons.prems(2) True step(1) by simp_all
    have "host_ok h1"
    proof (cases "now = []")
      case True
      then obtain mark where "h1 = stream_end h mark"
        using step(1) by (auto simp: host_step_def host_send_def Let_def res_simps
            split: if_splits option.splits)
      then show ?thesis using Cons.prems(1) by (simp add: host_ok_def stream_end_def)
    next
      case False
      show ?thesis by (rule host_step_sends [OF Cons.prems(1) turn Cons.prems(3) step(1) False])
    qed
    then show ?thesis using Cons.IH turns Cons.prems(3) step(2) by blast
  qed
qed

text \<open>
  Seconds to frames in double arithmetic: when the rounded product reaches \<open>n\<close>, the exact one is not
  below \<open>n - 1\<close>.
\<close>

lemma frames_before_cutoff:
  assumes "0 < left" "rate \<le> 192000" "8000 \<le> rate" "n \<le> 1000"
    "of_nat n \<le> dbl (dbl (dbl (of_int left) / 1000000000) * of_nat rate)"
  shows "(int n - 1) * 1000000000 \<le> left * int rate"
proof (rule ccontr)
  assume "\<not> (int n - 1) * 1000000000 \<le> left * int rate"
  then have short: "left * int rate < (int n - 1) * 1000000000" by simp
  have n: "int n - 1 \<le> 999" using assms(4) by simp
  have "left * 8000 \<le> left * int rate" using assms(1,3) by simp
  also have "\<dots> < 1000 * 1000000000"
    using short mult_right_mono [OF n, of 1000000000] by simp
  finally have left: "left < 125000000" by simp
  have exact: "dbl (of_int left) = of_int left" using dbl_int [of left] left assms(1) by simp
  define q where "q = (of_int left / 1000000000 :: rat)"
  have q: "0 \<le> q" "q \<le> 1" using assms(1) left by (simp_all add: q_def)
  have "\<bar>dbl q - q\<bar> \<le> 1 / 2 ^ 40" using q by (intro binary64.near) simp
  then have "dbl q \<le> q + 1 / 2 ^ 40" by linarith
  then have "dbl q * of_nat rate \<le> (q + 1 / 2 ^ 40) * of_nat rate"
    by (rule mult_right_mono) simp
  also have "\<dots> = q * of_nat rate + of_nat rate / 2 ^ 40" by (simp add: distrib_right)
  also have "\<dots> \<le> q * of_nat rate + 1 / 2" using assms(2) by simp
  finally have close: "dbl q * of_nat rate \<le> q * of_nat rate + 1 / 2" .
  have "of_int (left * int rate) < (of_int ((int n - 1) * 1000000000) :: rat)"
    using short by (simp only: of_int_less_iff)
  then have "q * of_nat rate < of_nat n - 1" by (simp add: q_def field_simps)
  with close have "dbl q * of_nat rate \<le> of_int (2 * int n - 1) / 2" by simp
  moreover have "dbl (of_int (2 * int n - 1) / 2) = of_int (2 * int n - 1) / 2"
    using assms(4) by (intro binary64.exact_half) simp
  ultimately have "dbl (dbl q * of_nat rate) \<le> of_int (2 * int n - 1) / 2"
    using binary64.upper by blast
  then show False using assms(5) by (simp add: exact q_def)
qed

lemma serialized_frames: "serialize p = Inr bytes \<Longrightarrow> unat (frameCount p) \<le> 574"
proof -
  assume "serialize p = Inr bytes"
  then have valid: "packet_valid p" by (simp add: serialize_Inr_iff)
  then have "2 * 1 * unat (frameCount p) \<le> 2 * unat (channelCount p) * unat (frameCount p)"
    by (intro mult_le_mono1 mult_le_mono2) (auto simp: packet_valid_def)
  then show ?thesis using valid unfolding packet_valid_def by linarith
qed

text \<open>
  C15. A command ends the audio on time: while an action is pending, every packet sent begins before
  the cutoff (the effective time, for a seek less the lead of the sender), its last frame begins no
  later than the cutoff, and once a packet would begin at the cutoff the stream ends instead.
\<close>

theorem command_cuts_stream:
  assumes "stream_begin c drawn file start rate channels first sender = Inr h0"
    "turns_ok is_ipv4 source ts h0" "length source < 18446744073709551616"
    "host_loop is_ipv4 ts h0 = (Inr h, before)"
    "roomSeen t = Some r" "pendingAction r = Some a" "turn_ok source t h"
    "host_step is_ipv4 t h = Inr (h', sent)"
  shows "(sent = [] \<longrightarrow> \<not> running h') \<and>
    (\<forall>x \<in> set sent. let cutoff = effectiveHostNanoseconds a -
          (if action a = Seek then sendAhead (config h) * 1000000 else 0);
        begins = int (unat (presentationTimestampNanoseconds (packet x))) in
      begins < cutoff \<and>
      (int (unat (frameCount (packet x))) - 1) * 1000000000 \<le>
        (cutoff - begins) * int (unat (sampleRate (packet x))))"
proof (cases "sent = []")
  case True
  have ok: "host_ok h"
    by (rule host_loop_ok [OF stream_begin_ok(1) [OF assms(1)] assms(2-4)])
  show ?thesis using host_step_ends(1) [OF ok assms(7)] assms(8) True by simp
next
  case False
  have ok: "host_ok h"
    by (rule host_loop_ok [OF stream_begin_ok(1) [OF assms(1)] assms(2-4)])
  obtain presentation k x where x: "sent = [x]"
    "packet x = host_packet h presentation (decodedSamples t)"
    "serialize (packet x) = Inr (wire x)" "0 \<le> presentation" "presentation \<le> int64_max"
    and k: "unat (frameCount (packet x)) = k" "0 < k"
    and r: "\<exists>r. requested_frames t presentation h = Inr (Some r) \<and> k \<le> unat r"
    by (rule host_step_sends [OF ok assms(7,3,8) False])
  obtain n where n: "requested_frames t presentation h = Inr (Some n)" "k \<le> unat n"
    using r by blast
  obtain ct where "command_cut a presentation h = Inr ct"
    "(case ct of Cut_Now \<Rightarrow> Inr None | Cut_After n \<Rightarrow> Inr (Some n)) = (Inr (Some n) :: exn + u64 option)"
    using n(1) assms(5,6) by (auto simp: requested_frames_def res_simps)
  then have cut: "command_cut a presentation h = Inr (Cut_After n)" by (cases ct) auto
  define cutoff where "cutoff = effectiveHostNanoseconds a -
      (if action a = Seek then sendAhead (config h) * 1000000 else 0)"
  define z where "z = dbl (dbl (dbl (of_int (cutoff - presentation)) / 1000000000) *
      of_nat (unat (stream_rate h)))"
  have small: "unat (framesPerPacket h) \<le> 1000" using host_okD(5) [OF ok] by linarith
  have "presentation < cutoff \<and> (k = 1 \<or> of_nat k \<le> z)"
  proof (rule conjI)
    show before: "presentation < cutoff"
      by (rule command_cut_cases [OF cut small]) (simp_all add: cutoff_def)
    have choice: "of_nat (unat n) \<le> z \<or> unat n = max 1 (nat \<lfloor>z\<rfloor>)"
      by (rule command_cut_cases [OF cut small]) (auto simp: cutoff_def z_def)
    show "k = 1 \<or> of_nat k \<le> z"
    proof (cases "of_nat (unat n) \<le> z")
      case True
      have "(of_nat k :: rat) \<le> of_nat (unat n)" using n(2) by (simp only: of_nat_le_iff)
      then show ?thesis using True by linarith
    next
      case False
      then have "k \<le> max 1 (nat \<lfloor>z\<rfloor>)" using choice n(2) by simp
      then have "k = 1 \<or> int k \<le> \<lfloor>z\<rfloor>" using k(2) by linarith
      then show ?thesis by (auto simp: le_floor_iff)
    qed
  qed
  moreover have "packet_valid (packet x)" using x(3) by (simp add: serialize_Inr_iff)
  then have rate: "8000 \<le> unat (stream_rate h)" "unat (stream_rate h) \<le> 192000"
    by (simp_all add: packet_valid_def x(2) host_packet_def)
  moreover have "k \<le> 1000" using k(1) x(3) serialized_frames [of "packet x"] by simp
  ultimately have "presentation < cutoff \<and>
      (int k - 1) * 1000000000 \<le> (cutoff - presentation) * int (unat (stream_rate h))"
    using frames_before_cutoff [of "cutoff - presentation" "unat (stream_rate h)" k]
    by (auto simp: z_def)
  moreover have "sampleRate (packet x) = stream_rate h"
    "int (unat (presentationTimestampNanoseconds (packet x))) = presentation"
    using unat_timestamp [OF x(4,5)] by (simp_all add: x(2) host_packet_def)
  ultimately show ?thesis using x(1) k(1) by (simp add: Let_def cutoff_def)
qed

definition example_snapshot :: RoomSnapshot where
  "example_snapshot = \<lparr>roomId = ''r'', roomName = ''Room'', hostDeviceId = ''host'', room_sessionId = 7,
     room_streamId = 1, playbackState = Playing,
     pendingAction = Some \<lparr>action = Pause, effectiveHostNanoseconds = 3020000000, seekFrame = 0,
       nextStreamId = 1\<rparr>, recentAction = None, members = []\<rparr>"

lemma example_command_cut:
  "command_cut \<lparr>action = Pause, effectiveHostNanoseconds = 3020000000, seekFrame = 0,
     nextStreamId = 1\<rparr> 1020000000 example_stream = Inr (Cut_After 80)"
proof -
  have "dbl 2000000000 = 2000000000" "dbl 2 = 2" "dbl 16000 = 16000" "dbl 80 = 80"
    using binary64.exact_int [of 2000000000] binary64.exact_int [of 2] binary64.exact_int [of 16000]
      binary64.exact_int [of 80] by simp_all
  then show ?thesis
    by (simp add: command_cut_def example_offset example_stream_begin(2) in_int64_def Let_def)
qed

lemma example_pending_step:
  "host_step (\<lambda>_. True) ((example_turn [1, 32767])\<lparr>roomSeen := Some example_snapshot\<rparr>) example_stream =
     Inr (example_after, [example_sent])"
  "turn_ok [1, 32767] ((example_turn [1, 32767])\<lparr>roomSeen := Some example_snapshot\<rparr>) example_stream"
proof -
  let ?t = "(example_turn [1, 32767])\<lparr>roomSeen := Some example_snapshot\<rparr>"
  have request: "requested_frames ?t 1020000000 example_stream = Inr (Some 80)"
    by (simp add: requested_frames_def example_snapshot_def example_command_cut)
  have sends: "host_send (\<lambda>_. True) ?t p h = host_send (\<lambda>_. True) (example_turn [1, 32767]) p h" for p h
  proof -
    have "deliver (\<lambda>_. True) bytes ?t h = deliver (\<lambda>_. True) bytes (example_turn [1, 32767]) h" for bytes
      by (simp add: deliver_def example_turn_def)
    moreover have "decodedSamples ?t = decodedSamples (example_turn [1, 32767])" by simp
    ultimately show ?thesis unfolding host_send_def by presburger
  qed
  have "requested_frames (example_turn [1, 32767]) 1020000000 example_stream = Inr (Some 80)"
    by (simp add: requested_frames_def example_turn_def example_stream_begin(2))
  then have "host_step (\<lambda>_. True) ?t example_stream = host_step (\<lambda>_. True) (example_turn [1, 32767]) example_stream"
    by (simp add: host_step_def example_offset example_stream_begin(3) example_times request sends
        cong del: if_weak_cong option.case_cong_weak)
  then show "host_step (\<lambda>_. True) ?t example_stream = Inr (example_after, [example_sent])"
    by (simp add: example_first_step)
  show "turn_ok [1, 32767] ?t example_stream"
    by (simp add: turn_ok_def example_offset example_stream_begin(3) example_times request)
      (simp add: example_turn_def)
qed

theorem command_cuts_stream_witness:
  "int (unat (presentationTimestampNanoseconds example_sent_packet)) < 3020000000 \<and>
   (int (unat (frameCount example_sent_packet)) - 1) * 1000000000 \<le>
     (3020000000 - int (unat (presentationTimestampNanoseconds example_sent_packet))) *
     int (unat (sampleRate example_sent_packet))"
proof -
  let ?t = "(example_turn [1, 32767])\<lparr>roomSeen := Some example_snapshot\<rparr>"
  have loop: "host_loop (\<lambda>_. True) [] example_stream = (Inr example_stream, [])" by simp
  have ok: "turns_ok (\<lambda>_. True) [1, 32767] [] example_stream" by simp
  have seen: "roomSeen ?t = Some example_snapshot" by simp
  have pending: "pendingAction example_snapshot = Some \<lparr>action = Pause,
      effectiveHostNanoseconds = 3020000000, seekFrame = 0, nextStreamId = 1\<rparr>"
    by (simp add: example_snapshot_def)
  from command_cuts_stream [OF example_stream_begin(1) ok _ loop seen pending example_pending_step(2,1)]
  show ?thesis by (simp add: example_sent_def Let_def)
qed

end
