(* ===== verification/Packet_Receiver.thy ===== *)
theory Packet_Receiver
  imports Udp_Audio Jitter_Buffer
begin

text \<open>
  The receiver thread of the client, class \<open>PacketReceiverWorker\<close> of
  \<open>desktop/src/DesktopAudioClient.cpp\<close>: it takes datagrams off the socket, drops what is no packet of
  its stream, keeps the loss statistics and pushes packets into the jitter buffer it shares with the
  audio callback. One turn of the loop is a function of what waits at the socket and the clock
  readings made; \<open>client_run\<close> interleaves turns with reads of the callback.
\<close>

section \<open>State\<close>

record DesktopAudioClientConfig =
  bindAddress :: string
  audioPort :: u16
  clockSyncPort :: u16
  expectedSessionId :: u64
  expectedStreamId :: u32
  playbackDelay :: int
  startupLead :: int
  outputLatencyAdjustment :: int

record PacketReceiverWorker =
  stopped :: bool
  knownSession :: "u64 option"
  knownStream :: "u32 option"
  highestSequence :: "u32 option"
  missingSequences :: "u32 set"
  packetsReceived :: u64
  packetsLost :: u64
  outOfOrderPackets :: u64
  lastPacketNanoseconds :: int
  failure :: "exn option"

definition worker_state :: "DesktopAudioClientConfig \<Rightarrow> PacketReceiverWorker" where
  "worker_state c =
     \<lparr>stopped = False,
      knownSession = (if expectedSessionId c = 0 then None else Some (expectedSessionId c)),
      knownStream = (if expectedStreamId c = 0 then None else Some (expectedStreamId c)),
      highestSequence = None, missingSequences = {}, packetsReceived = 0, packetsLost = 0,
      outOfOrderPackets = 0, lastPacketNanoseconds = 0, failure = None\<rparr>"

definition PacketReceiverWorker_new ::
    "(string \<Rightarrow> bool) \<Rightarrow> receiver_setup \<Rightarrow> DesktopAudioClientConfig \<Rightarrow> exn + PacketReceiverWorker" where
  "PacketReceiverWorker_new is_ipv4 setup c =
     and_then (UdpAudioReceiver_new is_ipv4 setup (bindAddress c) (audioPort c) 100)
       (\<lambda>_. Inr (worker_state c))"

definition rethrowIfFailed :: "PacketReceiverWorker \<Rightarrow> exn + unit" where
  "rethrowIfFailed w = (case failure w of Some e \<Rightarrow> Inl e | None \<Rightarrow> Inr ())"

section \<open>Sequence statistics\<close>

lemma unat_u32_succ: "(m :: u32) < n \<Longrightarrow> unat (m + 1) = unat m + 1"
  using unat_u32_less [of n] by (simp add: word_less_nat_alt unat_word_ariths(1))

function insert_missing :: "u32 \<Rightarrow> u32 \<Rightarrow> u32 set \<Rightarrow> u32 set" where
  "insert_missing missing seq known =
     (if missing < seq then insert_missing (missing + 1) seq (insert missing known) else known)"
  by auto
termination
  by (relation "measure (\<lambda>(missing, seq, _). unat seq - unat missing)")
    (auto simp: unat_u32_succ word_less_nat_alt)

declare insert_missing.simps [simp del]

definition updateSequenceStatistics :: "u32 \<Rightarrow> PacketReceiverWorker \<Rightarrow> PacketReceiverWorker" where
  "updateSequenceStatistics seq w =
     (case highestSequence w of
        None \<Rightarrow> w\<lparr>highestSequence := Some seq\<rparr>
      | Some highest \<Rightarrow>
          if seq > highest
          then let gap = ucast seq - ucast highest - 1 :: u64 in
            w\<lparr>packetsLost := packetsLost w + gap,
              missingSequences :=
                (if gap \<le> 100000 then insert_missing (highest + 1) seq (missingSequences w)
                 else missingSequences w),
              highestSequence := Some seq\<rparr>
          else
            let w = w\<lparr>outOfOrderPackets := outOfOrderPackets w + 1\<rparr> in
            if seq \<in> missingSequences w
            then w\<lparr>missingSequences := missingSequences w - {seq}, packetsLost := packetsLost w - 1\<rparr>
            else w)"

section \<open>One turn of the loop\<close>

text \<open>
  The first packet fixes the session and the stream unless the configuration names the session.
  Reading \<open>*streamId_\<close> of an empty optional is undefined.
\<close>

definition accept_stream :: "AudioPacket \<Rightarrow> PacketReceiverWorker \<Rightarrow> exn + PacketReceiverWorker \<times> bool" where
  "accept_stream p w =
     (let w' = (if knownSession w = None
                then w\<lparr>knownSession := Some (sessionId p), knownStream := Some (streamId p)\<rparr> else w) in
      if knownSession w \<noteq> None \<and> Some (sessionId p) \<noteq> knownSession w then Inr (w, False)
      else case knownStream w' of
        None \<Rightarrow> Inl Out_Of_Bounds
      | Some stream \<Rightarrow> Inr (w', streamId p = stream))"

text \<open>
  The arrival time \<open>push\<close> reads and the time stored afterwards. What \<open>push\<close> refuses by an exception
  of its own is dropped; any other exception ends the loop.
\<close>

definition receive_packet ::
    "AudioPacket \<Rightarrow> int \<Rightarrow> int \<Rightarrow> PacketReceiverWorker \<Rightarrow> JitterBuffer \<Rightarrow>
     (exn + unit) \<times> PacketReceiverWorker \<times> JitterBuffer" where
  "receive_packet p arrivalTime now w b =
     (case accept_stream p w of
        Inl e \<Rightarrow> (Inl e, w, b)
      | Inr (w, False) \<Rightarrow> (Inr (), w, b)
      | Inr (w, True) \<Rightarrow>
          (let w = updateSequenceStatistics (sequenceNumber p) w;
               (inserted, b) = push p arrivalTime b in
           case inserted of
             Inl (Invalid_Argument _) \<Rightarrow> (Inr (), w, b)
           | Inl e \<Rightarrow> (Inl e, w, b)
           | Inr False \<Rightarrow> (Inr (), w, b)
           | Inr True \<Rightarrow>
               (Inr (), w\<lparr>packetsReceived := packetsReceived w + 1, lastPacketNanoseconds := now\<rparr>, b)))"

definition receive_datagram ::
    "u8 list \<Rightarrow> int \<Rightarrow> int \<Rightarrow> PacketReceiverWorker \<Rightarrow> JitterBuffer \<Rightarrow>
     (exn + unit) \<times> PacketReceiverWorker \<times> JitterBuffer" where
  "receive_datagram bytes arrivalTime now w b =
     (case deserialize bytes of
        Inl (Invalid_Argument _) \<Rightarrow> (Inr (), w, b)
      | Inl e \<Rightarrow> (Inl e, w, b)
      | Inr p \<Rightarrow> receive_packet p arrivalTime now w b)"

text \<open>A turn of the loop with the \<open>catch (...)\<close> around it, which records the exception and stops.\<close>

definition receiver_turn ::
    "arrival \<Rightarrow> int \<Rightarrow> int \<Rightarrow> PacketReceiverWorker \<Rightarrow> JitterBuffer \<Rightarrow> PacketReceiverWorker \<times> JitterBuffer" where
  "receiver_turn a arrivalTime now w b =
     (if stopped w then (w, b)
      else case (case receive a of
             Inl e \<Rightarrow> (Inl e, w, b)
           | Inr None \<Rightarrow> (Inr (), w, b)
           | Inr (Some bytes) \<Rightarrow> receive_datagram bytes arrivalTime now w b) of
        (Inl e, w, b) \<Rightarrow> (w\<lparr>failure := Some e, stopped := True\<rparr>, b)
      | (Inr _, w, b) \<Rightarrow> (w, b))"

section \<open>The two threads on the jitter buffer\<close>

datatype client_event =
    Arrives arrival int int
  | Reads bool u64 nat bool

text \<open>The worker and the buffer after the events, and the samples each read put out.\<close>

fun client_run ::
    "client_event list \<Rightarrow> PacketReceiverWorker \<Rightarrow> JitterBuffer \<Rightarrow>
     PacketReceiverWorker \<times> JitterBuffer \<times> i16 list list" where
  "client_run [] w b = (w, b, [])"
| "client_run (Arrives a arrivalTime now # es) w b =
     (let (w, b) = receiver_turn a arrivalTime now w b in client_run es w b)"
| "client_run (Reads owns_lock start n lookahead # es) w b =
     (let (result, out, b) = readFrames owns_lock start (replicate n 0) lookahead b;
          (w, b, outs) = client_run es w b in
      (w, b, out # outs))"


section \<open>The statistics, declaratively\<close>

text \<open>The sequence numbers of the packets of its stream a receiver hears, given what it is tuned to.\<close>

fun heard :: "u64 option \<Rightarrow> u32 option \<Rightarrow> client_event list \<Rightarrow> u32 list" where
  "heard session stream [] = []"
| "heard session stream (Reads owns_lock start n lookahead # es) = heard session stream es"
| "heard session stream (Arrives a arrivalTime now # es) =
     (case a of
        Datagram bytes \<Rightarrow>
          (case deserialize bytes of
             Inl _ \<Rightarrow> heard session stream es
           | Inr p \<Rightarrow>
               if session = None
               then sequenceNumber p # heard (Some (sessionId p)) (Some (streamId p)) es
               else if session = Some (sessionId p) \<and> stream = Some (streamId p)
               then sequenceNumber p # heard session stream es
               else heard session stream es)
      | _ \<Rightarrow> heard session stream es)"

text \<open>No number jumps more than the 100000 missing numbers the receiver remembers.\<close>

definition gaps_ok :: "u32 list \<Rightarrow> bool" where
  "gaps_ok seqs \<longleftrightarrow>
     (\<forall>i < length seqs. 0 < i \<longrightarrow> (\<exists>j < i. unat (seqs ! i) \<le> unat (seqs ! j) + 100001))"

definition not_ascending :: "u32 list \<Rightarrow> nat set" where
  "not_ascending seqs = {i. i < length seqs \<and> (\<exists>j < i. seqs ! i \<le> seqs ! j)}"

definition statistics_of :: "u32 list \<Rightarrow> PacketReceiverWorker \<Rightarrow> bool" where
  "statistics_of seqs w \<longleftrightarrow>
     (if seqs = []
      then highestSequence w = None \<and> missingSequences w = {} \<and> packetsLost w = 0 \<and>
        outOfOrderPackets w = 0
      else highestSequence w = Some (Max (set seqs)) \<and>
        missingSequences w = {hd seqs..Max (set seqs)} - set seqs \<and>
        packetsLost w = of_nat (card (missingSequences w)) \<and>
        outOfOrderPackets w = of_nat (card (not_ascending seqs)))"

lemma insert_missing_eq: "insert_missing m n known = known \<union> {m..<n}"
proof (induction m n known rule: insert_missing.induct)
  case (1 m n known)
  show ?case
  proof (cases "m < n")
    case True
    have "insert m ({m + 1..<n}) = {m..<n}"
      using True unat_u32_succ [OF True]
      by (auto simp: word_less_nat_alt word_le_nat_alt unat_arith_simps(3))
    with 1 [OF True] True show ?thesis by (subst insert_missing.simps) auto
  next
    case False
    then show ?thesis by (subst insert_missing.simps) auto
  qed
qed

lemma card_word_interval: "card {m..<n :: u32} = unat n - unat m"
proof -
  have "unat ` {m..<n} = {unat m..<unat n}"
  proof (intro equalityI subsetI)
    fix k assume k: "k \<in> {unat m..<unat n}"
    then have "unat (word_of_nat k :: u32) = k"
      using unat_u32_less [of n] by (simp add: unsigned_of_nat take_bit_nat_eq_self_iff)
    with k show "k \<in> unat ` {m..<n}"
      by (intro image_eqI [of _ _ "word_of_nat k"]) (simp_all add: word_less_nat_alt word_le_nat_alt)
  qed (auto simp: word_less_nat_alt word_le_nat_alt)
  moreover have "card (unat ` {m..<n}) = card {m..<n}"
    by (rule card_image) (rule inj_onI, rule unsigned_word_eqI)
  ultimately show ?thesis by simp
qed

lemma not_ascending_snoc:
  assumes "xs \<noteq> []"
  shows "not_ascending (xs @ [x]) =
     not_ascending xs \<union> (if x \<le> Max (set xs) then {length xs} else {})"
proof -
  have ex: "x \<le> Max (set xs) \<longleftrightarrow> (\<exists>y \<in> set xs. x \<le> y)"
    using assms by (intro Max_ge_iff) simp_all
  have last: "(\<exists>j < length xs. x \<le> (xs @ [x]) ! j) \<longleftrightarrow> (\<exists>y \<in> set xs. x \<le> y)"
    by (simp add: nth_append cong: conj_cong) (metis in_set_conv_nth)
  have first: "(\<exists>j < i. (xs @ [x]) ! i \<le> (xs @ [x]) ! j) \<longleftrightarrow> (\<exists>j < i. xs ! i \<le> xs ! j)"
    if "i < length xs" for i
    using that by (simp add: nth_append cong: conj_cong)
  show ?thesis
    unfolding not_ascending_def ex last [symmetric]
    by (rule set_eqI) (simp add: less_Suc_eq, use first in auto)
qed

lemma finite_not_ascending [simp]: "finite (not_ascending xs)"
  by (simp add: not_ascending_def)

lemma not_ascending_less: "length xs \<notin> not_ascending xs"
  by (simp add: not_ascending_def)

lemma gaps_ok_snoc:
  assumes "gaps_ok (xs @ [x])" "xs \<noteq> []"
  shows "unat x \<le> unat (Max (set xs)) + 100001"
proof -
  obtain j where j: "j < length xs" "unat x \<le> unat (xs ! j) + 100001"
    using assms unfolding gaps_ok_def by (force simp: nth_append dest: spec [of _ "length xs"])
  have "xs ! j \<le> Max (set xs)" using j(1) by (intro Max_ge) simp_all
  then show ?thesis using j(2) by (simp add: word_le_nat_alt)
qed

lemma gaps_ok_prefix:
  assumes "gaps_ok (xs @ ys)"
  shows "gaps_ok xs"
  unfolding gaps_ok_def
proof (intro allI impI)
  fix i assume i: "i < length xs" "0 < i"
  then obtain j where "j < i" "unat ((xs @ ys) ! i) \<le> unat ((xs @ ys) ! j) + 100001"
    using assms unfolding gaps_ok_def by (auto dest: spec [of _ i])
  with i show "\<exists>j < i. unat (xs ! i) \<le> unat (xs ! j) + 100001"
    by (intro exI [of _ j]) (simp add: nth_append)
qed

lemma of_nat_small: "k \<le> 100000 \<Longrightarrow> (of_nat k :: u64) \<le> 100000"
  by (simp add: word_le_nat_alt unsigned_of_nat take_bit_nat_eq_self)

text \<open>One packet more.\<close>

lemma updateSequenceStatistics_known:
  assumes "statistics_of xs w" "xs \<noteq> []" "gaps_ok (xs @ [x])"
  shows "statistics_of (xs @ [x]) (updateSequenceStatistics x w)"
proof -
  define m where "m = Max (set xs)"
  define S where "S = {hd xs..m} - set xs"
  have w: "highestSequence w = Some m" "missingSequences w = S"
      "packetsLost w = of_nat (card S)" "outOfOrderPackets w = of_nat (card (not_ascending xs))"
    using assms(1,2) by (simp_all add: statistics_of_def m_def S_def)
  have hd_m: "hd xs \<le> m" using assms(2) by (simp add: m_def)
  have le_m: "y \<le> m" if "y \<in> set xs" for y using that by (simp add: m_def)
  have top: "Max (set (xs @ [x])) = max m x"
    using assms(2) by (simp add: m_def max.commute)
  have fin [simp]: "finite S" by (simp add: S_def)
  show ?thesis
  proof (cases "x > m")
    case True
    define gap where "gap = (ucast x - ucast m - 1 :: u64)"
    have less: "unat m < unat x" using True by (simp add: word_less_nat_alt)
    have gap: "gap = of_nat (unat x - unat m - 1)"
      using less unfolding gap_def by (simp add: of_nat_diff unsigned_ucast_eq)
    have small: "gap \<le> 100000"
    proof -
      have n: "unat x - unat m - 1 \<le> 100000"
        using gaps_ok_snoc [OF assms(3,2)] by (simp add: m_def)
      then show ?thesis unfolding gap by (rule of_nat_small)
    qed
    have missing: "insert_missing (m + 1) x S = {hd xs..x} - set (xs @ [x])"
    proof -
      have "S \<union> {m + 1..<x} = {hd xs..x} - insert x (set xs)"
        using True hd_m le_m unat_u32_succ [OF True]
        by (auto simp: S_def word_less_nat_alt word_le_nat_alt)
          (auto simp: word_less_nat_alt word_le_nat_alt dest!: le_m dest: unsigned_word_eqI)
      then show ?thesis by (simp add: insert_missing_eq)
    qed
    have "card (insert_missing (m + 1) x S) = card S + (unat x - unat m - 1)"
    proof -
      have "S \<inter> {m + 1..<x} = {}"
        using unat_u32_succ [OF True] by (auto simp: S_def word_le_nat_alt)
      then show ?thesis
        unfolding insert_missing_eq using unat_u32_succ [OF True]
        by (subst card_Un_disjoint) (simp_all add: card_word_interval)
    qed
    moreover have "updateSequenceStatistics x w = w\<lparr>packetsLost := packetsLost w + gap,
        missingSequences := insert_missing (m + 1) x S, highestSequence := Some x\<rparr>"
      using True small w by (simp add: updateSequenceStatistics_def Let_def gap_def)
    ultimately show ?thesis
      using True missing top assms(2) w gap not_ascending_snoc [OF assms(2), of x]
      by (auto simp: statistics_of_def m_def [symmetric] max_absorb2)
  next
    case False
    then have le: "x \<le> m" by simp
    have S': "{hd xs..m} - set (xs @ [x]) = S - {x}" by (auto simp: S_def)
    have c: "card (not_ascending (xs @ [x])) = card (not_ascending xs) + 1"
      using le not_ascending_snoc [OF assms(2), of x] not_ascending_less [of xs]
      by (simp add: m_def)
    have lost: "of_nat (card S) - 1 = (of_nat (card (S - {x})) :: u64)" if "x \<in> S"
      unfolding card.remove [OF fin that] by simp
    have "updateSequenceStatistics x w = w\<lparr>outOfOrderPackets := outOfOrderPackets w + 1,
        missingSequences := S - {x},
        packetsLost := (if x \<in> S then packetsLost w - 1 else packetsLost w)\<rparr>"
      using False w by (simp add: updateSequenceStatistics_def Let_def)
    then show ?thesis
      using assms(2) le w c S' lost top by (auto simp: statistics_of_def max_absorb1)
  qed
qed

lemma updateSequenceStatistics_first:
  "statistics_of [] w \<Longrightarrow> statistics_of [x] (updateSequenceStatistics x w)"
proof -
  have "not_ascending [x] = {}" by (auto simp: not_ascending_def)
  then show "statistics_of [] w \<Longrightarrow> statistics_of [x] (updateSequenceStatistics x w)"
    by (auto simp: statistics_of_def updateSequenceStatistics_def)
qed

lemma updateSequenceStatistics_exact:
  "statistics_of xs w \<Longrightarrow> gaps_ok (xs @ [x]) \<Longrightarrow>
    statistics_of (xs @ [x]) (updateSequenceStatistics x w)"
  using updateSequenceStatistics_known [of xs w x] updateSequenceStatistics_first [of w x]
  by (cases "xs = []") simp_all


section \<open>Runs\<close>

lemma statistics_of_received [simp]:
  "statistics_of xs (w\<lparr>packetsReceived := n, lastPacketNanoseconds := t\<rparr>) = statistics_of xs w"
  "statistics_of xs (w\<lparr>knownSession := s, knownStream := k\<rparr>) = statistics_of xs w"
  by (simp_all add: statistics_of_def)

lemma updateSequenceStatistics_fields [simp]:
  "stopped (updateSequenceStatistics x w) = stopped w"
  "failure (updateSequenceStatistics x w) = failure w"
  "knownSession (updateSequenceStatistics x w) = knownSession w"
  "knownStream (updateSequenceStatistics x w) = knownStream w"
  by (simp_all add: updateSequenceStatistics_def Let_def split: option.split)

lemma stopped_turn: "stopped w \<Longrightarrow> receiver_turn a t n w b = (w, b)"
  by (simp add: receiver_turn_def)

lemma stopped_run: "stopped w \<Longrightarrow> fst (client_run es w b) = w"
proof (induction es arbitrary: b)
  case (Cons e es)
  then show ?case by (cases e) (simp_all add: stopped_turn Let_def split_beta)
qed simp

text \<open>What a turn that does not fail makes of the statistics and of the stream listened to.\<close>

lemma receive_packet_heard:
  assumes "receive_packet p t n w b = (r, w', b')" "r = Inr ()" "statistics_of xs w"
    "gaps_ok (xs @ heard (knownSession w) (knownStream w) [Arrives (Datagram bytes) t n])"
    "deserialize bytes = Inr p"
  shows "statistics_of (xs @ heard (knownSession w) (knownStream w) [Arrives (Datagram bytes) t n]) w' \<and>
    heard (knownSession w) (knownStream w) (Arrives (Datagram bytes) t n # es) =
      heard (knownSession w) (knownStream w) [Arrives (Datagram bytes) t n] @
      heard (knownSession w') (knownStream w') es \<and> stopped w' = stopped w \<and> failure w' = failure w"
  using assms(1-4) updateSequenceStatistics_exact [of xs w "sequenceNumber p"]
    updateSequenceStatistics_exact [of xs
      "w\<lparr>knownSession := Some (sessionId p), knownStream := Some (streamId p)\<rparr>" "sequenceNumber p"]
  by (auto simp: receive_packet_def accept_stream_def assms(5) Let_def
      split: sum.splits bool.splits option.splits exn.splits if_splits prod.splits)


lemma receiver_turn_heard:
  assumes "receiver_turn a t n w b = (w', b')" "\<not> stopped w" "failure w' = None" "statistics_of xs w"
    "gaps_ok (xs @ heard (knownSession w) (knownStream w) [Arrives a t n])"
  shows "statistics_of (xs @ heard (knownSession w) (knownStream w) [Arrives a t n]) w' \<and>
    heard (knownSession w) (knownStream w) (Arrives a t n # es) =
      heard (knownSession w) (knownStream w) [Arrives a t n] @
      heard (knownSession w') (knownStream w') es \<and> \<not> stopped w'"
proof (cases a)
  case (Datagram bytes)
  have valid: "receive a = Inr (Some bytes)"
    using assms(1-3) by (auto simp: receiver_turn_def Datagram receive_datagram split: if_splits)
  show ?thesis
  proof (cases "deserialize bytes")
    case (Inl e)
    then obtain m where "e = Invalid_Argument m" using deserialize_errors [of bytes] by auto
    then have "w' = w"
      using assms(1,2) valid Inl by (simp add: receiver_turn_def receive_datagram_def)
    then show ?thesis using assms(2,4) Inl by (simp add: Datagram)
  next
    case (Inr p)
    have run: "receive_packet p t n w b = (Inr (), w', b')"
      using assms(1-3) valid Inr
      by (auto simp: receiver_turn_def receive_datagram_def split: sum.splits prod.splits)
    have "statistics_of (xs @ heard (knownSession w) (knownStream w) [Arrives (Datagram bytes) t n]) w' \<and>
      heard (knownSession w) (knownStream w) (Arrives (Datagram bytes) t n # es) =
        heard (knownSession w) (knownStream w) [Arrives (Datagram bytes) t n] @
        heard (knownSession w') (knownStream w') es \<and> stopped w' = stopped w \<and> failure w' = failure w"
      by (rule receive_packet_heard [OF run refl assms(4) _ Inr]) (use assms(5) Datagram in simp)
    then show ?thesis using assms(2) Datagram by blast
  qed
qed (use assms in \<open>auto simp: receiver_turn_def receive_def\<close>)

lemma heard_first:
  "\<exists>ys. heard s k (Arrives a t n # es) = heard s k [Arrives a t n] @ ys"
  by (cases a) (auto split: sum.split)

lemma receive_packet_flags:
  "receive_packet p t n w b = (r, w', b') \<Longrightarrow> stopped w' = stopped w \<and> failure w' = failure w"
  by (auto simp: receive_packet_def accept_stream_def Let_def
      split: sum.splits bool.splits option.splits exn.splits if_splits prod.splits)

lemma receive_datagram_flags:
  "receive_datagram bytes t n w b = (r, w', b') \<Longrightarrow> stopped w' = stopped w \<and> failure w' = failure w"
  by (auto simp: receive_datagram_def receive_packet_flags split: sum.splits exn.splits)

lemma receiver_turn_flags:
  "receiver_turn a t n w b = (w', b') \<Longrightarrow> \<not> stopped w \<Longrightarrow> failure w = None \<Longrightarrow>
    stopped w' \<longleftrightarrow> failure w' \<noteq> None"
  by (auto simp: receiver_turn_def dest: receive_datagram_flags split: sum.splits option.splits prod.splits)

lemma client_run_heard:
  assumes "client_run es w b = (w', b', outs)" "\<not> stopped w" "failure w = None" "failure w' = None"
    "statistics_of xs w" "gaps_ok (xs @ heard (knownSession w) (knownStream w) es)"
  shows "statistics_of (xs @ heard (knownSession w) (knownStream w) es) w'"
  using assms
proof (induction es arbitrary: w b xs outs)
  case (Cons e es)
  show ?case
  proof (cases e)
    case (Arrives a t n)
    obtain v c where turn: "receiver_turn a t n w b = (v, c)" by fastforce
    have later: "client_run es v c = (w', b', outs)" using Cons.prems(1) Arrives turn by simp
    have flags: "stopped v \<longleftrightarrow> failure v \<noteq> None"
      by (rule receiver_turn_flags [OF turn Cons.prems(2,3)])
    have v: "failure v = None"
    proof (rule ccontr)
      assume "failure v \<noteq> None"
      then show False using stopped_run [of v es c] later flags Cons.prems(4) by simp
    qed
    let ?h = "heard (knownSession w) (knownStream w) [Arrives a t n]"
    have split: "heard (knownSession w) (knownStream w) (e # es) =
        ?h @ heard (knownSession v) (knownStream v) es" and stats: "statistics_of (xs @ ?h) v"
      if "gaps_ok (xs @ ?h)"
      using receiver_turn_heard [OF turn Cons.prems(2) v Cons.prems(5) that, of es] Arrives by blast+
    have prefix: "gaps_ok (xs @ ?h)"
    proof -
      obtain ys where "heard (knownSession w) (knownStream w) (e # es) = ?h @ ys"
        using heard_first Arrives by blast
      then show ?thesis using Cons.prems(6) gaps_ok_prefix [of "xs @ ?h" ys] by simp
    qed
    have "statistics_of ((xs @ ?h) @ heard (knownSession v) (knownStream v) es) w'"
      by (rule Cons.IH [OF later _ v Cons.prems(4) stats [OF prefix]])
        (use flags v Cons.prems(6) split [OF prefix] in simp_all)
    then show ?thesis using split [OF prefix] by simp
  next
    case (Reads owns s n l)
    obtain r out c where "readFrames owns s (replicate n 0) l b = (r, out, c)" by (metis prod_cases3)
    moreover obtain w2 b2 outs2 where run: "client_run es w c = (w2, b2, outs2)" by (metis prod_cases3)
    ultimately have "(w2, b2) = (w', b')" using Cons.prems(1) Reads by simp
    then have "client_run es w c = (w', b', outs2)" using run by simp
    from Cons.IH [OF this Cons.prems(2-5)] show ?thesis using Cons.prems(6) Reads by simp
  qed
qed simp


section \<open>Theorems\<close>


definition example_client :: DesktopAudioClientConfig where
  "example_client = \<lparr>bindAddress = ''0.0.0.0'', audioPort = 40100, clockSyncPort = 40101,
     expectedSessionId = 7, expectedStreamId = 1, playbackDelay = 20, startupLead = 40,
     outputLatencyAdjustment = 0\<rparr>"


lemma push_throws_invalid:
  assumes "buffer_ok b" "time_ok t" "fst (push p t b) = Inl e"
  shows "\<exists>m. e = Invalid_Argument m"
proof (cases rule: push_cases [where p = p and b = b and arrival = t])
  case Emplaced
  from assms(1,2) this show ?thesis
    by (cases rule: push_emplaced_cases) (use assms(3) in simp_all)
qed (use assms(3) in \<open>auto simp: push_late push_format_changed\<close>)

text \<open>A stream is known whenever a session is; the configuration may break this.\<close>

definition tuned :: "PacketReceiverWorker \<Rightarrow> bool" where
  "tuned w \<longleftrightarrow> (knownSession w \<noteq> None \<longrightarrow> knownStream w \<noteq> None)"

lemma receive_packet_ok:
  assumes "tuned w" "buffer_ok b" "time_ok t" "receive_packet p t n w b = (r, v, c)"
  shows "r = Inr () \<and> tuned v \<and> buffer_ok c"
proof -
  have "buffer_ok (snd (push p t b))" by (rule push_ok [OF assms(2,3)])
  then show ?thesis
    using assms(1,2,4) push_throws_invalid [OF assms(2,3), of p]
    by (auto simp: receive_packet_def accept_stream_def tuned_def Let_def
        split: sum.splits bool.splits option.splits exn.splits if_splits prod.splits)
qed

lemma receiver_turn_ok:
  assumes "\<not> stopped w" "tuned w" "buffer_ok b" "time_ok t" "receiver_turn a t n w b = (v, c)"
  shows "tuned v \<and> buffer_ok c \<and>
    (case receive a of
       Inl e \<Rightarrow> v = w\<lparr>failure := Some e, stopped := True\<rparr>
     | Inr _ \<Rightarrow> \<not> stopped v \<and> failure v = failure w)"
proof (cases "receive a")
  case (Inl e)
  then show ?thesis using assms by (auto simp: receiver_turn_def tuned_def)
next
  case (Inr got)
  show ?thesis
  proof (cases got)
    case None
    then show ?thesis using assms Inr by (auto simp: receiver_turn_def)
  next
    case (Some bytes)
    show ?thesis
    proof (cases "deserialize bytes")
      case (Inl e)
      then obtain m where "e = Invalid_Argument m" using deserialize_errors [of bytes] by auto
      then show ?thesis
        using assms Some Inr Inl by (auto simp: receiver_turn_def receive_datagram_def)
    next
      case p: (Inr p)
      obtain r v' c' where run: "receive_packet p t n w b = (r, v', c')" by (metis prod_cases3)
      note ok = receive_packet_ok [OF assms(2-4) run]
      then have "(v, c) = (v', c')"
        using assms(1,5) Some Inr p run by (simp add: receiver_turn_def receive_datagram_def)
      then show ?thesis using ok receive_packet_flags [OF run] assms(1) Inr by simp
    qed
  qed
qed

lemma client_run_append:
  "client_run (xs @ ys) w b =
     (let (w, b, outs) = client_run xs w b; (w, b, outs') = client_run ys w b in (w, b, outs @ outs'))"
proof (induction xs arbitrary: w b)
  case (Cons x xs)
  then show ?case by (cases x) (simp_all add: split_beta Let_def)
qed (simp add: split_beta)

text \<open>The thread stops exactly when it fails.\<close>

lemma client_run_stopped:
  assumes "client_run es w b = (v, c, outs)" "stopped w \<longleftrightarrow> failure w \<noteq> None"
  shows "stopped v \<longleftrightarrow> failure v \<noteq> None"
  using assms
proof (induction es arbitrary: w b outs)
  case (Cons e es)
  show ?case
  proof (cases e)
    case (Arrives a t n)
    obtain v' c' where turn: "receiver_turn a t n w b = (v', c')" by fastforce
    then have "stopped v' \<longleftrightarrow> failure v' \<noteq> None"
      using Cons.prems(2) receiver_turn_flags [OF turn] by (cases "stopped w") (auto simp: stopped_turn)
    then show ?thesis using Cons.IH [of v' c' outs] Cons.prems(1) Arrives turn by simp
  next
    case (Reads owns s n l)
    obtain r out c1 where read: "readFrames owns s (replicate n 0) l b = (r, out, c1)" by (metis prod_cases3)
    obtain w2 b2 outs2 where run: "client_run es w c1 = (w2, b2, outs2)" by (metis prod_cases3)
    show ?thesis using Cons.IH [of w c1 outs2] Cons.prems Reads read run by simp
  qed
qed simp

text \<open>The error of the first arrival that is one.\<close>

fun first_error :: "client_event list \<Rightarrow> exn option" where
  "first_error [] = None"
| "first_error (Reads owns_lock start n lookahead # es) = first_error es"
| "first_error (Arrives a arrivalTime now # es) =
     (case receive a of Inl e \<Rightarrow> Some e | Inr _ \<Rightarrow> first_error es)"

fun event_ok :: "client_event \<Rightarrow> bool" where
  "event_ok (Arrives a arrivalTime now) = time_ok arrivalTime"
| "event_ok (Reads owns_lock start n lookahead) = (n < 18446744073709551616)"

lemma client_run_failure:
  assumes "client_run es w b = (w', b', outs)" "\<not> stopped w" "failure w = None" "tuned w"
    "buffer_ok b" "list_all event_ok es"
  shows "failure w' = first_error es"
  using assms
proof (induction es arbitrary: w b outs)
  case (Cons e es)
  show ?case
  proof (cases e)
    case (Arrives a t n)
    obtain v c where turn: "receiver_turn a t n w b = (v, c)" by fastforce
    have later: "client_run es v c = (w', b', outs)" using Cons.prems(1) Arrives turn by simp
    have "time_ok t" using Cons.prems(6) Arrives by simp
    note ok = receiver_turn_ok [OF Cons.prems(2,4,5) this turn]
    show ?thesis
    proof (cases "receive a")
      case (Inl x)
      then have "failure v = Some x" "stopped v" using ok by simp_all
      then show ?thesis using stopped_run [of v es c] later Arrives Inl by simp
    next
      case (Inr x)
      then have "\<not> stopped v" "failure v = None" "tuned v" "buffer_ok c" using ok Cons.prems(3) by simp_all
      from Cons.IH [OF later this] show ?thesis using Cons.prems(6) Arrives Inr by simp
    qed
  next
    case (Reads owns s n l)
    obtain r out c where read: "readFrames owns s (replicate n 0) l b = (r, out, c)" by (metis prod_cases3)
    obtain w2 b2 outs2 where run: "client_run es w c = (w2, b2, outs2)" by (metis prod_cases3)
    have "client_run es w c = (w', b', outs2)" using Cons.prems(1) Reads read run by simp
    moreover have "buffer_ok c"
      using read_state [of owns s "replicate n 0" l b] read Cons.prems(5)
      by (auto simp: buffer_ok_read_state)
    ultimately show ?thesis using Cons.IH [of w c outs2] Cons.prems Reads by simp
  qed
qed simp


lemma example_receive: "receive (Datagram example_datagram) = Inr (Some example_datagram)"
  by (simp add: receive_datagram example_datagram_def)

text \<open>A packet of the example stream with another sequence number, and its datagram.\<close>

definition numbered_packet :: "u32 \<Rightarrow> AudioPacket" where
  "numbered_packet s = example_packet\<lparr>sequenceNumber := s\<rparr>"

definition numbered_datagram :: "u32 \<Rightarrow> u8 list" where
  "numbered_datagram s = header (numbered_packet s) @ pcmPayload (numbered_packet s)"

lemma numbered_deserialize [simp]: "deserialize (numbered_datagram s) = Inr (numbered_packet s)"
proof -
  have "packet_valid (numbered_packet s)"
    using example_packet_valid by (simp add: packet_valid_def numbered_packet_def)
  then show ?thesis
    by (simp add: deserialize_serialized [OF serialize_valid] numbered_datagram_def)
qed

lemma numbered_receive [simp]:
  "receive (Datagram (numbered_datagram s)) = Inr (Some (numbered_datagram s))"
proof -
  have "length (pcmPayload (numbered_packet s)) \<le> 1148"
    using example_packet_valid by (simp add: packet_valid_def numbered_packet_def)
  then have "length (numbered_datagram s) \<le> 1200" "length (numbered_datagram s) \<noteq> 0"
    by (simp_all add: numbered_datagram_def)
  then show ?thesis by (auto simp: receive_datagram)
qed

lemma numbered_stream [simp]: "sequenceNumber (numbered_packet s) = s"
  "sessionId (numbered_packet s) = sessionId example_packet"
  "streamId (numbered_packet s) = streamId example_packet"
  by (simp_all add: numbered_packet_def)

definition arrivals :: "u32 list \<Rightarrow> client_event list" where
  "arrivals seqs = map (\<lambda>s. Arrives (Datagram (numbered_datagram s)) 5 6) seqs"

definition open_client :: DesktopAudioClientConfig where
  "open_client = example_client\<lparr>expectedSessionId := 0, expectedStreamId := 0\<rparr>"

lemma example_missing: "{3..6} - {3, 6, 4} = {5 :: u32}"
proof -
  have "x = 3 \<or> x = 4 \<or> x = 5 \<or> x = 6" if x: "3 \<le> x" "x \<le> 6" for x :: u32
  proof -
    have "unat x = unat (3 :: u32) \<or> unat x = unat (4 :: u32) \<or> unat x = unat (5 :: u32) \<or>
        unat x = unat (6 :: u32)"
      using x by (simp add: word_le_nat_alt) linarith
    then show ?thesis using unsigned_word_eqI by blast
  qed
  then show ?thesis by fastforce
qed



text \<open>
  C17. The receiver thread lives until the first bad arrival and no longer: as long as its buffer has
  the invariant and a configured session comes with a stream, it records exactly the error of the
  first arrival that is one, be it an error of the socket or a datagram of no byte or of more than
  1200, whoever sent it, and the rest of the run leaves the thread as it is; no packet makes it fail.
\<close>

theorem receiver_fails_on_first_error:
  assumes "buffer_reachable b" "expectedSessionId c \<noteq> 0 \<longrightarrow> expectedStreamId c \<noteq> 0"
    "list_all event_ok (before @ after)"
    "client_run (before @ after) (worker_state c) b = (w, b', outs)"
    "client_run before (worker_state c) b = (v, b'', outs')"
  shows "failure w = first_error (before @ after) \<and> (first_error before \<noteq> None \<longrightarrow> w = v)"
proof -
  have tuned: "tuned (worker_state c)" using assms(2) by (simp add: tuned_def worker_state_def)
  have fails: "failure x = first_error es"
    if "client_run es (worker_state c) b = (x, y, z)" "list_all event_ok es" for es x y z
    by (rule client_run_failure [OF that(1) _ _ tuned reachable_ok [OF assms(1)] that(2)])
      (simp_all add: worker_state_def)
  have "w = v" if "first_error before \<noteq> None"
  proof -
    have "failure v \<noteq> None" using fails [OF assms(5)] assms(3) that by simp
    then have "stopped v" using client_run_stopped [OF assms(5)] by (simp add: worker_state_def)
    then show ?thesis
      using stopped_run [of v after b''] assms(4,5) client_run_append [of before after "worker_state c" b]
      by (cases "client_run after v b''") simp
  qed
  then show ?thesis using fails [OF assms(4,3)] by simp
qed

theorem receiver_fails_on_first_error_witness:
  "\<exists>w b outs. client_run (arrivals [3] @ [Arrives (Datagram []) 5 6] @ arrivals [4])
      (worker_state open_client) JitterBuffer_new = (w, b, outs) \<and>
     failure w = Some (Runtime_Error ''Received UDP audio datagram has invalid size'')"
proof -
  let ?b = "arrivals [3] @ [Arrives (Datagram []) 5 6]" and ?w = "worker_state open_client"
  obtain w b outs where run: "client_run (?b @ arrivals [4]) ?w JitterBuffer_new = (w, b, outs)"
    by (metis prod_cases3)
  obtain v b2 outs2 where run2: "client_run ?b ?w JitterBuffer_new = (v, b2, outs2)"
    by (metis prod_cases3)
  have "failure w = first_error (?b @ arrivals [4])"
    using receiver_fails_on_first_error [OF buffer_reachable.new _ _ run run2]
    by (simp add: arrivals_def open_client_def time_ok_def)
  then show ?thesis using run by (simp add: arrivals_def receive_datagram)
qed

text \<open>Datagrams that are well-formed UDP payloads but no packets of the stream.\<close>

fun foreign :: "u64 \<Rightarrow> u32 \<Rightarrow> client_event \<Rightarrow> bool" where
  "foreign session stream (Arrives (Datagram bytes) arrivalTime now) \<longleftrightarrow>
     is_ok (receive (Datagram bytes)) \<and>
     (case deserialize bytes of
        Inl _ \<Rightarrow> True | Inr p \<Rightarrow> sessionId p \<noteq> session \<or> streamId p \<noteq> stream)"
| "foreign session stream _ \<longleftrightarrow> False"

lemma foreign_turn:
  assumes "foreign s k (Arrives a t n)" "knownSession w = Some s" "knownStream w = Some k"
  shows "receiver_turn a t n w b = (w, b)"
proof -
  obtain bytes where a: "a = Datagram bytes" using assms(1) by (cases a) simp_all
  then have r: "receive a = Inr (Some bytes)" using assms(1) by (simp add: receive_datagram split: if_splits)
  show ?thesis
  proof (cases "deserialize bytes")
    case (Inl e)
    then obtain m where "e = Invalid_Argument m" using deserialize_errors [of bytes] by auto
    then show ?thesis using Inl r by (simp add: receiver_turn_def receive_datagram_def)
  next
    case (Inr p)
    then show ?thesis using assms r a
      by (auto simp: receiver_turn_def receive_datagram_def receive_packet_def accept_stream_def Let_def)
  qed
qed

lemma receiver_turn_stream:
  assumes "receiver_turn a t n w b = (v, c)" "knownSession w = Some s" "knownStream w = Some k"
  shows "knownSession v = Some s \<and> knownStream v = Some k"
  using assms
  by (auto simp: receiver_turn_def receive_datagram_def receive_packet_def accept_stream_def Let_def
      split: sum.splits bool.splits option.splits exn.splits if_splits prod.splits)



end
