(* ===== verification/Stream_Player.thy ===== *)
theory Stream_Player
  imports Jitter_Buffer
begin

text \<open>
  The device side of the client, class \<open>ScheduledStreamPlayer\<close> of
  \<open>desktop/src/DesktopAudioClient.cpp\<close>: it waits for the scheduled time and then renders the jitter
  buffer at a rate close to one by linear interpolation between neighbouring frames, 256 output
  frames at a time. Doubles are rationals rounded after every operation; products and sums are
  rounded separately (no contraction to fused operations). The receiver thread may push packets
  between two accesses of the callback to the buffer: a chunk carries the packets pushed before
  its read and between the read and the query for the end of the stream.
\<close>

section \<open>State\<close>

record ScheduledStreamPlayer =
  playerChannels :: u16
  sourceFrame :: u64
  sourceFraction :: rat
  ratio :: rat
  sourceSamples :: "i16 list"
  outputRouteName :: string
  targetRatio :: rat
  actualRatio :: rat
  shownFrame :: u64
  outputRouteChanged :: bool
  startTime :: int
  configuredDelay :: int
  initialized :: bool
  scheduled :: bool
  started :: bool
  startLatenessNanoseconds :: int
  underrunFrames :: u64

text \<open>What setting up the device returns: an error, the name of the device if it has one.\<close>

record device_setup =
  initError :: "string option"
  deviceName :: "string option"

definition ScheduledStreamPlayer_new ::
    "JitterBufferFormat \<Rightarrow> int \<Rightarrow> device_setup \<Rightarrow> exn + ScheduledStreamPlayer" where
  "ScheduledStreamPlayer_new f delay setup =
     (case initError setup of
        Some e \<Rightarrow> Inl (Runtime_Error (''Unable to initialize client audio: '' @ e))
      | None \<Rightarrow>
          Inr \<lparr>playerChannels = format_channelCount f, sourceFrame = 0, sourceFraction = 0, ratio = 1,
            sourceSamples = replicate (260 * unat (format_channelCount f)) 0,
            outputRouteName = (case deviceName setup of Some n \<Rightarrow> n | None \<Rightarrow> ''Unknown output''),
            targetRatio = 1, actualRatio = 1, shownFrame = 0, outputRouteChanged = False,
            startTime = 0, configuredDelay = delay, initialized = True, scheduled = False,
            started = False, startLatenessNanoseconds = 0, underrunFrames = 0\<rparr>)"

definition schedule :: "u64 \<Rightarrow> int \<Rightarrow> ScheduledStreamPlayer \<Rightarrow> ScheduledStreamPlayer" where
  "schedule first time p =
     p\<lparr>shownFrame := first, sourceFrame := first, startTime := time, scheduled := True\<rparr>"

definition start_player :: "string option \<Rightarrow> ScheduledStreamPlayer \<Rightarrow> exn + unit" where
  "start_player deviceError p =
     (if \<not> scheduled p then Inl (Logic_Error ''Client audio device has not been scheduled'')
      else case deviceError of
        Some e \<Rightarrow> Inl (Runtime_Error (''Unable to start client audio: '' @ e))
      | None \<Rightarrow> Inr ())"

definition stop_stream :: "ScheduledStreamPlayer \<Rightarrow> ScheduledStreamPlayer" where
  "stop_stream p = (if initialized p then p\<lparr>initialized := False\<rparr> else p)"

definition estimatedPlaybackDelay :: "ScheduledStreamPlayer \<Rightarrow> exn + int" where
  "estimatedPlaybackDelay p =
     and_then (signed64 (configuredDelay p * 1000000)) (\<lambda>delay.
       signed64 (delay + startLatenessNanoseconds p))"

definition setCorrectionRatio :: "rat \<Rightarrow> ScheduledStreamPlayer \<Rightarrow> ScheduledStreamPlayer" where
  "setCorrectionRatio r p = p\<lparr>targetRatio := r\<rparr>"

definition rerouted :: "ScheduledStreamPlayer \<Rightarrow> ScheduledStreamPlayer" where
  "rerouted p = p\<lparr>outputRouteChanged := True\<rparr>"

section \<open>The callback\<close>

record chunk_env =
  ownsLock :: bool
  pushedBefore :: "(AudioPacket \<times> int) list"
  pushedDuring :: "(AudioPacket \<times> int) list"

definition push_all :: "(AudioPacket \<times> int) list \<Rightarrow> JitterBuffer \<Rightarrow> JitterBuffer" where
  "push_all ps b = foldl (\<lambda>b (p, arrivalTime). snd (push p arrivalTime b)) b ps"

definition source_position :: "rat \<Rightarrow> rat \<Rightarrow> nat \<Rightarrow> rat" where
  "source_position fraction r frame = dbl (fraction + dbl (of_nat frame * r))"

definition mix :: "rat \<Rightarrow> i16 \<Rightarrow> i16 \<Rightarrow> i16" where
  "mix fraction left right =
     word_of_int (llround (dbl (dbl (dbl (1 - fraction) * of_int (sint left)) +
       dbl (fraction * of_int (sint right)))))"

text \<open>One output frame, from the source samples the chunk has read.\<close>

definition render_frame :: "nat \<Rightarrow> i16 list \<Rightarrow> rat \<Rightarrow> rat \<Rightarrow> nat \<Rightarrow> exn + i16 list" where
  "render_frame channels samples fraction r frame =
     (let position = source_position fraction r frame;
          index = nat \<lfloor>position\<rfloor>;
          part = dbl (position - of_nat index) in
      if (index + 2) * channels \<le> length samples
      then Inr (map (\<lambda>channel. mix part (samples ! (index * channels + channel))
          (samples ! ((index + 1) * channels + channel))) [0..<channels])
      else Inl Out_Of_Bounds)"

fun render_frames :: "nat \<Rightarrow> i16 list \<Rightarrow> rat \<Rightarrow> rat \<Rightarrow> nat list \<Rightarrow> exn + i16 list" where
  "render_frames channels samples fraction r [] = Inr []"
| "render_frames channels samples fraction r (frame # frames) =
     and_then (render_frame channels samples fraction r frame) (\<lambda>out.
     and_then (render_frames channels samples fraction r frames) (\<lambda>outs. Inr (out @ outs)))"

definition source_frames :: "nat \<Rightarrow> ScheduledStreamPlayer \<Rightarrow> nat" where
  "source_frames chunkFrames p =
     nat \<lfloor>source_position (sourceFraction p) (ratio p) chunkFrames\<rfloor> + 2"

text \<open>The part of a chunk after its frames: underruns and the position of the next chunk.\<close>

definition count_underrun :: "nat \<Rightarrow> u32 \<Rightarrow> JitterBuffer \<Rightarrow> ScheduledStreamPlayer \<Rightarrow> ScheduledStreamPlayer" where
  "count_underrun sourceFrames copied b p =
     (let known = (if latestEndFrame b > sourceFrame p
                   then min (of_nat sourceFrames) (latestEndFrame b - sourceFrame p) else 0) in
      if ucast copied < known
      then p\<lparr>underrunFrames := underrunFrames p + (known - ucast copied)\<rparr> else p)"

definition advance :: "nat \<Rightarrow> ScheduledStreamPlayer \<Rightarrow> ScheduledStreamPlayer" where
  "advance chunkFrames p =
     (let position = source_position (sourceFraction p) (ratio p) chunkFrames;
          advanced = nat \<lfloor>position\<rfloor> in
      p\<lparr>sourceFrame := sourceFrame p + of_nat advanced,
        sourceFraction := dbl (position - of_nat advanced)\<rparr>)"

definition render_chunk ::
    "chunk_env \<Rightarrow> nat \<Rightarrow> ScheduledStreamPlayer \<Rightarrow> JitterBuffer \<Rightarrow>
     exn + i16 list \<times> ScheduledStreamPlayer \<times> JitterBuffer" where
  "render_chunk env chunkFrames p b =
     (let channels = unat (playerChannels p); sourceFrames = source_frames chunkFrames p;
          span = sourceFrames * channels in
      if span > length (sourceSamples p) then Inl Out_Of_Bounds
      else
        let (copied, out, b) = readFrames (ownsLock env) (sourceFrame p)
               (take span (sourceSamples p)) True (push_all (pushedBefore env) b);
            p = p\<lparr>sourceSamples := out @ drop span (sourceSamples p)\<rparr> in
        and_then copied (\<lambda>copied.
        and_then (render_frames channels (sourceSamples p) (sourceFraction p) (ratio p) [0..<chunkFrames])
          (\<lambda>rendered.
            let b = push_all (pushedDuring env) b in
            Inr (rendered, advance chunkFrames (count_underrun sourceFrames copied b p), b))))"

text \<open>The chunks of a callback; \<open>env k\<close> is what the \<open>k\<close>-th meets.\<close>

definition chunkLimit :: nat where
  "chunkLimit = 256"

function render_chunks ::
    "(nat \<Rightarrow> chunk_env) \<Rightarrow> nat \<Rightarrow> nat \<Rightarrow> ScheduledStreamPlayer \<Rightarrow> JitterBuffer \<Rightarrow>
     exn + i16 list \<times> ScheduledStreamPlayer \<times> JitterBuffer" where
  "render_chunks env k frames p b =
     (if frames = 0 then Inr ([], p, b)
      else
        and_then (render_chunk (env k) (min chunkLimit frames) p b) (\<lambda>(out, p, b).
        and_then (render_chunks env (k + 1) (frames - min chunkLimit frames) p b) (\<lambda>(outs, p, b).
          Inr (out @ outs, p, b))))"
  by auto
termination
  by (relation "measure (\<lambda>(env, k, frames, p, b). frames)") (auto simp: chunkLimit_def)

declare render_chunks.simps [simp del]

definition ratioStep :: rat where
  "ratioStep = dbl (2 / 100000)"

definition adjust_ratio :: "ScheduledStreamPlayer \<Rightarrow> ScheduledStreamPlayer" where
  "adjust_ratio p =
     (let r = dbl (ratio p + max (- ratioStep) (min ratioStep (dbl (targetRatio p - ratio p)))) in
      p\<lparr>ratio := r, actualRatio := r\<rparr>)"

definition dataCallback ::
    "(nat \<Rightarrow> chunk_env) \<Rightarrow> int \<Rightarrow> u32 \<Rightarrow> ScheduledStreamPlayer \<Rightarrow> JitterBuffer \<Rightarrow>
     exn + i16 list \<times> ScheduledStreamPlayer \<times> JitterBuffer" where
  "dataCallback env currentTime frames p b =
     (if \<not> started p \<and> currentTime < startTime p
      then Inr (replicate (unat frames * unat (playerChannels p)) 0, p, b)
      else
        and_then
          (if started p then Inr p
           else and_then (signed64 (currentTime - startTime p)) (\<lambda>late.
             Inr (p\<lparr>startLatenessNanoseconds := late, started := True\<rparr>)))
          (\<lambda>p.
        and_then (render_chunks env 0 (unat frames) (adjust_ratio p) b) (\<lambda>(out, p, b).
          Inr (out, p\<lparr>shownFrame := sourceFrame p\<rparr>, b))))"

section \<open>Invariant\<close>

text \<open>
  The ratio stays within 5/8192 of one, a little more than the 500 ppm of the corrector; its targets
  stay within 600 ppm.
\<close>

definition target_ok :: "rat \<Rightarrow> bool" where
  "target_ok t \<longleftrightarrow> 9994 / 10000 \<le> t \<and> t \<le> 10006 / 10000"

definition player_ok :: "ScheduledStreamPlayer \<Rightarrow> bool" where
  "player_ok p \<longleftrightarrow> length (sourceSamples p) = 260 * unat (playerChannels p) \<and>
     8187 / 8192 \<le> ratio p \<and> ratio p \<le> 8197 / 8192 \<and>
     0 \<le> sourceFraction p \<and> sourceFraction p \<le> 1 \<and> target_ok (targetRatio p)"

lemma player_okD:
  assumes "player_ok p"
  shows "length (sourceSamples p) = 260 * unat (playerChannels p)" "8187 / 8192 \<le> ratio p"
    "ratio p \<le> 8197 / 8192" "0 \<le> sourceFraction p" "sourceFraction p \<le> 1" "target_ok (targetRatio p)"
  using assms by (simp_all add: player_ok_def)

lemma player_ok_new:
  "ScheduledStreamPlayer_new f delay setup = Inr p \<Longrightarrow> player_ok p \<and> playerChannels p = format_channelCount f"
  by (auto simp: ScheduledStreamPlayer_new_def player_ok_def target_ok_def split: option.splits)

lemma grid_8192: "\<bar>m\<bar> \<le> 10000 \<Longrightarrow> dbl (of_int m / 8192) = of_int m / 8192"
  using binary64.exact_grid [of m 13] by simp

lemma adjust_ratio_ok:
  assumes "player_ok p"
  shows "player_ok (adjust_ratio p)"
proof -
  note ok = player_okD [OF assms]
  let ?d = "targetRatio p - ratio p"
  have "\<bar>dbl ?d - ?d\<bar> \<le> 1 / 2 ^ 40"
    by (rule binary64.near) (use ok in \<open>simp add: target_ok_def abs_if\<close>)
  then have near: "?d - 1 / 2 ^ 40 \<le> dbl ?d" "dbl ?d \<le> ?d + 1 / 2 ^ 40" by linarith+
  have step: "0 \<le> ratioStep" unfolding ratioStep_def by (rule binary64.nonneg) simp
  let ?r = "ratio p + max (- ratioStep) (min ratioStep (dbl ?d))"
  have "8187 / 8192 \<le> ?r"
    using ok near(1) step by (simp add: target_ok_def max_def min_def)
  moreover have "?r \<le> 8197 / 8192"
    using ok near(2) step by (simp add: target_ok_def max_def min_def)
  ultimately have "8187 / 8192 \<le> dbl ?r" "dbl ?r \<le> 8197 / 8192"
    using binary64.lower [of "8187 / 8192"] binary64.upper [of "8197 / 8192"]
      grid_8192 [of 8187] grid_8192 [of 8197] by simp_all
  then show ?thesis using ok by (simp add: adjust_ratio_def Let_def player_ok_def)
qed


section \<open>Positions\<close>

lemma grid_32: "\<bar>m\<bar> \<le> 10000 \<Longrightarrow> dbl (of_int m / 32) = of_int m / 32"
  using binary64.exact_grid [of m 5] by simp

lemma position_mono:
  assumes "k \<le> n" "0 \<le> r"
  shows "source_position f r k \<le> source_position f r n"
  unfolding source_position_def
  using assms by (intro binary64.mono add_left_mono mult_right_mono) simp_all

lemma position_nonneg: "0 \<le> f \<Longrightarrow> 0 \<le> r \<Longrightarrow> 0 \<le> source_position f r k"
  unfolding source_position_def by (intro binary64.nonneg add_nonneg_nonneg) simp_all

lemma position_upper:
  assumes "k \<le> 256" "0 \<le> r" "r \<le> 8197 / 8192" "f \<le> 1"
  shows "source_position f r k \<le> 8229 / 32"
proof -
  have "of_nat k * r \<le> 256 * (8197 / 8192)" using assms by (intro mult_mono) simp_all
  then have "dbl (of_nat k * r) \<le> 8197 / 32"
    using grid_32 [of 8197] by (intro binary64.upper) simp_all
  then have "f + dbl (of_nat k * r) \<le> 8229 / 32" using assms(4) by simp
  then show ?thesis
    unfolding source_position_def using grid_32 [of 8229] by (intro binary64.upper) simp_all
qed

lemma source_frames_le:
  assumes "player_ok p" "n \<le> 256"
  shows "source_frames n p \<le> 259"
proof -
  have "source_position (sourceFraction p) (ratio p) n \<le> 8229 / 32"
    using player_okD [OF assms(1)] by (intro position_upper [OF assms(2)]) simp_all
  then have "\<lfloor>source_position (sourceFraction p) (ratio p) n\<rfloor> \<le> 257" by linarith
  then show ?thesis unfolding source_frames_def by linarith
qed

text \<open>Every source frame an output frame looks at was read by its chunk.\<close>

lemma index_in_span:
  assumes "player_ok p" "k \<le> n"
  shows "nat \<lfloor>source_position (sourceFraction p) (ratio p) k\<rfloor> + 2 \<le> source_frames n p"
proof -
  have "source_position (sourceFraction p) (ratio p) k \<le> source_position (sourceFraction p) (ratio p) n"
    using player_okD [OF assms(1)] by (intro position_mono assms(2)) simp
  then show ?thesis unfolding source_frames_def by (simp add: floor_mono nat_mono)
qed

lemma part_range:
  assumes "0 \<le> x"
  shows "0 \<le> dbl (x - of_nat (nat \<lfloor>x\<rfloor>))" "dbl (x - of_nat (nat \<lfloor>x\<rfloor>)) \<le> 1"
proof -
  have "of_nat (nat \<lfloor>x\<rfloor>) = (of_int \<lfloor>x\<rfloor> :: rat)" using assms by simp
  then have "0 \<le> x - of_nat (nat \<lfloor>x\<rfloor>)" "x - of_nat (nat \<lfloor>x\<rfloor>) \<le> 1" by linarith+
  then show "0 \<le> dbl (x - of_nat (nat \<lfloor>x\<rfloor>))" "dbl (x - of_nat (nat \<lfloor>x\<rfloor>)) \<le> 1"
    using binary64.nonneg binary64.upper [of 1] binary64.exact_int [of 1] by simp_all
qed

section \<open>Chunks\<close>

lemma count_underrun_fields [simp]:
  "playerChannels (count_underrun s k b p) = playerChannels p"
  "sourceFrame (count_underrun s k b p) = sourceFrame p"
  "sourceFraction (count_underrun s k b p) = sourceFraction p"
  "ratio (count_underrun s k b p) = ratio p"
  "sourceSamples (count_underrun s k b p) = sourceSamples p"
  "targetRatio (count_underrun s k b p) = targetRatio p"
  "started (count_underrun s k b p) = started p"
  "startTime (count_underrun s k b p) = startTime p"
  by (simp_all add: count_underrun_def Let_def)

lemma count_underrun_ok [simp]: "player_ok (count_underrun s k b p) = player_ok p"
  by (simp add: player_ok_def)

lemma advance_ok:
  assumes "player_ok p"
  shows "player_ok (advance n p)"
proof -
  have "0 \<le> source_position (sourceFraction p) (ratio p) n"
    using player_okD [OF assms] by (intro position_nonneg) simp_all
  from part_range [OF this] assms show ?thesis by (simp add: player_ok_def advance_def Let_def)
qed

text \<open>One output frame as a value.\<close>

definition frame_value :: "nat \<Rightarrow> i16 list \<Rightarrow> rat \<Rightarrow> rat \<Rightarrow> nat \<Rightarrow> i16 list" where
  "frame_value channels samples fraction r frame =
     (let position = source_position fraction r frame; index = nat \<lfloor>position\<rfloor>;
          part = dbl (position - of_nat index) in
      map (\<lambda>channel. mix part (samples ! (index * channels + channel))
        (samples ! ((index + 1) * channels + channel))) [0..<channels])"

lemma length_frame_value [simp]: "length (frame_value c samples f r k) = c"
  by (simp add: frame_value_def Let_def)

lemma render_frames_value:
  assumes "\<And>k. k \<in> set ks \<Longrightarrow> (nat \<lfloor>source_position f r k\<rfloor> + 2) * c \<le> length samples"
  shows "render_frames c samples f r ks = Inr (concat (map (frame_value c samples f r) ks))"
  using assms
proof (induction ks)
  case (Cons k ks)
  have "render_frame c samples f r k = Inr (frame_value c samples f r k)"
    using Cons.prems [of k] by (simp add: render_frame_def frame_value_def Let_def)
  with Cons show ?case by simp
qed simp

lemma read_ok:
  assumes ok: "buffer_ok b" and f: "format b = Some f"
    and n: "length out = n * unat (format_channelCount f)" "n < 18446744073709551616"
  shows "\<exists>copied out' r. readFrames owns start out retain b =
      (Inr copied, out', b\<lparr>latestReadFrame := r\<rparr>) \<and> length out' = length out"
proof -
  obtain r where r: "snd (snd (readFrames owns start out retain b)) = b\<lparr>latestReadFrame := r\<rparr>"
    using read_state by blast
  have "\<exists>copied out' b'. readFrames owns start out retain b = (Inr copied, out', b') \<and>
      length out' = length out"
  proof (cases owns)
    case True
    show ?thesis
    proof (cases "unat start + n < 18446744073709551616")
      case True
      then show ?thesis using read_unwrapped [OF ok f refl n(1), of start retain] \<open>owns\<close> n(1) by auto
    next
      case False
      then show ?thesis
        using read_wrapped [OF ok f refl n, of start retain] \<open>owns\<close> n(1) by auto
    qed
  qed (simp add: readFrames_def Let_def)
  then show ?thesis using r by fastforce
qed

lemma push_keeps_format:
  assumes "buffer_ok b" "time_ok t" "format b = Some f"
  shows "format (snd (push p t b)) = Some f"
proof (cases rule: push_cases [where p = p and b = b and arrival = t])
  case Emplaced
  from assms(1,2) this show ?thesis
    by (cases rule: push_emplaced_cases) (use assms(3) Emplaced in \<open>simp_all add: drop_overflow_def\<close>)
qed (use assms(3) in \<open>simp_all add: push_late push_format_changed\<close>)

lemma push_all_ok:
  assumes "buffer_ok b" "\<forall>(p, t) \<in> set ps. time_ok t" "format b = Some f"
  shows "buffer_ok (push_all ps b) \<and> format (push_all ps b) = Some f"
  using assms
proof (induction ps arbitrary: b)
  case (Cons x ps)
  obtain p t where x: "x = (p, t)" by fastforce
  then show ?case
    using Cons.IH [of "snd (push p t b)"] push_ok [of b t p] push_keeps_format [of b t f p] Cons.prems
    by (simp add: push_all_def)
qed (simp add: push_all_def)


definition env_ok :: "chunk_env \<Rightarrow> bool" where
  "env_ok env \<longleftrightarrow> (\<forall>(p, t) \<in> set (pushedBefore env). time_ok t) \<and>
     (\<forall>(p, t) \<in> set (pushedDuring env). time_ok t)"

definition player_buffer_ok :: "ScheduledStreamPlayer \<Rightarrow> JitterBuffer \<Rightarrow> bool" where
  "player_buffer_ok p b \<longleftrightarrow> player_ok p \<and> buffer_ok b \<and>
     (\<exists>f. format b = Some f \<and> format_channelCount f = playerChannels p)"

text \<open>What a chunk does, in one equation.\<close>

lemma render_chunk_value:
  assumes "player_buffer_ok p b" "env_ok env" "n \<le> 256"
  obtains copied out b1 p1 where
    "readFrames (ownsLock env) (sourceFrame p)
       (take (source_frames n p * unat (playerChannels p)) (sourceSamples p)) True
       (push_all (pushedBefore env) b) = (Inr copied, out, b1)"
    "length out = source_frames n p * unat (playerChannels p)"
    "p1 = p\<lparr>sourceSamples := out @ drop (source_frames n p * unat (playerChannels p)) (sourceSamples p)\<rparr>"
    "render_chunk env n p b =
       Inr (concat (map (frame_value (unat (playerChannels p)) (sourceSamples p1) (sourceFraction p)
              (ratio p)) [0..<n]),
            advance n (count_underrun (source_frames n p) copied (push_all (pushedDuring env) b1) p1),
            push_all (pushedDuring env) b1)"
    "player_buffer_ok
       (advance n (count_underrun (source_frames n p) copied (push_all (pushedDuring env) b1) p1))
       (push_all (pushedDuring env) b1)"
proof -
  let ?c = "unat (playerChannels p)" and ?s = "source_frames n p"
  obtain f where f: "format b = Some f" "format_channelCount f = playerChannels p"
    and ok: "player_ok p" "buffer_ok b" using assms(1) by (auto simp: player_buffer_ok_def)
  note s = source_frames_le [OF ok(1) assms(3)]
  have span: "?s * ?c \<le> length (sourceSamples p)"
    unfolding player_okD(1) [OF ok(1)] by (intro mult_right_mono) (use s in simp_all)
  define b0 where "b0 = push_all (pushedBefore env) b"
  have b0: "buffer_ok b0" "format b0 = Some f"
    using push_all_ok [OF ok(2) _ f(1), of "pushedBefore env"] assms(2) by (simp_all add: env_ok_def b0_def)
  obtain copied out r where read: "readFrames (ownsLock env) (sourceFrame p)
      (take (?s * ?c) (sourceSamples p)) True b0 = (Inr copied, out, b0\<lparr>latestReadFrame := r\<rparr>)"
    "length out = ?s * ?c"
    using read_ok [OF b0, of "take (?s * ?c) (sourceSamples p)" ?s "ownsLock env" "sourceFrame p" True]
      span s f(2) by auto
  define b1 where "b1 = b0\<lparr>latestReadFrame := r\<rparr>"
  define p1 where "p1 = p\<lparr>sourceSamples := out @ drop (?s * ?c) (sourceSamples p)\<rparr>"
  define b2 where "b2 = push_all (pushedDuring env) b1"
  have b1: "buffer_ok b1" "format b1 = Some f" using b0 by (simp_all add: b1_def buffer_ok_read_state)
  have b2: "buffer_ok b2" "format b2 = Some f"
    using push_all_ok [OF b1(1) _ b1(2), of "pushedDuring env"] assms(2) by (simp_all add: env_ok_def b2_def)
  have len: "length (sourceSamples p1) = length (sourceSamples p)"
    using read(2) span by (simp add: p1_def)
  have p1: "player_ok p1" using ok(1) len by (simp add: player_ok_def) (simp add: p1_def)
  have frames: "render_frames ?c (sourceSamples p1) (sourceFraction p) (ratio p) [0..<n] =
      Inr (concat (map (frame_value ?c (sourceSamples p1) (sourceFraction p) (ratio p)) [0..<n]))"
  proof (rule render_frames_value)
    fix k assume "k \<in> set [0..<n]"
    then have "(nat \<lfloor>source_position (sourceFraction p) (ratio p) k\<rfloor> + 2) * ?c \<le> ?s * ?c"
      using index_in_span [OF ok(1), of k n] by (intro mult_right_mono) simp_all
    then show "(nat \<lfloor>source_position (sourceFraction p) (ratio p) k\<rfloor> + 2) * ?c \<le> length (sourceSamples p1)"
      using span len by simp
  qed
  have chunk: "render_chunk env n p b =
      Inr (concat (map (frame_value ?c (sourceSamples p1) (sourceFraction p) (ratio p)) [0..<n]),
        advance n (count_underrun ?s copied b2 p1), b2)"
    using span read(1) frames
    by (simp add: render_chunk_def Let_def b0_def [symmetric] b1_def [symmetric] b2_def [symmetric]
        p1_def [symmetric] not_less) (simp add: p1_def b2_def Let_def)
  have after: "player_buffer_ok (advance n (count_underrun ?s copied b2 p1)) b2"
    using b2 f(2) advance_ok [of "count_underrun ?s copied b2 p1" n] p1
    by (simp add: player_buffer_ok_def advance_def Let_def) (simp add: p1_def)
  show thesis
    by (rule that [of copied out b1 p1])
      (use read chunk after in \<open>simp_all add: b0_def [symmetric] b1_def [symmetric] b2_def p1_def\<close>)
qed


lemma length_concat_frames:
  "length (concat (map (frame_value c samples f r) ks)) = length ks * c"
  by (induction ks) simp_all

lemma render_chunks_ok:
  assumes "player_buffer_ok p b" "\<forall>k. env_ok (env k)"
  shows "\<exists>out p' b'. render_chunks env k n p b = Inr (out, p', b') \<and>
    length out = n * unat (playerChannels p) \<and> player_buffer_ok p' b' \<and>
    playerChannels p' = playerChannels p \<and> startTime p' = startTime p"
  using assms
proof (induction n arbitrary: k p b rule: less_induct)
  case (less n)
  show ?case
  proof (cases "n = 0")
    case True
    then show ?thesis using less.prems by (simp add: render_chunks.simps)
  next
    case False
    let ?m = "min chunkLimit n"
    have m: "?m \<le> 256" "n - ?m < n" "?m \<le> n" using False by (simp_all add: chunkLimit_def)
    obtain copied rd b1 p1 where chunk:
      "p1 = p\<lparr>sourceSamples := rd @ drop (source_frames ?m p * unat (playerChannels p)) (sourceSamples p)\<rparr>"
      "render_chunk (env k) ?m p b =
       Inr (concat (map (frame_value (unat (playerChannels p)) (sourceSamples p1) (sourceFraction p)
              (ratio p)) [0..<?m]),
            advance ?m (count_underrun (source_frames ?m p) copied (push_all (pushedDuring (env k)) b1) p1),
            push_all (pushedDuring (env k)) b1)"
      "player_buffer_ok
         (advance ?m (count_underrun (source_frames ?m p) copied (push_all (pushedDuring (env k)) b1) p1))
         (push_all (pushedDuring (env k)) b1)"
      by (rule render_chunk_value [OF less.prems(1) less.prems(2) [rule_format, of k] m(1)]) blast
    let ?p = "advance ?m (count_underrun (source_frames ?m p) copied (push_all (pushedDuring (env k)) b1) p1)"
    have channels: "playerChannels ?p = playerChannels p" "startTime ?p = startTime p"
      by (simp_all add: advance_def Let_def chunk(1))
    obtain out p' b' where rest: "render_chunks env (k + 1) (n - ?m) ?p (push_all (pushedDuring (env k)) b1) =
        Inr (out, p', b')" "length out = (n - ?m) * unat (playerChannels p)"
      "player_buffer_ok p' b'" "playerChannels p' = playerChannels p" "startTime p' = startTime p"
      using less.IH [OF m(2) chunk(3) less.prems(2), of "k + 1"] channels by auto
    have "?m * unat (playerChannels p) + (n - ?m) * unat (playerChannels p) = n * unat (playerChannels p)"
      using m(3) by (simp add: add_mult_distrib [symmetric])
    then show ?thesis
      using False chunk(2) rest by (subst render_chunks.simps) (simp add: length_concat_frames)
  qed
qed

section \<open>Reachable players\<close>

text \<open>
  A player created for the format of the buffer, under any sequence of the operations of the main
  thread, reroutings, packets of the receiver and callbacks.
\<close>

inductive player_reachable :: "ScheduledStreamPlayer \<Rightarrow> JitterBuffer \<Rightarrow> bool" where
  created: "buffer_reachable b \<Longrightarrow> format b = Some f \<Longrightarrow> ScheduledStreamPlayer_new f delay setup = Inr p \<Longrightarrow>
    player_reachable p b"
| scheduled: "player_reachable p b \<Longrightarrow> time_ok time \<Longrightarrow> player_reachable (schedule first time p) b"
| set_ratio: "player_reachable p b \<Longrightarrow> target_ok r \<Longrightarrow> player_reachable (setCorrectionRatio r p) b"
| rerouted: "player_reachable p b \<Longrightarrow> player_reachable (rerouted p) b"
| received: "player_reachable p b \<Longrightarrow> time_ok t \<Longrightarrow> player_reachable p (snd (push packet t b))"
| called: "player_reachable p b \<Longrightarrow> time_ok t \<Longrightarrow> \<forall>k. env_ok (env k) \<Longrightarrow>
    dataCallback env t frames p b = Inr (out, p', b') \<Longrightarrow> player_reachable p' b'"


lemma dataCallback_ok:
  assumes "player_buffer_ok p b" "time_ok (startTime p)" "time_ok t" "\<forall>k. env_ok (env k)"
  shows "\<exists>out p' b'. dataCallback env t frames p b = Inr (out, p', b') \<and>
    length out = unat frames * unat (playerChannels p) \<and> player_buffer_ok p' b' \<and>
    playerChannels p' = playerChannels p \<and> startTime p' = startTime p"
proof (cases "\<not> started p \<and> t < startTime p")
  case True
  then show ?thesis using assms(1) by (simp add: dataCallback_def)
next
  case False
  obtain q where q: "(if started p then Inr p
      else and_then (signed64 (t - startTime p)) (\<lambda>late.
        Inr (p\<lparr>startLatenessNanoseconds := late, started := True\<rparr>))) = Inr q"
    "player_buffer_ok q b" "playerChannels q = playerChannels p" "startTime q = startTime p"
  proof (rule that [of "if started p then p
        else p\<lparr>startLatenessNanoseconds := t - startTime p, started := True\<rparr>"])
  qed (use assms(1) time_ok_diff [OF assms(3,2)] in \<open>auto simp: player_buffer_ok_def player_ok_def\<close>)
  have "player_buffer_ok (adjust_ratio q) b"
    using q(2) adjust_ratio_ok [of q] by (simp add: player_buffer_ok_def adjust_ratio_def Let_def)
  from render_chunks_ok [OF this assms(4), of 0 "unat frames"]
  obtain out p' b' where r: "render_chunks env 0 (unat frames) (adjust_ratio q) b = Inr (out, p', b')"
    "length out = unat frames * unat (playerChannels p)" "player_buffer_ok p' b'"
    "playerChannels p' = playerChannels p" "startTime p' = startTime p"
    using q by (auto simp: adjust_ratio_def Let_def)
  have "dataCallback env t frames p b = Inr (out, p'\<lparr>shownFrame := sourceFrame p'\<rparr>, b')"
    unfolding dataCallback_def if_not_P [OF False] q(1) and_then_simps r(1) by simp
  then show ?thesis using r by (simp add: player_buffer_ok_def player_ok_def)
qed

lemma player_reachable_ok: "player_reachable p b \<Longrightarrow> player_buffer_ok p b \<and> time_ok (startTime p)"
proof (induction rule: player_reachable.induct)
  case (created b f delay dev p)
  then show ?case
    using player_ok_new [OF created(3)] reachable_ok [OF created(1)]
    by (auto simp: player_buffer_ok_def ScheduledStreamPlayer_new_def time_ok_def split: option.splits)
next
  case (called p b t env frames out p' b')
  then show ?case using dataCallback_ok [of p b t env frames] by auto
next
  case (received p b t packet)
  then show ?case
    using push_ok [of b t packet] push_keeps_format [of b t _ packet] by (auto simp: player_buffer_ok_def)
qed (simp_all add: player_buffer_ok_def player_ok_def schedule_def setCorrectionRatio_def rerouted_def)

section \<open>Interpolation\<close>

lemma llround_ge: "of_int m - 1 / 4 \<le> z \<Longrightarrow> m \<le> llround z"
  unfolding llround_def by (cases "0 \<le> z") (simp_all, linarith+)

lemma llround_le: "z \<le> of_int m + 1 / 4 \<Longrightarrow> llround z \<le> m"
  unfolding llround_def by (cases "0 \<le> z") (simp_all, linarith+)

lemma convex_between:
  fixes part l r :: rat
  assumes "0 \<le> part" "part \<le> 1"
  shows "min l r \<le> (1 - part) * l + part * r" "(1 - part) * l + part * r \<le> max l r"
proof -
  have eq: "(1 - part) * l + part * r = l + part * (r - l)" by (simp add: algebra_simps)
  have up: "0 \<le> part * (r - l) \<and> part * (r - l) \<le> r - l" if "l \<le> r"
    using that assms by (simp add: mult_left_le_one_le)
  have down: "0 \<le> part * (l - r) \<and> part * (l - r) \<le> l - r" if "r \<le> l"
    using that assms by (simp add: mult_left_le_one_le)
  have "part * (l - r) = - (part * (r - l))" by (simp add: algebra_simps)
  then have "min l r \<le> l + part * (r - l) \<and> l + part * (r - l) \<le> max l r"
    using up down by (cases "l \<le> r") (simp_all add: min_def max_def)
  then show "min l r \<le> (1 - part) * l + part * r" "(1 - part) * l + part * r \<le> max l r"
    unfolding eq by blast+
qed

lemma sint_i16_bounds: "- 32768 \<le> sint (w :: i16)" "sint (w :: i16) \<le> 32767"
  using sint_greater_eq [of w] sint_less [of w] by simp_all

lemma sint_i16_of_int: "- 32768 \<le> i \<Longrightarrow> i \<le> 32767 \<Longrightarrow> sint (word_of_int i :: i16) = i"
  by (simp add: signed_of_int signed_take_bit_int_eq_self)


lemma abs_sint_i16: "\<bar>of_int (sint (w :: i16))\<bar> \<le> (32768 :: rat)"
proof -
  have "\<bar>sint w\<bar> \<le> 32768" using sint_i16_bounds [of w] unfolding abs_le_iff by linarith
  then have "(of_int \<bar>sint w\<bar> :: rat) \<le> of_int 32768" unfolding of_int_le_iff .
  then show ?thesis by (simp only: of_int_abs of_int_numeral)
qed

lemma mix_rounding:
  fixes L R :: rat
  assumes part: "0 \<le> part" "part \<le> 1" and L: "\<bar>L\<bar> \<le> 32768" and R: "\<bar>R\<bar> \<le> 32768"
  shows "\<bar>dbl (dbl (dbl (1 - part) * L) + dbl (part * R)) - ((1 - part) * L + part * R)\<bar> \<le> 1 / 4"
proof -
  define a where "a = dbl (1 - part)"
  define x where "x = dbl (a * L)"
  define y where "y = dbl (part * R)"
  have prod: "\<bar>c * w\<bar> \<le> 32768" if "0 \<le> c" "c \<le> 1" "\<bar>w\<bar> \<le> 32768" for c w :: rat
    using mult_mono [OF that(2,3)] that(1) by (simp add: abs_mult)
  have a: "0 \<le> a" "a \<le> 1"
    unfolding a_def
    using part binary64.nonneg [of "1 - part"] binary64.upper [of 1 "1 - part"] binary64.exact_int [of 1]
    by simp_all
  have a_near: "\<bar>a - (1 - part)\<bar> \<le> 1 / 1073741824"
    unfolding a_def using binary64.near [of "1 - part" 30] part by simp
  have x: "\<bar>x - a * L\<bar> \<le> 1 / 1024"
    unfolding x_def using binary64.near [of "a * L" 10] prod [OF a L] by simp
  have y: "\<bar>y - part * R\<bar> \<le> 1 / 1024"
    unfolding y_def using binary64.near [of "part * R" 10] prod [OF part R] by simp
  have "\<bar>x + y\<bar> \<le> 65538" using x y prod [OF a L] prod [OF part R] by linarith
  then have z: "\<bar>dbl (x + y) - (x + y)\<bar> \<le> 1 / 1024"
    using binary64.near [of "x + y" 10] by simp
  have "\<bar>a - (1 - part)\<bar> * \<bar>L\<bar> \<le> 1 / 1073741824 * 32768"
    by (rule mult_mono [OF a_near L]) simp_all
  then have "\<bar>(a - (1 - part)) * L\<bar> \<le> 1 / 32768" by (simp add: abs_mult)
  then have l: "\<bar>a * L - (1 - part) * L\<bar> \<le> 1 / 32768" by (simp only: left_diff_distrib)
  show ?thesis
    unfolding a_def [symmetric] x_def [symmetric] y_def [symmetric] using x y z l by linarith
qed

lemma mix_between:
  assumes "0 \<le> part" "part \<le> 1"
  shows "min (sint l) (sint r) \<le> sint (mix part l r)" "sint (mix part l r) \<le> max (sint l) (sint r)"
proof -
  define L R where "L = (of_int (sint l) :: rat)" and "R = (of_int (sint r) :: rat)"
  define z where "z = dbl (dbl (dbl (1 - part) * L) + dbl (part * R))"
  have close: "\<bar>z - ((1 - part) * L + part * R)\<bar> \<le> 1 / 4"
    unfolding z_def
    by (rule mix_rounding [OF assms]) (use abs_sint_i16 [of l] abs_sint_i16 [of r] in \<open>unfold L_def R_def\<close>)
  note conv = convex_between [OF assms, of L R]
  have lo: "min (sint l) (sint r) \<le> llround z"
  proof (rule llround_ge)
    have "of_int (min (sint l) (sint r)) = min L R" unfolding L_def R_def by (simp only: of_int_min)
    then show "of_int (min (sint l) (sint r)) - 1 / 4 \<le> z" using close conv(1) by linarith
  qed
  have hi: "llround z \<le> max (sint l) (sint r)"
  proof (rule llround_le)
    have "of_int (max (sint l) (sint r)) = max L R" unfolding L_def R_def by (simp only: of_int_max)
    then show "z \<le> of_int (max (sint l) (sint r)) + 1 / 4" using close conv(2) by linarith
  qed
  have "sint (mix part l r) = llround z"
    unfolding mix_def L_def [symmetric] R_def [symmetric] z_def [symmetric]
    by (rule sint_i16_of_int)
      (use lo hi sint_i16_bounds [of l] sint_i16_bounds [of r] in linarith)+
  with lo hi show "min (sint l) (sint r) \<le> sint (mix part l r)"
    "sint (mix part l r) \<le> max (sint l) (sint r)" by simp_all
qed

lemma mix_unity: "mix 0 l r = l"
proof -
  have "dbl (of_int (sint l)) = of_int (sint l)"
    by (rule binary64.exact_int) (use sint_i16_bounds [of l] in \<open>simp add: abs_le_iff\<close>)
  moreover have "dbl 1 = 1" using binary64.exact_int [of 1] by simp
  moreover have "llround (of_int (sint l)) = sint l" by (rule llround_of_int)
  ultimately show ?thesis by (simp add: mix_def binary64.zero)
qed

lemma position_unity: "k \<le> 1000 \<Longrightarrow> source_position 0 1 k = of_nat k"
  using binary64.exact_int [of "int k"] by (simp add: source_position_def)


lemma nth_concat_frames:
  assumes "k < length ks" "ch < c"
  shows "concat (map (frame_value c samples f r) ks) ! (k * c + ch) =
    frame_value c samples f r (ks ! k) ! ch"
  using assms
proof (induction ks arbitrary: k)
  case (Cons x ks)
  show ?case
  proof (cases k)
    case 0
    then show ?thesis using Cons.prems(2) by (simp add: nth_append)
  next
    case (Suc m)
    then have "concat (map (frame_value c samples f r) (x # ks)) ! (k * c + ch) =
        concat (map (frame_value c samples f r) ks) ! (m * c + ch)"
      by (simp add: nth_append add.assoc)
    then show ?thesis using Cons.IH [of m] Cons.prems Suc by simp
  qed
qed simp

text \<open>A sample of a chunk is the mixture of two buffered samples.\<close>

definition buffer_sample :: "JitterBuffer \<Rightarrow> nat \<Rightarrow> nat \<Rightarrow> nat \<Rightarrow> i16" where
  "buffer_sample b channels frame channel = overlay channels (packets b) frame channel 0"

lemma chunk_sample:
  assumes ok: "player_buffer_ok p b" "env_ok env" "n \<le> 256" and lock: "ownsLock env"
    and room: "unat (sourceFrame p) + 260 < 18446744073709551616"
    and i: "k < n" "ch < unat (playerChannels p)"
    and chunk: "render_chunk env n p b = Inr (out, p', b')"
  defines "x \<equiv> source_position (sourceFraction p) (ratio p) k"
    and "s \<equiv> \<lambda>j. buffer_sample (push_all (pushedBefore env) b) (unat (playerChannels p))
      (unat (sourceFrame p) + j) ch"
  shows "out ! (k * unat (playerChannels p) + ch) =
    mix (dbl (x - of_nat (nat \<lfloor>x\<rfloor>))) (s (nat \<lfloor>x\<rfloor>)) (s (nat \<lfloor>x\<rfloor> + 1))"
proof -
  let ?c = "unat (playerChannels p)" and ?m = "source_frames n p"
  let ?b = "push_all (pushedBefore env) b"
  obtain copied rd b1 p1 where v:
    "readFrames (ownsLock env) (sourceFrame p) (take (?m * ?c) (sourceSamples p)) True ?b = (Inr copied, rd, b1)"
    "length rd = ?m * ?c" "p1 = p\<lparr>sourceSamples := rd @ drop (?m * ?c) (sourceSamples p)\<rparr>"
    "render_chunk env n p b =
       Inr (concat (map (frame_value ?c (sourceSamples p1) (sourceFraction p) (ratio p)) [0..<n]),
            advance n (count_underrun ?m copied (push_all (pushedDuring env) b1) p1),
            push_all (pushedDuring env) b1)"
    by (rule render_chunk_value [OF ok]) blast
  obtain f where f: "format b = Some f" "format_channelCount f = playerChannels p"
    and p: "player_ok p" and b: "buffer_ok b" using ok(1) by (auto simp: player_buffer_ok_def)
  have b0: "buffer_ok ?b" "format ?b = Some f"
    using push_all_ok [OF b _ f(1), of "pushedBefore env"] ok(2) by (simp_all add: env_ok_def)
  have m: "?m \<le> 259" by (rule source_frames_le [OF p ok(3)])
  have span: "?m * ?c \<le> length (sourceSamples p)"
    unfolding player_okD(1) [OF p] by (intro mult_right_mono) (use m in simp_all)
  have len: "length (take (?m * ?c) (sourceSamples p)) = ?m * ?c" using span by simp
  obtain rd' b1' where read: "readFrames True (sourceFrame p) (take (?m * ?c) (sourceSamples p)) True ?b =
      (Inr (of_nat (copied_frames (unat (sourceFrame p)) ?m (packets ?b))), rd', b1')"
    "\<forall>i < ?m. \<forall>ch < ?c. rd' ! (i * ?c + ch) = overlay ?c (packets ?b) (unat (sourceFrame p) + i) ch 0"
    using read_unwrapped [OF b0 _ len, of "sourceFrame p" True] room m f(2) by auto
  have rd: "rd ! (i * ?c + ch) = s i" if "i < ?m" for i
    using read(1) v(1) lock read(2) that i(2) by (auto simp: s_def buffer_sample_def)
  have samples: "sourceSamples p1 ! (j * ?c + ch) = s j" if "j < ?m" for j
    using that frame_index_bound [OF that i(2)] v(2) rd [OF that] by (simp add: v(3) nth_append)
  have idx: "nat \<lfloor>x\<rfloor> + 2 \<le> ?m"
    unfolding x_def by (rule index_in_span [OF p]) (use i(1) in simp)
  have "out ! (k * ?c + ch) = frame_value ?c (sourceSamples p1) (sourceFraction p) (ratio p) k ! ch"
  proof -
    have "out = concat (map (frame_value ?c (sourceSamples p1) (sourceFraction p) (ratio p)) [0..<n])"
      using chunk unfolding v(4) by simp
    then show ?thesis using nth_concat_frames [of k "[0..<n]" ch ?c] i by simp
  qed
  also have "\<dots> = mix (dbl (x - of_nat (nat \<lfloor>x\<rfloor>))) (s (nat \<lfloor>x\<rfloor>)) (s (nat \<lfloor>x\<rfloor> + 1))"
    using samples [of "nat \<lfloor>x\<rfloor>"] samples [of "nat \<lfloor>x\<rfloor> + 1"] idx i(2)
    by (simp add: frame_value_def Let_def x_def [symmetric])
  finally show ?thesis .
qed

lemma position_near:
  assumes "k \<le> 256" "0 \<le> f" "f \<le> 1" "0 \<le> r" "r \<le> 8197 / 8192"
  shows "\<bar>source_position f r k - (f + of_nat k * r)\<bar> \<le> 1 / 2 ^ 40"
proof -
  have kr: "0 \<le> of_nat k * r" "of_nat k * r \<le> 256 * (8197 / 8192)"
    using assms by simp (intro mult_mono; use assms in simp)
  have a: "\<bar>dbl (of_nat k * r) - of_nat k * r\<bar> \<le> 1 / 2199023255552"
    using binary64.near [of "of_nat k * r" 41] kr by simp
  have "\<bar>f + dbl (of_nat k * r)\<bar> \<le> 260" using a kr assms(2,3) by linarith
  then have "\<bar>source_position f r k - (f + dbl (of_nat k * r))\<bar> \<le> 1 / 2199023255552"
    using binary64.near [of "f + dbl (of_nat k * r)" 41] by (simp add: source_position_def)
  with a have "\<bar>source_position f r k - (f + of_nat k * r)\<bar> \<le> 1 / 1099511627776" by linarith
  then show ?thesis by simp
qed


section \<open>Theorems\<close>

text \<open>
  C19. The audio callback never fails: in every state that creating, scheduling, correcting and
  playing can reach, with packets arriving at any point, each callback stays inside its buffers,
  fills exactly the frames the device asked for, and a chunk reads at most 259 source frames, of
  which every output frame uses two.
\<close>

theorem callback_never_fails:
  assumes "player_reachable p b" "time_ok t" "\<forall>k. env_ok (env k)"
  shows "(\<exists>out p' b'. dataCallback env t frames p b = Inr (out, p', b') \<and>
      length out = unat frames * unat (playerChannels p)) \<and>
    (\<forall>n \<le> chunkLimit. source_frames n p \<le> 259 \<and>
      (\<forall>k < n. nat \<lfloor>source_position (sourceFraction p) (ratio p) k\<rfloor> + 2 \<le> source_frames n p))"
proof -
  have ok: "player_buffer_ok p b" "time_ok (startTime p)"
    using player_reachable_ok [OF assms(1)] by simp_all
  then have p: "player_ok p" by (simp add: player_buffer_ok_def)
  show ?thesis
    using dataCallback_ok [OF ok assms(2,3), of frames] source_frames_le [OF p] index_in_span [OF p]
    by (auto simp: chunkLimit_def)
qed



text \<open>The callback undisturbed: it gets the lock and no packet arrives meanwhile.\<close>

definition quiet :: chunk_env where
  "quiet = \<lparr>ownsLock = True, pushedBefore = [], pushedDuring = []\<rparr>"

lemma quiet_simps [simp]: "env_ok quiet" "ownsLock quiet" "pushedBefore quiet = []"
    "pushedDuring quiet = []" "push_all [] b = b"
  by (simp_all add: quiet_def env_ok_def push_all_def)

lemma chunk_unity:
  assumes ok: "player_buffer_ok p b" and n: "n \<le> 256"
    and room: "unat (sourceFrame p) + 260 < 18446744073709551616"
    and unity: "ratio p = 1" "sourceFraction p = 0"
  shows "\<exists>out p' r. render_chunk quiet n p b = Inr (out, p', b\<lparr>latestReadFrame := r\<rparr>) \<and>
    length out = n * unat (playerChannels p) \<and> player_buffer_ok p' (b\<lparr>latestReadFrame := r\<rparr>) \<and>
    (\<forall>k < n. \<forall>ch < unat (playerChannels p). out ! (k * unat (playerChannels p) + ch) =
      buffer_sample b (unat (playerChannels p)) (unat (sourceFrame p) + k) ch) \<and>
    sourceFrame p' = sourceFrame p + of_nat n \<and> sourceFraction p' = 0 \<and> ratio p' = 1 \<and>
    playerChannels p' = playerChannels p"
proof -
  obtain copied rd b1 p1 where v:
    "readFrames (ownsLock quiet) (sourceFrame p)
       (take (source_frames n p * unat (playerChannels p)) (sourceSamples p)) True
       (push_all (pushedBefore quiet) b) = (Inr copied, rd, b1)"
    "p1 = p\<lparr>sourceSamples := rd @ drop (source_frames n p * unat (playerChannels p)) (sourceSamples p)\<rparr>"
    "render_chunk quiet n p b =
       Inr (concat (map (frame_value (unat (playerChannels p)) (sourceSamples p1) (sourceFraction p)
              (ratio p)) [0..<n]),
            advance n (count_underrun (source_frames n p) copied (push_all (pushedDuring quiet) b1) p1),
            push_all (pushedDuring quiet) b1)"
    "player_buffer_ok
       (advance n (count_underrun (source_frames n p) copied (push_all (pushedDuring quiet) b1) p1))
       (push_all (pushedDuring quiet) b1)"
    by (rule render_chunk_value [OF ok quiet_simps(1) n]) blast
  let ?out = "concat (map (frame_value (unat (playerChannels p)) (sourceSamples p1) (sourceFraction p)
      (ratio p)) [0..<n])"
  let ?p = "advance n (count_underrun (source_frames n p) copied b1 p1)"
  obtain r where r: "b1 = b\<lparr>latestReadFrame := r\<rparr>"
    using read_state [of True "sourceFrame p"
        "take (source_frames n p * unat (playerChannels p)) (sourceSamples p)" True b] v(1) by auto
  have fields: "sourceFrame ?p = sourceFrame p + of_nat n" "sourceFraction ?p = 0" "ratio ?p = 1"
      "playerChannels ?p = playerChannels p"
    using position_unity [of n] n unity
    by (simp_all add: advance_def Let_def v(2) binary64.zero)
  have "?out ! (k * unat (playerChannels p) + ch) =
      buffer_sample b (unat (playerChannels p)) (unat (sourceFrame p) + k) ch"
    if "k < n" "ch < unat (playerChannels p)" for k ch
    using chunk_sample [OF ok quiet_simps(1) n quiet_simps(2) room that v(3)] unity
      position_unity [of k] that(1) n
    by (simp add: binary64.zero mix_unity)
  then show ?thesis
    using v(3,4) fields r length_concat_frames [of "unat (playerChannels p)" "sourceSamples p1"
        "sourceFraction p" "ratio p" "[0..<n]"]
    by (intro exI [of _ ?out] exI [of _ ?p] exI [of _ r]) simp
qed

lemma unat_add_of_nat:
  "unat (a :: u64) + n < 18446744073709551616 \<Longrightarrow> unat (a + of_nat n) = unat a + n"
  by (subst unat_add_no_wrap) (simp_all add: unsigned_of_nat take_bit_nat_eq_self_iff take_bit_nat_eq_self)

lemma chunks_unity:
  assumes "player_buffer_ok p b" "ratio p = 1" "sourceFraction p = 0"
    and "unat (sourceFrame p) + n + 260 < 18446744073709551616"
  shows "\<exists>out p' r. render_chunks (\<lambda>_. quiet) k n p b = Inr (out, p', b\<lparr>latestReadFrame := r\<rparr>) \<and>
    (\<forall>k < n. \<forall>ch < unat (playerChannels p). out ! (k * unat (playerChannels p) + ch) =
      buffer_sample b (unat (playerChannels p)) (unat (sourceFrame p) + k) ch) \<and>
    sourceFrame p' = sourceFrame p + of_nat n \<and> sourceFraction p' = 0 \<and> ratio p' = 1"
  using assms
proof (induction n arbitrary: k p b rule: less_induct)
  case (less n)
  show ?case
  proof (cases "n = 0")
    case True
    have "b = b\<lparr>latestReadFrame := latestReadFrame b\<rparr>" by simp
    with True less.prems show ?thesis
      by (intro exI [of _ "[]"] exI [of _ p] exI [of _ "latestReadFrame b"]) (simp add: render_chunks.simps)
  next
    case False
    let ?m = "min chunkLimit n" and ?c = "unat (playerChannels p)"
    have m: "?m \<le> 256" "n - ?m < n" "?m \<le> n" using False by (simp_all add: chunkLimit_def)
    obtain out p1 r where chunk: "render_chunk quiet ?m p b = Inr (out, p1, b\<lparr>latestReadFrame := r\<rparr>)"
      "length out = ?m * ?c" "player_buffer_ok p1 (b\<lparr>latestReadFrame := r\<rparr>)"
      "\<And>k ch. k < ?m \<Longrightarrow> ch < ?c \<Longrightarrow> out ! (k * ?c + ch) = buffer_sample b ?c (unat (sourceFrame p) + k) ch"
      "sourceFrame p1 = sourceFrame p + of_nat ?m" "sourceFraction p1 = 0" "ratio p1 = 1"
      "playerChannels p1 = playerChannels p"
      using chunk_unity [OF less.prems(1) m(1) _ less.prems(2,3)] less.prems(4) by auto
    have pos: "unat (sourceFrame p1) = unat (sourceFrame p) + ?m"
      unfolding chunk(5) using less.prems(4) m(3) by (intro unat_add_of_nat) linarith
    have room: "unat (sourceFrame p1) + (n - ?m) + 260 < 18446744073709551616"
      using pos less.prems(4) m(3) by linarith
    obtain outs p2 r2 where ih: "render_chunks (\<lambda>_. quiet) (k + 1) (n - ?m) p1 (b\<lparr>latestReadFrame := r\<rparr>) =
        Inr (outs, p2, b\<lparr>latestReadFrame := r, latestReadFrame := r2\<rparr>)"
      "\<forall>j < n - ?m. \<forall>ch < unat (playerChannels p1). outs ! (j * unat (playerChannels p1) + ch) =
        buffer_sample (b\<lparr>latestReadFrame := r\<rparr>) (unat (playerChannels p1)) (unat (sourceFrame p1) + j) ch"
      "sourceFrame p2 = sourceFrame p1 + of_nat (n - ?m)" "sourceFraction p2 = 0" "ratio p2 = 1"
      using less.IH [OF m(2) chunk(3,7,6) room, of "k + 1"] by blast
    have same: "buffer_sample (b\<lparr>latestReadFrame := r\<rparr>) = buffer_sample b"
      by (intro ext) (simp add: buffer_sample_def)
    have rest: "render_chunks (\<lambda>_. quiet) (k + 1) (n - ?m) p1 (b\<lparr>latestReadFrame := r\<rparr>) =
        Inr (outs, p2, b\<lparr>latestReadFrame := r2\<rparr>)"
      "\<And>j ch. j < n - ?m \<Longrightarrow> ch < ?c \<Longrightarrow> outs ! (j * ?c + ch) =
        buffer_sample b ?c (unat (sourceFrame p) + ?m + j) ch"
      "sourceFrame p2 = sourceFrame p + of_nat ?m + of_nat (n - ?m)" "sourceFraction p2 = 0" "ratio p2 = 1"
      using ih(2) unfolding chunk(8) pos same by (simp_all only: ih(1,3,4,5) chunk(5)) simp_all
    have "(out @ outs) ! (j * ?c + ch) = buffer_sample b ?c (unat (sourceFrame p) + j) ch"
      if "j < n" "ch < ?c" for j ch
    proof (cases "j < ?m")
      case True
      then show ?thesis
        using chunk(2,4) that(2) frame_index_bound [OF True that(2)] by (simp add: nth_append)
    next
      case False
      then have "?m \<le> j" by (simp only: not_less)
      then have "?m * ?c \<le> j * ?c + ch" by (simp only: frame_index(1) [OF that(2)])
      moreover have "j * ?c + ch - ?m * ?c = (j - ?m) * ?c + ch"
        using frame_index_diff [of ?m j ?c ch] False by simp
      ultimately show ?thesis
        using rest(2) [of "j - ?m" ch] chunk(2) that False by (simp add: nth_append)
    qed
    moreover have "sourceFrame p + of_nat ?m + of_nat (n - ?m) = sourceFrame p + of_nat n"
      using m(3) by (simp add: of_nat_diff)
    ultimately show ?thesis
      using False chunk(1) rest by (subst render_chunks.simps) (auto intro: exI [of _ r2])
  qed
qed



text \<open>The example packet (frames 258 and 259) played from frame 257.\<close>

definition example_player :: ScheduledStreamPlayer where
  "example_player = schedule 257 3
     \<lparr>playerChannels = 1, sourceFrame = 0, sourceFraction = 0, ratio = 1, sourceSamples = replicate 260 0,
      outputRouteName = ''Unknown output'', targetRatio = 1, actualRatio = 1, shownFrame = 0,
      outputRouteChanged = False, startTime = 0, configuredDelay = 20, initialized = True,
      scheduled = False, started = False, startLatenessNanoseconds = 0, underrunFrames = 0\<rparr>"

lemma example_player_reachable: "player_reachable example_player example_buffer"
proof -
  let ?f = "\<lparr>format_sampleRate = 8000, format_channelCount = 1\<rparr>"
  have f: "format example_buffer = Some ?f" by (simp add: example_buffer_def)
  have "ScheduledStreamPlayer_new ?f 20 \<lparr>initError = None, deviceName = None\<rparr> =
      Inr \<lparr>playerChannels = 1, sourceFrame = 0, sourceFraction = 0, ratio = 1,
      sourceSamples = replicate 260 0, outputRouteName = ''Unknown output'', targetRatio = 1,
      actualRatio = 1, shownFrame = 0, outputRouteChanged = False, startTime = 0, configuredDelay = 20,
      initialized = True, scheduled = False, started = False, startLatenessNanoseconds = 0,
      underrunFrames = 0\<rparr>"
    by (simp add: ScheduledStreamPlayer_new_def)
  from player_reachable.created [OF example_buffer_reachable f this]
  show ?thesis unfolding example_player_def by (rule player_reachable.scheduled) (simp add: time_ok_def)
qed

lemma example_player_fields [simp]:
  "startTime example_player = 3" "ratio example_player = 1" "targetRatio example_player = 1"
  "sourceFraction example_player = 0" "sourceFrame example_player = 257"
  "playerChannels example_player = 1"
  by (simp_all add: example_player_def schedule_def)

lemma example_buffer_samples:
  "buffer_sample example_buffer 1 257 0 = 0" "buffer_sample example_buffer 1 258 0 = 1"
  "buffer_sample example_buffer 1 259 0 = 32767"
  by (simp_all add: buffer_sample_def example_buffer_def covers_def packet_sample_def)


theorem callback_never_fails_witness:
  "\<exists>out p' b'. dataCallback (\<lambda>_. quiet) 5 3 example_player example_buffer = Inr (out, p', b') \<and>
     length out = 3"
  using callback_never_fails [OF example_player_reachable, of 5 "\<lambda>_. quiet" 3] by (auto simp: time_ok_def)


end
