(* ===== verification/Command_Line.thy ===== *)
theory Command_Line
  imports Text_Format
begin

text \<open>
  The command line of the desktop program, \<open>desktop/src/main.cpp\<close>: the numbers, the options, and the
  exit status. The arguments are those after the program name. This is the release build: the
  options of the impairment simulator exist in debug builds only.
\<close>

section \<open>Data\<close>

datatype Mode = Local | Host | Client | Control | RoomClient

record CommandLine =
  mode :: Mode
  argument :: string
  destinationAddress :: string
  lineBindAddress :: string
  lineRoomName :: string
  lineAudioPort :: u16
  lineClockPort :: u16
  lineSessionPort :: u16
  lineLatency :: int

definition CommandLine_new :: "Mode \<Rightarrow> string \<Rightarrow> CommandLine" where
  "CommandLine_new m a =
     \<lparr>mode = m, argument = a, destinationAddress = ''255.255.255.255'', lineBindAddress = ''0.0.0.0'',
      lineRoomName = ''Tandem Audio'', lineAudioPort = 40100, lineClockPort = 40101,
      lineSessionPort = 40102, lineLatency = 0\<rparr>"

section \<open>Numbers\<close>

text \<open>
  \<open>std::from_chars\<close> into a 32-bit integer: the value and the text after it, or an error when there is
  no digit or the value does not fit. A sign is read only into the signed type, and only a minus.
\<close>

definition from_chars_unsigned :: "string \<Rightarrow> (nat \<times> string) option" where
  "from_chars_unsigned s =
     (let digits = takeWhile is_digit s in
      if digits = [] \<or> digits_value digits > 4294967295 then None
      else Some (digits_value digits, dropWhile is_digit s))"

definition from_chars_int :: "string \<Rightarrow> (int \<times> string) option" where
  "from_chars_int s =
     (let negative = (s \<noteq> [] \<and> hd s = CHR ''-'');
          body = (if negative then tl s else s);
          digits = takeWhile is_digit body;
          value = (if negative then - int (digits_value digits) else int (digits_value digits)) in
      if digits = [] \<or> value < - 2147483648 \<or> value > 2147483647 then None
      else Some (value, dropWhile is_digit body))"

definition parsePort :: "string \<Rightarrow> exn + u16" where
  "parsePort text =
     (case from_chars_unsigned text of
        None \<Rightarrow> Inl (Invalid_Argument ''Port must be an integer from 1 to 65535'')
      | Some (value, rest) \<Rightarrow>
          if rest \<noteq> [] \<or> value = 0 \<or> value > 65535
          then Inl (Invalid_Argument ''Port must be an integer from 1 to 65535'')
          else Inr (of_nat value))"

definition parseOutputLatency :: "string \<Rightarrow> exn + int" where
  "parseOutputLatency text =
     (case from_chars_int text of
        None \<Rightarrow> Inl (Invalid_Argument ''Output latency must be -1000..1000 ms'')
      | Some (value, rest) \<Rightarrow>
          if rest \<noteq> [] \<or> value < - 1000 \<or> value > 1000
          then Inl (Invalid_Argument ''Output latency must be -1000..1000 ms'')
          else Inr value)"

section \<open>Options\<close>

definition bad_option :: "string \<Rightarrow> exn + CommandLine" where
  "bad_option option =
     Inl (Invalid_Argument (''Unknown, incomplete, or inapplicable option: '' @ option))"

text \<open>One option with its value.\<close>

definition parseOption :: "string \<Rightarrow> string \<Rightarrow> CommandLine \<Rightarrow> exn + CommandLine" where
  "parseOption option value c =
     (if option = ''--address'' \<and> mode c = Host then Inr (c\<lparr>destinationAddress := value\<rparr>)
      else if option = ''--bind'' \<and> mode c = Client then Inr (c\<lparr>lineBindAddress := value\<rparr>)
      else if option = ''--port''
      then and_then (parsePort value) (\<lambda>p. Inr (c\<lparr>lineAudioPort := p\<rparr>))
      else if option = ''--control-port''
      then and_then (parsePort value) (\<lambda>p. Inr (c\<lparr>lineClockPort := p\<rparr>))
      else if option = ''--session-port'' \<and> (mode c = Host \<or> mode c = Control \<or> mode c = RoomClient)
      then and_then (parsePort value) (\<lambda>p. Inr (c\<lparr>lineSessionPort := p\<rparr>))
      else if option = ''--output-latency-ms''
      then and_then (parseOutputLatency value) (\<lambda>l. Inr (c\<lparr>lineLatency := l\<rparr>))
      else if option = ''--room-name'' \<and> mode c = Host then Inr (c\<lparr>lineRoomName := value\<rparr>)
      else bad_option option)"

fun parseOptions :: "string list \<Rightarrow> CommandLine \<Rightarrow> exn + CommandLine" where
  "parseOptions [] c = Inr c"
| "parseOptions [option] c = bad_option option"
| "parseOptions (option # value # rest) c =
     and_then (parseOption option value c) (\<lambda>c. parseOptions rest c)"

definition parseMode :: "string \<Rightarrow> exn + Mode" where
  "parseMode s =
     (if s = ''host'' then Inr Host
      else if s = ''client'' then Inr Client
      else if s = ''control'' then Inr Control
      else if s = ''room-client'' then Inr RoomClient
      else Inl (Invalid_Argument ''Unknown mode''))"

definition check_ports :: "CommandLine \<Rightarrow> exn + CommandLine" where
  "check_ports c =
     (if lineAudioPort c = lineClockPort c \<or>
         (mode c = Host \<and> (lineSessionPort c = lineAudioPort c \<or> lineSessionPort c = lineClockPort c))
      then Inl (Invalid_Argument ''Audio, clock, and session ports must differ'')
      else Inr c)"

fun parseCommandLine :: "string list \<Rightarrow> exn + CommandLine" where
  "parseCommandLine [file] = Inr (CommandLine_new Local file)"
| "parseCommandLine (m # a # options) =
     and_then (parseMode m) (\<lambda>m.
     and_then (parseOptions options (CommandLine_new m a)) check_ports)"
| "parseCommandLine [] = Inl (Invalid_Argument ''Invalid command line'')"

text \<open>The exit status of \<open>main\<close>, from the result of parsing and of the mode's function.\<close>

definition exit_status :: "exn + unit \<Rightarrow> nat" where
  "exit_status r =
     (case r of Inr _ \<Rightarrow> 0 | Inl (Invalid_Argument _) \<Rightarrow> 2 | Inl _ \<Rightarrow> 1)"

definition run_main :: "string list \<Rightarrow> (CommandLine \<Rightarrow> exn + unit) \<Rightarrow> nat" where
  "run_main args run = exit_status (and_then (parseCommandLine args) run)"

text \<open>\<open>runControl\<close>: the answer of the host decides.\<close>

definition runControl :: "exn + string \<Rightarrow> exn + unit" where
  "runControl answer =
     and_then answer (\<lambda>response.
       if starts_with response ''SCHEDULED '' then Inr ()
       else Inl (Runtime_Error (''Room command was rejected: '' @ response)))"

section \<open>Numbers, both ways\<close>

lemma show_nat_split [simp]:
  "takeWhile is_digit (show_nat n) = show_nat n" "dropWhile is_digit (show_nat n) = []"
  using show_nat_digits [of n] by (simp_all add: takeWhile_eq_all_conv list_all_iff)

lemma from_chars_show_nat:
  assumes "n \<le> 4294967295"
  shows "from_chars_unsigned (show_nat n) = Some (n, [])"
  using assms by (simp add: from_chars_unsigned_def Let_def)

lemma parsePort_show: "p \<noteq> 0 \<Longrightarrow> parsePort (show_nat (unat p)) = Inr p"
  using unat_u16_less [of p]
  by (simp add: parsePort_def from_chars_show_nat unat_eq_0 [symmetric])

lemma parsePort_nonzero: "parsePort s = Inr p \<Longrightarrow> p \<noteq> 0"
  by (auto simp: parsePort_def word_unat_eq_iff unsigned_of_nat take_bit_nat_eq_self
      split: option.splits if_splits)

lemma hd_show_nat: "is_digit (hd (show_nat n))"
  using show_nat_digits [of n] show_nat_not_Nil [of n] by (cases "show_nat n") simp_all

lemma digit_not_minus: "is_digit c \<Longrightarrow> c \<noteq> CHR ''-''"
  by (auto simp: is_digit_def code_def)

lemma from_chars_show_int:
  assumes "- 2147483648 \<le> i" "i \<le> 2147483647"
  shows "from_chars_int (show_int i) = Some (i, [])"
  using assms digit_not_minus [OF hd_show_nat [of "nat i"]]
  by (cases "i < 0") (simp_all add: from_chars_int_def show_int_def Let_def)

lemma parseOutputLatency_show:
  "- 1000 \<le> l \<Longrightarrow> l \<le> 1000 \<Longrightarrow> parseOutputLatency (show_int l) = Inr l"
  by (simp add: parseOutputLatency_def from_chars_show_int)

lemma parseOutputLatency_range: "parseOutputLatency s = Inr l \<Longrightarrow> - 1000 \<le> l \<and> l \<le> 1000"
  by (auto simp: parseOutputLatency_def split: option.splits if_splits)


section \<open>What a parsed line guarantees\<close>

text \<open>The types of the options, and which modes have them.\<close>

definition options_ok :: "CommandLine \<Rightarrow> bool" where
  "options_ok c \<longleftrightarrow>
     lineAudioPort c \<noteq> 0 \<and> lineClockPort c \<noteq> 0 \<and> lineSessionPort c \<noteq> 0 \<and>
     - 1000 \<le> lineLatency c \<and> lineLatency c \<le> 1000 \<and>
     (mode c \<noteq> Host \<longrightarrow> destinationAddress c = ''255.255.255.255'' \<and> lineRoomName c = ''Tandem Audio'') \<and>
     (mode c \<noteq> Client \<longrightarrow> lineBindAddress c = ''0.0.0.0'') \<and>
     (mode c = Client \<or> mode c = Local \<longrightarrow> lineSessionPort c = 40102)"

lemma options_ok_new [simp]: "options_ok (CommandLine_new m a)"
  by (simp add: options_ok_def CommandLine_new_def)

lemma parseOption_cases:
  assumes "parseOption option v c = Inr d"
  obtains (address) "mode c = Host" "d = c\<lparr>destinationAddress := v\<rparr>"
  | (bind) "mode c = Client" "d = c\<lparr>lineBindAddress := v\<rparr>"
  | (port) p where "parsePort v = Inr p" "d = c\<lparr>lineAudioPort := p\<rparr>"
  | (clock) p where "parsePort v = Inr p" "d = c\<lparr>lineClockPort := p\<rparr>"
  | (session) p where "parsePort v = Inr p" "mode c = Host \<or> mode c = Control \<or> mode c = RoomClient"
      "d = c\<lparr>lineSessionPort := p\<rparr>"
  | (latency) l where "parseOutputLatency v = Inr l" "d = c\<lparr>lineLatency := l\<rparr>"
  | (name) "mode c = Host" "d = c\<lparr>lineRoomName := v\<rparr>"
proof -
  define is_address where "is_address \<longleftrightarrow> option = ''--address'' \<and> mode c = Host"
  define is_bind where "is_bind \<longleftrightarrow> option = ''--bind'' \<and> mode c = Client"
  define is_port where "is_port \<longleftrightarrow> option = ''--port''"
  define is_clock where "is_clock \<longleftrightarrow> option = ''--control-port''"
  define is_session where "is_session \<longleftrightarrow>
    option = ''--session-port'' \<and> (mode c = Host \<or> mode c = Control \<or> mode c = RoomClient)"
  define is_latency where "is_latency \<longleftrightarrow> option = ''--output-latency-ms''"
  define is_name where "is_name \<longleftrightarrow> option = ''--room-name'' \<and> mode c = Host"
  have modes: "is_address \<Longrightarrow> mode c = Host" "is_bind \<Longrightarrow> mode c = Client" "is_name \<Longrightarrow> mode c = Host"
    "is_session \<Longrightarrow> mode c = Host \<or> mode c = Control \<or> mode c = RoomClient"
    by (simp_all only: is_address_def is_bind_def is_name_def is_session_def)
  have eq: "(if is_address then Inr (c\<lparr>destinationAddress := v\<rparr>)
      else if is_bind then Inr (c\<lparr>lineBindAddress := v\<rparr>)
      else if is_port then and_then (parsePort v) (\<lambda>p. Inr (c\<lparr>lineAudioPort := p\<rparr>))
      else if is_clock then and_then (parsePort v) (\<lambda>p. Inr (c\<lparr>lineClockPort := p\<rparr>))
      else if is_session then and_then (parsePort v) (\<lambda>p. Inr (c\<lparr>lineSessionPort := p\<rparr>))
      else if is_latency then and_then (parseOutputLatency v) (\<lambda>l. Inr (c\<lparr>lineLatency := l\<rparr>))
      else if is_name then Inr (c\<lparr>lineRoomName := v\<rparr>) else bad_option option) = Inr d"
    using assms
    unfolding parseOption_def is_address_def is_bind_def is_port_def is_clock_def is_session_def
      is_latency_def is_name_def .
  consider (1) "is_address" | (2) "\<not> is_address" "is_bind" | (3) "\<not> is_address" "\<not> is_bind" "is_port"
    | (4) "\<not> is_address" "\<not> is_bind" "\<not> is_port" "is_clock"
    | (5) "\<not> is_address" "\<not> is_bind" "\<not> is_port" "\<not> is_clock" "is_session"
    | (6) "\<not> is_address" "\<not> is_bind" "\<not> is_port" "\<not> is_clock" "\<not> is_session" "is_latency"
    | (7) "\<not> is_address" "\<not> is_bind" "\<not> is_port" "\<not> is_clock" "\<not> is_session" "\<not> is_latency" "is_name"
    | (8) "\<not> is_address" "\<not> is_bind" "\<not> is_port" "\<not> is_clock" "\<not> is_session" "\<not> is_latency" "\<not> is_name"
    by blast
  then show thesis
  proof cases
    case 1 then show thesis using eq modes(1) by (intro address) simp_all
  next
    case 2 then show thesis using eq modes(2) by (intro bind) simp_all
  next
    case 3 then show thesis using eq port by (auto simp: and_then_Inr_iff)
  next
    case 4 then show thesis using eq clock by (auto simp: and_then_Inr_iff)
  next
    case 5 then show thesis using eq modes(4) session by (auto simp: and_then_Inr_iff)
  next
    case 6 then show thesis using eq latency by (auto simp: and_then_Inr_iff)
  next
    case 7 then show thesis using eq modes(3) by (intro name) simp_all
  next
    case 8 then show thesis using eq by (simp add: bad_option_def)
  qed
qed

lemma parseOption_ok:
  assumes "parseOption option v c = Inr d" "options_ok c"
  shows "options_ok d \<and> mode d = mode c \<and> argument d = argument c"
  using assms(1)
  by (cases rule: parseOption_cases)
    (use assms(2) parsePort_nonzero [of v] parseOutputLatency_range [of v] in
      \<open>auto simp: options_ok_def\<close>)

lemma parseOptions_ok:
  "parseOptions options c = Inr d \<Longrightarrow> options_ok c \<Longrightarrow>
    options_ok d \<and> mode d = mode c \<and> argument d = argument c"
proof (induction options c rule: parseOptions.induct)
  case (3 option v rest c)
  then obtain e where e: "parseOption option v c = Inr e" "parseOptions rest e = Inr d"
    by (auto simp: res_simps)
  show ?case using "3.IH" [OF e(2)] parseOption_ok [OF e(1) "3.prems"(2)] by simp
qed (simp_all add: bad_option_def)

text \<open>Parsing fails only with the exception \<open>main\<close> answers with the usage text.\<close>

definition usage_error :: "exn + 'a \<Rightarrow> bool" where
  "usage_error r \<longleftrightarrow> (\<forall>e. r = Inl e \<longrightarrow> (\<exists>m. e = Invalid_Argument m))"

lemma usage_error_intros [intro]:
  "usage_error (Inr x)" "usage_error (Inl (Invalid_Argument m))"
  "usage_error r \<Longrightarrow> usage_error s \<Longrightarrow> usage_error (if b then r else s)"
  "usage_error q \<Longrightarrow> (\<And>x. usage_error (f x)) \<Longrightarrow> usage_error (and_then q f)"
  by (auto simp: usage_error_def and_then_Inl_iff)

lemma parsePort_error: "usage_error (parsePort s)"
  unfolding parsePort_def by (cases "from_chars_unsigned s") auto

lemma parseOutputLatency_error: "usage_error (parseOutputLatency s)"
  unfolding parseOutputLatency_def by (cases "from_chars_int s") auto

lemma parseOption_error: "usage_error (parseOption option v c)"
  unfolding parseOption_def bad_option_def
  by (intro usage_error_intros parsePort_error parseOutputLatency_error)

lemma parseOptions_error: "usage_error (parseOptions options c)"
  by (induction options c rule: parseOptions.induct)
    (simp_all add: bad_option_def usage_error_intros parseOption_error del: and_then_cong)

lemma parse_error: "usage_error (parseCommandLine args)"
proof (cases args rule: parseCommandLine.cases)
  case (2 m a options)
  have "usage_error (parseMode m)" "usage_error (check_ports c)" for c
    unfolding parseMode_def check_ports_def by (intro usage_error_intros)+
  then show ?thesis
    unfolding 2 parseCommandLine.simps by (intro usage_error_intros parseOptions_error)
qed auto

definition line_ok :: "CommandLine \<Rightarrow> bool" where
  "line_ok c \<longleftrightarrow> options_ok c \<and> lineAudioPort c \<noteq> lineClockPort c \<and>
     (mode c = Host \<longrightarrow> lineSessionPort c \<noteq> lineAudioPort c \<and> lineSessionPort c \<noteq> lineClockPort c) \<and>
     (mode c = Local \<longrightarrow> c = CommandLine_new Local (argument c))"

lemma parsed_line_ok:
  assumes "parseCommandLine args = Inr c"
  shows "line_ok c"
proof (cases args rule: parseCommandLine.cases)
  case (1 path)
  then show ?thesis using assms by (auto simp: line_ok_def CommandLine_new_def options_ok_def)
next
  case (2 m a options)
  then obtain k d where k: "parseMode m = Inr k" "parseOptions options (CommandLine_new k a) = Inr d"
      "check_ports d = Inr c"
    using assms by (auto simp: res_simps)
  have "mode (CommandLine_new k a) = k" by (simp add: CommandLine_new_def)
  then have "options_ok d \<and> mode d = k" using parseOptions_ok [OF k(2) options_ok_new] by simp
  moreover have "k \<noteq> Local" using k(1) by (auto simp: parseMode_def split: if_splits)
  ultimately show ?thesis using k(3) by (auto simp: line_ok_def check_ports_def split: if_splits)
qed (use assms in simp)

section \<open>Writing a command line\<close>

definition port_args :: "CommandLine \<Rightarrow> string list" where
  "port_args c = [''--port'', show_nat (unat (lineAudioPort c)),
     ''--control-port'', show_nat (unat (lineClockPort c)), ''--output-latency-ms'', show_int (lineLatency c)]"

definition session_args :: "CommandLine \<Rightarrow> string list" where
  "session_args c = [''--session-port'', show_nat (unat (lineSessionPort c))]"

definition command_args :: "CommandLine \<Rightarrow> string list" where
  "command_args c =
     (case mode c of
        Local \<Rightarrow> [argument c]
      | Host \<Rightarrow> [''host'', argument c, ''--address'', destinationAddress c, ''--room-name'', lineRoomName c] @
          session_args c @ port_args c
      | Client \<Rightarrow> [''client'', argument c, ''--bind'', lineBindAddress c] @ port_args c
      | Control \<Rightarrow> [''control'', argument c] @ session_args c @ port_args c
      | RoomClient \<Rightarrow> [''room-client'', argument c] @ session_args c @ port_args c)"

lemma parse_port_args:
  assumes "options_ok c"
  shows "parseOptions (port_args c) d =
    Inr (d\<lparr>lineAudioPort := lineAudioPort c, lineClockPort := lineClockPort c, lineLatency := lineLatency c\<rparr>)"
  using assms by (simp add: port_args_def parseOption_def options_ok_def parsePort_show parseOutputLatency_show)

lemma parse_session_args:
  assumes "options_ok c" "mode d = Host \<or> mode d = Control \<or> mode d = RoomClient"
  shows "parseOptions (session_args c @ rest) d = parseOptions rest (d\<lparr>lineSessionPort := lineSessionPort c\<rparr>)"
  using assms by (simp add: session_args_def parseOption_def options_ok_def parsePort_show)

text \<open>
  C28. The command line is complete and unambiguous: every setting within the limits (ports from 1 to
  65535, pairwise different where the mode uses them, a latency of at most a second, and each
  option only in the modes that have it) is what the program reads from its own options, and the
  program reads nothing else; whatever it cannot read ends it with status 2 before anything runs.
\<close>

theorem command_lines_exact:
  "(line_ok c \<longrightarrow> parseCommandLine (command_args c) = Inr c) \<and>
   (parseCommandLine args = Inr d \<longrightarrow> line_ok d) \<and>
   (parseCommandLine args = Inl e \<longrightarrow> run_main args run = 2)"
proof (intro conjI impI)
  show "run_main args run = 2" if "parseCommandLine args = Inl e"
    using parse_error [of args] that by (auto simp: usage_error_def run_main_def exit_status_def)
  assume c: "line_ok c"
  then have ok: "options_ok c" by (simp add: line_ok_def)
  show "parseCommandLine (command_args c) = Inr c"
  proof (cases "mode c")
    case Local
    then show ?thesis using c by (simp add: command_args_def line_ok_def)
  next
    case Host
    then show ?thesis using c ok
      by (simp add: command_args_def parseMode_def parseOption_def CommandLine_new_def
          parse_session_args parse_port_args check_ports_def line_ok_def options_ok_def)
  next
    case Client
    then show ?thesis using c ok
      by (simp add: command_args_def parseMode_def parseOption_def CommandLine_new_def
          parse_port_args check_ports_def line_ok_def options_ok_def)
  next
    case Control
    then show ?thesis using c ok
      by (simp add: command_args_def parseMode_def CommandLine_new_def
          parse_session_args parse_port_args check_ports_def line_ok_def options_ok_def)
  next
    case RoomClient
    then show ?thesis using c ok
      by (simp add: command_args_def parseMode_def CommandLine_new_def
          parse_session_args parse_port_args check_ports_def line_ok_def options_ok_def)
  qed
qed (rule parsed_line_ok)

definition example_line :: CommandLine where
  "example_line = (CommandLine_new Host ''song.wav'')\<lparr>lineSessionPort := 50000, lineLatency := - 25\<rparr>"

lemma example_line_ok: "line_ok example_line"
  by (simp add: line_ok_def options_ok_def example_line_def CommandLine_new_def)

theorem command_lines_exact_witness:
  "parseCommandLine (command_args example_line) = Inr example_line \<and>
   run_main [] (\<lambda>_. Inr ()) = 2 \<and> line_ok (CommandLine_new Local ''song.wav'')"
  using command_lines_exact [of example_line "[''song.wav'']" "CommandLine_new Local ''song.wav''"]
    command_lines_exact [of example_line "[]"] example_line_ok by simp

end
