(* ===== verification/Host_Loop.thy ===== *)
theory Host_Loop
  imports Control_Channel Network_Host
begin

text \<open>
  The host's main loop, \<open>runHost\<close> of \<open>desktop/src/main.cpp\<close>: it plays and streams one segment after
  the other, takes the scheduled action that ended a segment, waits for its time and carries it out,
  and polls the room while paused. It shares the room with the control sessions, which schedule
  actions at any time. A phase is the stretch between two accesses to the room; what the local
  player, the stream and the clock return comes with each turn.
\<close>

section \<open>State\<close>

datatype host_phase =
    Preparing
  | Opened
  | Streaming
  | Taken ScheduledRoomAction
  | Waiting
  | Seeking ScheduledRoomAction
  | Ending bool
  | Finished bool
  | is_failed: Failed exn

record HostLoop =
  loop_control :: ControlStreamState
  loop_room :: Room
  loop_config :: HostConfig
  loop_phase :: host_phase
  loop_frame :: u64
  segmentStart :: int
  loop_stats :: HostStats

definition control_view :: "HostLoop \<Rightarrow> ControlStreamState" where
  "control_view h = (loop_control h)\<lparr>room := Some (loop_room h)\<rparr>"

definition HostStats_new :: HostStats where
  "HostStats_new = \<lparr>packetsSent = 0, framesSent = 0, audioDatagramBytesSent = 0, datagramsSent = 0,
     clientSendFailures = 0, packetDurationMilliseconds = 0, lastFrame = 0, endedForCommand = False,
     sourceExhausted = False\<rparr>"

text \<open>The state before the loop; the first segment starts \<open>sendAhead\<close> after now.\<close>

definition host_start :: "ControlStreamState \<Rightarrow> Room \<Rightarrow> HostConfig \<Rightarrow> int \<Rightarrow> exn + HostLoop" where
  "host_start state r c now =
     and_then (in_nanoseconds (sendAhead c)) (\<lambda>ahead.
     and_then (signed64 (now + ahead)) (\<lambda>start.
       Inr \<lparr>loop_control = state, loop_room = r, loop_config = c, loop_phase = Preparing,
         loop_frame = 0, segmentStart = start, loop_stats = HostStats_new\<rparr>))"

text \<open>What a turn meets: the results of \<open>playFrom\<close>, of \<open>streamFile\<close> and of \<open>stop\<close>.\<close>

record loop_input =
  playResult :: "exn + unit"
  streamResult :: "exn + HostStats"
  stopResult :: "exn + unit"

definition loop_fail :: "HostLoop \<Rightarrow> exn + HostLoop \<Rightarrow> HostLoop" where
  "loop_fail h r = (case r of Inl e \<Rightarrow> h\<lparr>loop_phase := Failed e\<rparr> | Inr h \<Rightarrow> h)"

section \<open>Turns\<close>

definition open_segment :: "loop_input \<Rightarrow> HostLoop \<Rightarrow> HostLoop" where
  "open_segment i h =
     (let stream = room_streamId (snapshot (loop_room h));
          h = h\<lparr>loop_config := (loop_config h)\<lparr>config_streamId := stream\<rparr>,
                loop_control := (loop_control h)\<lparr>stream_streamId := stream\<rparr>\<rparr> in
      loop_fail h (and_then (playResult i) (\<lambda>_. Inr (h\<lparr>loop_phase := Opened\<rparr>))))"

definition announce_segment :: "HostLoop \<Rightarrow> HostLoop" where
  "announce_segment h =
     (let h = h\<lparr>loop_room := setPlaybackState Playing (loop_room h),
                loop_control := (loop_control h)\<lparr>playing := True\<rparr>\<rparr> in
      loop_fail h (and_then (DesktopNetworkHost_new (loop_config h))
        (\<lambda>_. Inr (h\<lparr>loop_phase := Streaming\<rparr>))))"

definition add_stats :: "HostStats \<Rightarrow> HostStats \<Rightarrow> HostStats" where
  "add_stats s part =
     s\<lparr>packetsSent := packetsSent s + packetsSent part,
       datagramsSent := datagramsSent s + datagramsSent part,
       clientSendFailures := clientSendFailures s + clientSendFailures part,
       framesSent := framesSent s + framesSent part,
       audioDatagramBytesSent := audioDatagramBytesSent s + audioDatagramBytesSent part,
       packetDurationMilliseconds := packetDurationMilliseconds part\<rparr>"

definition stream_segment :: "loop_input \<Rightarrow> HostLoop \<Rightarrow> HostLoop" where
  "stream_segment i h =
     loop_fail h (and_then (streamResult i) (\<lambda>part.
       let h = h\<lparr>loop_stats := add_stats (loop_stats h) part, loop_frame := lastFrame part\<rparr> in
       if sourceExhausted part then Inr (h\<lparr>loop_phase := Ending False\<rparr>)
       else if \<not> endedForCommand part then Inl (Runtime_Error ''Room stream ended unexpectedly'')
       else case takeAction (loop_room h) of
         (None, r) \<Rightarrow> Inl (Runtime_Error ''Scheduled room action disappeared'')
       | (Some command, r) \<Rightarrow> Inr (h\<lparr>loop_room := r, loop_phase := Taken command\<rparr>)))"

text \<open>The time the player is stopped, and what happens then.\<close>

definition command_time :: "ScheduledRoomAction \<Rightarrow> HostConfig \<Rightarrow> exn + int" where
  "command_time command c =
     and_then (in_nanoseconds (hostOutputLatency c)) (\<lambda>latency.
     and_then (signed64 (effectiveHostNanoseconds command - latency)) (\<lambda>acoustic.
     and_then (if action command = Seek then in_nanoseconds (sendAhead c) else Inr 0) (\<lambda>ahead.
       signed64 (acoustic - ahead))))"

definition carry_out :: "ScheduledRoomAction \<Rightarrow> HostLoop \<Rightarrow> exn + HostLoop" where
  "carry_out command h =
     (let h = h\<lparr>loop_control := (loop_control h)\<lparr>playing := False, currentFrame := loop_frame h\<rparr>\<rparr> in
      case action command of
        Stop \<Rightarrow> Inr (h\<lparr>loop_phase := Ending True\<rparr>)
      | Seek \<Rightarrow>
          and_then (setStreamId (nextStreamId command) (loop_room h)) (\<lambda>r.
            Inr (h\<lparr>loop_frame := seekFrame command, loop_room := r,
              loop_control := (loop_control h)\<lparr>currentFrame := seekFrame command\<rparr>,
              segmentStart := effectiveHostNanoseconds command, loop_phase := Preparing\<rparr>))
      | Pause \<Rightarrow>
          Inr (h\<lparr>loop_room := setPlaybackState Paused (loop_room h), loop_phase := Waiting\<rparr>)
      | Play \<Rightarrow> Inr (h\<lparr>loop_phase := Preparing\<rparr>))"

definition apply_command :: "loop_input \<Rightarrow> ScheduledRoomAction \<Rightarrow> HostLoop \<Rightarrow> HostLoop" where
  "apply_command i command h =
     loop_fail h (and_then (command_time command (loop_config h)) (\<lambda>_.
       and_then (stopResult i) (\<lambda>_. carry_out command h)))"

text \<open>One round of the pause loop; an action that is neither Play, Seek nor Stop stays pending.\<close>

definition poll_paused :: "HostLoop \<Rightarrow> HostLoop" where
  "poll_paused h =
     (case pendingAction (snapshot (loop_room h)) of
        None \<Rightarrow> h
      | Some a \<Rightarrow>
          (case action a of
             Pause \<Rightarrow> h
           | _ \<Rightarrow>
               (case takeAction (loop_room h) of
                  (None, r) \<Rightarrow> h\<lparr>loop_room := r\<rparr>
                | (Some command, r) \<Rightarrow>
                    (let h = h\<lparr>loop_room := r\<rparr> in
                     case action a of
                       Play \<Rightarrow> h\<lparr>segmentStart := effectiveHostNanoseconds command,
                                loop_phase := Preparing\<rparr>
                     | Seek \<Rightarrow> h\<lparr>loop_phase := Seeking command\<rparr>
                     | _ \<Rightarrow> h\<lparr>loop_phase := Ending True\<rparr>))))"

definition seek_paused :: "ScheduledRoomAction \<Rightarrow> HostLoop \<Rightarrow> HostLoop" where
  "seek_paused command h =
     (let h = h\<lparr>loop_frame := seekFrame command\<rparr> in
      loop_fail h (and_then (setStreamId (nextStreamId command) (loop_room h)) (\<lambda>r.
        Inr (h\<lparr>loop_room := r, loop_control := (loop_control h)
          \<lparr>stream_streamId := nextStreamId command, currentFrame := seekFrame command\<rparr>,
          loop_phase := Waiting\<rparr>))))"

definition end_loop :: "bool \<Rightarrow> HostLoop \<Rightarrow> HostLoop" where
  "end_loop stoppedByCommand h =
     h\<lparr>loop_room := setPlaybackState Stopped (loop_room h),
       loop_control := (loop_control h)\<lparr>playing := False\<rparr>, loop_phase := Finished stoppedByCommand\<rparr>"

definition loop_turn :: "loop_input \<Rightarrow> HostLoop \<Rightarrow> HostLoop" where
  "loop_turn i h =
     (case loop_phase h of
        Preparing \<Rightarrow> open_segment i h
      | Opened \<Rightarrow> announce_segment h
      | Streaming \<Rightarrow> stream_segment i h
      | Taken command \<Rightarrow> apply_command i command h
      | Waiting \<Rightarrow> poll_paused h
      | Seeking command \<Rightarrow> seek_paused command h
      | Ending stoppedByCommand \<Rightarrow> end_loop stoppedByCommand h
      | _ \<Rightarrow> h)"

section \<open>Runs\<close>

text \<open>
  A request is one line of a control session: its time, its peer, its session variables. Requests
  are answered (\<open>Control_Channel\<close> shows that none throws); one that is not would change nothing.
\<close>

datatype host_event =
    Turn loop_input
  | Request string int string Session

fun loop_exec :: "host_event \<Rightarrow> HostLoop \<Rightarrow> HostLoop" where
  "loop_exec (Turn i) h = loop_turn i h"
| "loop_exec (Request line now peer session) h =
     (case responseFor line now peer (control_view h) session of
        (Inr answer, state, session') \<Rightarrow>
          (case room state of Some r \<Rightarrow> h\<lparr>loop_control := state, loop_room := r\<rparr> | None \<Rightarrow> h)
      | (Inl e, state, session') \<Rightarrow> h)"

definition loop_run :: "host_event list \<Rightarrow> HostLoop \<Rightarrow> HostLoop" where
  "loop_run es h = foldl (\<lambda>h e. loop_exec e h) h es"


section \<open>What a request does to the room\<close>

text \<open>The stream a seek scheduled now would start.\<close>

definition next_stream :: "u32 \<Rightarrow> u32" where
  "next_stream current = (if current + 1 = 0 then 1 else current + 1)"

lemma next_stream_nonzero: "next_stream s \<noteq> 0"
  by (simp add: next_stream_def)

lemma scheduleAction_accepts:
  "scheduleAction a r = Inr (True, r') \<longleftrightarrow>
     effectiveHostNanoseconds a > 0 \<and> nextStreamId a \<noteq> 0 \<and> pendingAction (room_state r) = None \<and>
     r' = r\<lparr>room_state := (room_state r)\<lparr>pendingAction := Some a\<rparr>\<rparr>"
  by (auto simp: scheduleAction_def)

text \<open>A request leaves the room's state or schedules an action, if none is pending.\<close>

lemma request_cases:
  assumes "loop_exec (Request line now peer session) h = h'"
  obtains (Same) "room_state (loop_room h') = room_state (loop_room h)"
  | (Scheduled) act frame where "peer = ''127.0.0.1''" "pendingAction (room_state (loop_room h)) = None"
      "parse_command line (totalFrames (loop_control h)) = Accept (act, frame)"
      "act = Pause \<Longrightarrow> playbackState (room_state (loop_room h)) = Playing"
      "act = Seek \<Longrightarrow> playbackState (room_state (loop_room h)) \<noteq> Stopped"
      "room_state (loop_room h') = (room_state (loop_room h))\<lparr>pendingAction :=
        Some (scheduled_action act now frame (room_streamId (room_state (loop_room h))))\<rparr>"
proof -
  obtain answer state session' where r:
    "responseFor line now peer (control_view h) session = (answer, state, session')" by (metis prod_cases3)
  show thesis
  proof (cases answer)
    case (Inl e)
    then show thesis using Same r assms by simp
  next
    case (Inr reply)
    have view: "room (control_view h) = Some (loop_room h)" by (simp add: control_view_def)
    note run = r [unfolded Inr]
    from run view show thesis
    proof (cases rule: responseFor_cases)
      case Same
      then show thesis using that(1) run view assms by auto
    next
      case (Joined device t r')
      then show thesis using that(1) run assms join_state [OF Joined(3)] by auto
    next
      case (Updated input m updated)
      then show thesis using that(1) run assms by auto
    next
      case (Scheduled act frame r')
      note acc = Scheduled(7) [unfolded scheduleAction_accepts]
      have "totalFrames (control_view h) = totalFrames (loop_control h)" by (simp add: control_view_def)
      then show thesis
        using that(2) [of act frame] run assms Scheduled(1,3,5,6,8) acc by auto
    qed
  qed
qed

lemma request_keeps:
  assumes "loop_exec (Request line now peer session) h = h'"
  shows "loop_phase h' = loop_phase h" "loop_frame h' = loop_frame h" "segmentStart h' = segmentStart h"
    "loop_config h' = loop_config h" "playing (loop_control h') = playing (loop_control h)"
    "stream_streamId (loop_control h') = stream_streamId (loop_control h)"
proof -
  obtain answer state session' where r:
    "responseFor line now peer (control_view h) session = (answer, state, session')" by (metis prod_cases3)
  have "playing state = playing (loop_control h) \<and> stream_streamId state = stream_streamId (loop_control h)"
    if "answer = Inr reply" for reply
  proof -
    have view: "room (control_view h) = Some (loop_room h)" by (simp add: control_view_def)
    from r [unfolded that] view have "state = control_view h \<or> (\<exists>r. state = (control_view h)\<lparr>room := Some r\<rparr>)"
      by (cases rule: responseFor_cases) auto
    then show ?thesis by (auto simp: control_view_def)
  qed
  then show "loop_phase h' = loop_phase h" "loop_frame h' = loop_frame h" "segmentStart h' = segmentStart h"
    "loop_config h' = loop_config h" "playing (loop_control h') = playing (loop_control h)"
    "stream_streamId (loop_control h') = stream_streamId (loop_control h)"
    using r assms by (auto split: sum.splits option.splits)
qed


lemma takeAction_eq:
  "takeAction r = (pendingAction (room_state r), r\<lparr>room_state := (room_state r)\<lparr>pendingAction := None,
     recentAction := (if pendingAction (room_state r) = None then recentAction (room_state r)
                      else pendingAction (room_state r))\<rparr>\<rparr>)"
  by (simp add: takeAction_def Let_def)

lemma snapshot_state [simp]:
  "room_streamId (snapshot r) = room_streamId (room_state r)"
  "pendingAction (snapshot r) = pendingAction (room_state r)"
  "playbackState (snapshot r) = playbackState (room_state r)"
  by (simp_all add: snapshot_def)

section \<open>The phases and the room\<close>

inductive loop_reachable :: "HostLoop \<Rightarrow> bool" where
  start: "Room_new ident name host sid stream = Inr r \<Longrightarrow> \<not> playing state \<Longrightarrow>
    host_start state r c now = Inr h \<Longrightarrow> loop_reachable h"
| step: "loop_reachable h \<Longrightarrow> loop_reachable (loop_exec e h)"

text \<open>
  An action carries a stream other than zero; a seek carries the stream after the current one, or
  the current one.
\<close>

definition action_stream_ok :: "u32 \<Rightarrow> ScheduledRoomAction \<Rightarrow> bool" where
  "action_stream_ok current a \<longleftrightarrow> nextStreamId a \<noteq> 0 \<and>
     (action a = Seek \<longrightarrow> nextStreamId a = next_stream current \<or> nextStreamId a = current)"

fun phase_ok :: "host_phase \<Rightarrow> RoomPlaybackState \<Rightarrow> bool \<Rightarrow> u32 \<Rightarrow> u32 \<Rightarrow> bool" where
  "phase_ok Opened s p room_stream config_stream \<longleftrightarrow> config_stream = room_stream"
| "phase_ok Streaming s p room_stream config_stream \<longleftrightarrow>
     s = Playing \<and> p \<and> config_stream = room_stream"
| "phase_ok (Taken a) s p room_stream config_stream \<longleftrightarrow>
     s = Playing \<and> p \<and> config_stream = room_stream \<and> action_stream_ok room_stream a"
| "phase_ok Waiting s p room_stream config_stream \<longleftrightarrow> s = Paused \<and> \<not> p"
| "phase_ok (Seeking a) s p room_stream config_stream \<longleftrightarrow>
     s = Paused \<and> \<not> p \<and> action a = Seek \<and> action_stream_ok room_stream a"
| "phase_ok (Finished b) s p room_stream config_stream \<longleftrightarrow> s = Stopped \<and> \<not> p"
| "phase_ok _ s p room_stream config_stream \<longleftrightarrow> True"

text \<open>An action scheduled while another is being carried out was scheduled on the current stream.\<close>

fun pending_ok :: "host_phase \<Rightarrow> u32 \<Rightarrow> ScheduledRoomAction \<Rightarrow> bool" where
  "pending_ok (Taken c) current a \<longleftrightarrow> nextStreamId a \<noteq> 0 \<and> (action a = Seek \<longrightarrow> nextStreamId a = next_stream current)"
| "pending_ok (Seeking c) current a \<longleftrightarrow> nextStreamId a \<noteq> 0 \<and> (action a = Seek \<longrightarrow> nextStreamId a = next_stream current)"
| "pending_ok _ current a \<longleftrightarrow> action_stream_ok current a"

definition loop_ok :: "HostLoop \<Rightarrow> bool" where
  "loop_ok h \<longleftrightarrow> room_streamId (room_state (loop_room h)) \<noteq> 0 \<and>
     (\<forall>a. pendingAction (room_state (loop_room h)) = Some a \<longrightarrow>
        pending_ok (loop_phase h) (room_streamId (room_state (loop_room h))) a) \<and>
     phase_ok (loop_phase h) (playbackState (room_state (loop_room h))) (playing (loop_control h))
       (room_streamId (room_state (loop_room h))) (config_streamId (loop_config h))"

lemma scheduled_pending_ok: "s \<noteq> 0 \<Longrightarrow> pending_ok ph s (scheduled_action act now frame s)"
  by (cases ph) (simp_all add: action_stream_ok_def scheduled_action_def next_stream_def)

lemma pending_ok_weaken: "pending_ok ph s a \<Longrightarrow> action_stream_ok s a"
  by (cases ph) (simp_all add: action_stream_ok_def)

lemma request_loop_ok:
  assumes "loop_ok h"
  shows "loop_ok (loop_exec (Request line now peer session) h)"
proof -
  have "loop_ok h'" if run: "loop_exec (Request line now peer session) h = h'" for h'
    using run
  proof (cases rule: request_cases)
    case Same
    then show ?thesis using assms request_keeps [OF run] by (simp add: loop_ok_def)
  next
    case (Scheduled act frame)
    then show ?thesis using assms request_keeps [OF run] scheduled_pending_ok by (simp add: loop_ok_def)
  qed
  then show ?thesis by blast
qed

lemma open_ok: "loop_ok h \<Longrightarrow> loop_phase h = Preparing \<Longrightarrow> loop_ok (open_segment i h)"
  by (cases "playResult i") (simp_all add: loop_ok_def open_segment_def loop_fail_def Let_def)

lemma announce_ok: "loop_ok h \<Longrightarrow> loop_phase h = Opened \<Longrightarrow> loop_ok (announce_segment h)"
  by (cases "DesktopNetworkHost_new (loop_config h)")
    (simp_all add: loop_ok_def announce_segment_def loop_fail_def Let_def setPlaybackState_def)

lemma stream_ok: "loop_ok h \<Longrightarrow> loop_phase h = Streaming \<Longrightarrow> loop_ok (stream_segment i h)"
  by (cases "streamResult i"; cases "pendingAction (room_state (loop_room h))")
    (simp_all add: loop_ok_def stream_segment_def loop_fail_def Let_def takeAction_eq)

lemma carry_out_ok:
  "loop_ok h \<Longrightarrow> loop_phase h = Taken c \<Longrightarrow> carry_out c h = Inr h' \<Longrightarrow> loop_ok h'"
  by (cases "action c")
    (auto simp: loop_ok_def carry_out_def Let_def setPlaybackState_def setStreamId_def
      action_stream_ok_def next_stream_nonzero split: if_splits)

lemma apply_ok: "loop_ok h \<Longrightarrow> loop_phase h = Taken c \<Longrightarrow> loop_ok (apply_command i c h)"
proof -
  assume ok: "loop_ok h" and c: "loop_phase h = Taken c"
  have failed: "loop_ok (h\<lparr>loop_phase := Failed e\<rparr>)" for e
    using ok pending_ok_weaken by (auto simp: loop_ok_def)
  show ?thesis
    using failed carry_out_ok [OF ok c]
    by (auto simp: apply_command_def loop_fail_def split: sum.split simp: and_then_def)
qed

lemma poll_ok: "loop_ok h \<Longrightarrow> loop_phase h = Waiting \<Longrightarrow> loop_ok (poll_paused h)"
  by (cases "pendingAction (room_state (loop_room h))"; cases "action (the (pendingAction (room_state (loop_room h))))")
    (simp_all add: loop_ok_def poll_paused_def takeAction_eq)

lemma seek_ok: "loop_ok h \<Longrightarrow> loop_phase h = Seeking c \<Longrightarrow> loop_ok (seek_paused c h)"
  by (auto simp: loop_ok_def seek_paused_def Let_def loop_fail_def setStreamId_def action_stream_ok_def
      next_stream_nonzero)

lemma end_ok: "loop_ok h \<Longrightarrow> loop_ok (end_loop b h)"
  using pending_ok_weaken by (auto simp: loop_ok_def end_loop_def setPlaybackState_def)

lemma loop_exec_ok: "loop_ok h \<Longrightarrow> loop_ok (loop_exec e h)"
  by (cases e; cases "loop_phase h")
    (simp_all add: request_loop_ok loop_turn_def open_ok announce_ok stream_ok apply_ok poll_ok seek_ok
      end_ok del: loop_exec.simps(2))

lemma loop_reachable_ok: "loop_reachable h \<Longrightarrow> loop_ok h"
proof (induction rule: loop_reachable.induct)
  case (start ident name host sid stream r state c now h)
  then show ?case
    by (auto simp: Room_new_def host_start_def res_simps loop_ok_def split: if_splits)
qed (rule loop_exec_ok)


section \<open>Theorems\<close>

text \<open>
  C29. In every run of the host, whatever requests arrive between its steps, the room tells the truth:
  while a segment is streamed the room and the flag say so and the packets carry the room's stream,
  while the host waits in a pause the room is paused, after the end it is stopped, and no action
  that is pending or being carried out names the stream zero, which the room would refuse.
\<close>

theorem host_phases_match_room:
  assumes "loop_reachable h"
  shows "let s = room_state (loop_room h); phase = loop_phase h in
    (phase = Streaming \<longrightarrow> playbackState s = Playing \<and> playing (loop_control h) \<and>
       config_streamId (loop_config h) = room_streamId s) \<and>
    (phase = Waiting \<longrightarrow> playbackState s = Paused \<and> \<not> playing (loop_control h)) \<and>
    (\<forall>b. phase = Finished b \<longrightarrow> playbackState s = Stopped \<and> \<not> playing (loop_control h)) \<and>
    (\<forall>c. phase = Taken c \<or> phase = Seeking c \<longrightarrow> nextStreamId c \<noteq> 0) \<and>
    (\<forall>a. pendingAction s = Some a \<longrightarrow> nextStreamId a \<noteq> 0) \<and> room_streamId s \<noteq> 0"
  using loop_reachable_ok [OF assms] pending_ok_weaken
  by (auto simp: loop_ok_def action_stream_ok_def Let_def)

definition example_loop :: HostLoop where
  "example_loop = \<lparr>loop_control = example_control, loop_room = example_room, loop_config = example_host,
     loop_phase = Preparing, loop_frame = 0, segmentStart = 500000000, loop_stats = HostStats_new\<rparr>"

lemma example_loop_reachable: "loop_reachable example_loop"
proof (rule loop_reachable.start [OF example_room_new])
  show "\<not> playing example_control" by (simp add: example_control_def)
  show "host_start example_control example_room example_host 0 = Inr example_loop"
    by (simp add: host_start_def example_loop_def example_host_def in_nanoseconds_def in_int64_def)
qed

text \<open>All calls succeed; a segment ends for a command at frame 960.\<close>

definition smooth :: loop_input where
  "smooth = \<lparr>playResult = Inr (), streamResult = Inr (HostStats_new\<lparr>lastFrame := 960, endedForCommand := True\<rparr>),
     stopResult = Inr ()\<rparr>"

lemma smooth_simps [simp]:
  "playResult smooth = Inr ()" "stopResult smooth = Inr ()"
  "streamResult smooth = Inr (HostStats_new\<lparr>lastFrame := 960, endedForCommand := True\<rparr>)"
  by (simp_all add: smooth_def)

theorem host_phases_match_room_witness:
  "playbackState (room_state (loop_room (loop_run [Turn smooth, Turn smooth] example_loop))) = Playing \<and>
   loop_phase (loop_run [Turn smooth, Turn smooth] example_loop) = Streaming"
proof -
  let ?h = "loop_run [Turn smooth, Turn smooth] example_loop"
  have "loop_reachable ?h"
    unfolding loop_run_def by (simp add: loop_reachable.step example_loop_reachable del: loop_exec.simps)
  moreover have "loop_phase ?h = Streaming"
    by (simp add: loop_run_def loop_turn_def example_loop_def open_segment_def announce_segment_def
        loop_fail_def Let_def DesktopNetworkHost_new_def example_host_def example_room_def)
  ultimately show ?thesis using host_phases_match_room [of ?h] by (simp add: Let_def)
qed

text \<open>A local command line, in terms of the host's state.\<close>

lemma responseFor_command:
  assumes "command_line line"
  shows "responseFor line now peer state session =
    (fst (respond_command line now peer state), snd (respond_command line now peer state), session)"
proof -
  consider (play) "line = ''PLAY''" | (pause) "line = ''PAUSE''" | (stop) "line = ''STOP''"
    | (seek) rest where "line = ''SEEK '' @ rest"
    using assms unfolding command_line_def starts_with_iff by blast
  then show ?thesis
    by cases (simp_all add: responseFor_def starts_with_def split_beta)
qed

lemma command_request:
  assumes "command_line line"
    and "respond_command line now ''127.0.0.1'' (control_view h) = (Inr answer, state)" "room state = Some r"
  shows "loop_exec (Request line now ''127.0.0.1'' session) h = h\<lparr>loop_control := state, loop_room := r\<rparr>"
  by (simp add: responseFor_command [OF assms(1)] assms(2,3))

lemma local_request:
  assumes "command_line line" "parse_command line (totalFrames (loop_control h)) = Accept (act, frame)"
    and "\<not> (act = Play \<and> playbackState (room_state (loop_room h)) = Playing \<or>
      act = Pause \<and> playbackState (room_state (loop_room h)) \<noteq> Playing \<or>
      act = Seek \<and> playbackState (room_state (loop_room h)) = Stopped)"
    and "pendingAction (room_state (loop_room h)) = None" "room_streamId (room_state (loop_room h)) \<noteq> 0"
    "now + 2000000000 > 0"
  shows "\<exists>state r. loop_exec (Request line now ''127.0.0.1'' session) h =
      h\<lparr>loop_control := state, loop_room := r\<rparr> \<and> playing state = playing (loop_control h) \<and>
    totalFrames state = totalFrames (loop_control h) \<and> room_state r = (room_state (loop_room h))\<lparr>pendingAction :=
      Some (scheduled_action act now frame (room_streamId (room_state (loop_room h))))\<rparr>"
proof -
  let ?a = "scheduled_action act now frame (room_streamId (room_state (loop_room h)))"
  let ?r = "(loop_room h)\<lparr>room_state := (room_state (loop_room h))\<lparr>pendingAction := Some ?a\<rparr>\<rparr>"
  let ?s = "(control_view h)\<lparr>room := Some ?r\<rparr>"
  have a: "effectiveHostNanoseconds ?a > 0" "nextStreamId ?a \<noteq> 0"
    using assms(5,6) by (simp_all add: scheduled_action_def)
  then have sched: "scheduleAction ?a (loop_room h) = Inr (True, ?r)" using assms(4) by (simp add: scheduleAction_def)
  have view: "room (control_view h) = Some (loop_room h)" "totalFrames (control_view h) = totalFrames (loop_control h)"
    by (simp_all add: control_view_def)
  have "\<exists>answer. respond_command line now ''127.0.0.1'' (control_view h) = (Inr answer, ?s)"
    using assms(2,3) sched
    by (cases act) (simp_all add: respond_command_def view Let_def scheduled_action_def)
  then obtain answer where "respond_command line now ''127.0.0.1'' (control_view h) = (Inr answer, ?s)" by blast
  then have "loop_exec (Request line now ''127.0.0.1'' session) h = h\<lparr>loop_control := ?s, loop_room := ?r\<rparr>"
    by (rule command_request [OF assms(1)]) simp
  moreover have "playing ?s = playing (loop_control h)" "totalFrames ?s = totalFrames (loop_control h)"
    by (simp_all add: control_view_def)
  moreover have "room_state ?r = (room_state (loop_room h))\<lparr>pendingAction := Some ?a\<rparr>" by simp
  ultimately show ?thesis by blast
qed

lemma command_lines [simp]: "command_line ''PLAY''" "command_line ''PAUSE''" "command_line ''STOP''"
    "command_line (''SEEK '' @ n)"
  by (simp_all add: command_line_def starts_with_def)

lemma parse_commands [simp]:
  "parse_command ''PAUSE'' n = Accept (Pause, 0)" "parse_command ''STOP'' n = Accept (Stop, 0)"
  "parse_command ''PLAY'' n = Accept (Play, 0)"
  by (simp_all add: parse_command_def starts_with_def)

text \<open>
  C30. A second pause wedges the host: once it polls in a pause with another pause pending (which the
  room accepts between the moment the first is taken and the moment the room is marked paused), no
  step of its own and no request of anyone changes the phase or the room's state again, and every
  command is refused.
\<close>

theorem second_pause_wedges_host:
  assumes "loop_phase h = Waiting" "pendingAction (room_state (loop_room h)) = Some a" "action a = Pause"
  shows "loop_phase (loop_run es h) = Waiting \<and>
    room_state (loop_room (loop_run es h)) = room_state (loop_room h) \<and>
    (\<forall>line now peer. snd (respond_command line now peer (control_view (loop_run es h))) =
       control_view (loop_run es h))"
proof -
  have one: "loop_phase (loop_exec e g) = Waiting \<and> room_state (loop_room (loop_exec e g)) = room_state (loop_room g)"
    if g: "loop_phase g = Waiting" "pendingAction (room_state (loop_room g)) = Some a" for e g
  proof (cases e)
    case (Turn i)
    then show ?thesis using g assms(3) by (simp add: loop_turn_def poll_paused_def)
  next
    case (Request line now peer session)
    have run: "loop_exec (Request line now peer session) g = loop_exec e g" by (simp only: Request)
    then show ?thesis
      by (cases rule: request_cases) (use g request_keeps [OF run] in simp_all)
  qed
  have many: "loop_phase (loop_run es g) = Waiting \<and> room_state (loop_room (loop_run es g)) = room_state (loop_room g)"
    if "loop_phase g = Waiting" "pendingAction (room_state (loop_room g)) = Some a" for g
    using that
  proof (induction es arbitrary: g)
    case (Cons e es)
    then show ?case using one [of g e] Cons.IH [of "loop_exec e g"] by (simp add: loop_run_def)
  qed (simp add: loop_run_def)
  have "snd (respond_command line now peer (control_view g)) = control_view g"
    if g: "pendingAction (room_state (loop_room g)) = Some a" for line now peer g
  proof -
    have view: "room (control_view g) = Some (loop_room g)" by (simp add: control_view_def)
    obtain answer state where r: "respond_command line now peer (control_view g) = (answer, state)" by fastforce
    from r view show ?thesis
      by (cases rule: respond_command_cases) (use g r in \<open>simp_all add: scheduleAction_accepts\<close>)
  qed
  then show ?thesis using many [OF assms(1,2)] assms(2) by simp
qed


text \<open>How the host gets there: the second request arrives while the first is being carried out.\<close>

definition first_pause :: "host_event list" where
  "first_pause = [Turn smooth, Turn smooth, Request ''PAUSE'' 5 ''127.0.0.1'' new_session, Turn smooth]"

definition double_pause :: "host_event list" where
  "double_pause = first_pause @ [Request ''PAUSE'' 6 ''127.0.0.1'' new_session, Turn smooth]"

lemma loop_run_append: "loop_run (es @ fs) h = loop_run fs (loop_run es h)"
  by (simp add: loop_run_def)

lemma loop_run_Cons: "loop_run (e # es) h = loop_run es (loop_exec e h)"
  by (simp add: loop_run_def)

lemma loop_run_Nil [simp]: "loop_run [] h = h"
  by (simp add: loop_run_def)

lemma loop_run_reachable: "loop_reachable h \<Longrightarrow> loop_reachable (loop_run es h)"
  by (induction es arbitrary: h) (simp_all add: loop_run_Cons loop_reachable.step del: loop_exec.simps)

lemma example_streaming:
  "\<exists>c r. loop_run [Turn smooth, Turn smooth] example_loop = example_loop\<lparr>loop_control := c, loop_room := r,
      loop_phase := Streaming\<rparr> \<and> room_state r = (room_state example_room)\<lparr>playbackState := Playing\<rparr> \<and>
      totalFrames c = 1000"
  by (simp add: loop_run_def loop_turn_def example_loop_def open_segment_def announce_segment_def
      loop_fail_def Let_def DesktopNetworkHost_new_def example_host_def example_room_def
      setPlaybackState_def example_control_def)

lemma example_room_fields [simp]:
  "playbackState (room_state example_room) = Stopped" "pendingAction (room_state example_room) = None"
  "room_streamId (room_state example_room) = 1"
  by (simp_all add: example_room_def)

lemma stream_turn:
  assumes "loop_phase h = Streaming" "pendingAction (room_state (loop_room h)) = Some a"
  shows "\<exists>st r. loop_turn smooth h = h\<lparr>loop_stats := st, loop_frame := 960, loop_room := r, loop_phase := Taken a\<rparr> \<and>
    room_state r = (room_state (loop_room h))\<lparr>pendingAction := None, recentAction := Some a\<rparr>"
proof -
  let ?r = "(loop_room h)\<lparr>room_state := (room_state (loop_room h))\<lparr>pendingAction := None, recentAction := Some a\<rparr>\<rparr>"
  have "loop_turn smooth h = h\<lparr>loop_stats := add_stats (loop_stats h)
      (HostStats_new\<lparr>lastFrame := 960, endedForCommand := True\<rparr>),
    loop_frame := 960, loop_room := ?r, loop_phase := Taken a\<rparr>"
    using assms
    by (simp add: loop_turn_def stream_segment_def loop_fail_def takeAction_eq HostStats_new_def Let_def)
  moreover have "room_state ?r = (room_state (loop_room h))\<lparr>pendingAction := None, recentAction := Some a\<rparr>"
    by simp
  ultimately show ?thesis by blast
qed

lemma pause_turn:
  assumes "loop_phase h = Taken c" "action c = Pause" "loop_config h = example_host"
    "effectiveHostNanoseconds c = 2000000005"
  shows "loop_phase (loop_turn smooth h) = Waiting"
    "room_state (loop_room (loop_turn smooth h)) = (room_state (loop_room h))\<lparr>playbackState := Paused\<rparr>"
    "loop_config (loop_turn smooth h) = example_host"
    "totalFrames (loop_control (loop_turn smooth h)) = totalFrames (loop_control h)"
    "loop_frame (loop_turn smooth h) = loop_frame h"
  using assms
  by (simp_all add: loop_turn_def apply_command_def command_time_def carry_out_def loop_fail_def Let_def
      in_nanoseconds_def in_int64_def setPlaybackState_def example_host_def)

lemma example_taken:
  defines "h \<equiv> loop_run first_pause example_loop"
  shows "loop_phase h = Taken (scheduled_action Pause 5 0 1)" "loop_config h = example_host"
    "totalFrames (loop_control h) = 1000" "pendingAction (room_state (loop_room h)) = None"
    "playbackState (room_state (loop_room h)) = Playing" "room_streamId (room_state (loop_room h)) = 1"
    "loop_frame h = 960"
proof -
  obtain c r where h2: "loop_run [Turn smooth, Turn smooth] example_loop = example_loop\<lparr>loop_control := c,
      loop_room := r, loop_phase := Streaming\<rparr>" "room_state r = (room_state example_room)\<lparr>playbackState := Playing\<rparr>"
      "totalFrames c = 1000"
    using example_streaming by blast
  let ?h2 = "example_loop\<lparr>loop_control := c, loop_room := r, loop_phase := Streaming\<rparr>"
  let ?a = "scheduled_action Pause 5 0 1"
  obtain c3 r3 where h3: "loop_exec (Request ''PAUSE'' 5 ''127.0.0.1'' new_session) ?h2 =
      ?h2\<lparr>loop_control := c3, loop_room := r3\<rparr>" "room_state r3 = (room_state r)\<lparr>pendingAction := Some ?a\<rparr>"
      "totalFrames c3 = 1000"
    using local_request [of "''PAUSE''" ?h2 Pause 0 5 new_session] h2(2,3) by (auto simp del: loop_exec.simps)
  let ?h3 = "?h2\<lparr>loop_control := c3, loop_room := r3\<rparr>"
  obtain st r4 where h4: "loop_turn smooth ?h3 =
      ?h3\<lparr>loop_stats := st, loop_frame := 960, loop_room := r4, loop_phase := Taken ?a\<rparr>"
      "room_state r4 = (room_state r3)\<lparr>pendingAction := None, recentAction := Some ?a\<rparr>"
    using stream_turn [of ?h3 ?a] h3(2) by auto
  have "h = loop_exec (Turn smooth) (loop_exec (Request ''PAUSE'' 5 ''127.0.0.1'' new_session)
        (loop_run [Turn smooth, Turn smooth] example_loop))"
    by (simp add: h_def loop_run_def first_pause_def del: loop_exec.simps)
  then have h: "h = ?h3\<lparr>loop_stats := st, loop_frame := 960, loop_room := r4, loop_phase := Taken ?a\<rparr>"
    unfolding h2(1) h3(1) loop_exec.simps(1) h4(1) .
  show "loop_phase h = Taken (scheduled_action Pause 5 0 1)" "loop_config h = example_host"
    "totalFrames (loop_control h) = 1000" "pendingAction (room_state (loop_room h)) = None"
    "playbackState (room_state (loop_room h)) = Playing" "room_streamId (room_state (loop_room h)) = 1"
    "loop_frame h = 960"
    by (simp_all add: h h4(2) h3(2,3) h2(2) example_loop_def)
qed

lemma example_wedged:
  "\<exists>a. loop_phase (loop_run double_pause example_loop) = Waiting \<and>
     pendingAction (room_state (loop_room (loop_run double_pause example_loop))) = Some a \<and> action a = Pause"
proof -
  let ?h = "loop_run first_pause example_loop"
  obtain c r where h: "loop_exec (Request ''PAUSE'' 6 ''127.0.0.1'' new_session) ?h =
      ?h\<lparr>loop_control := c, loop_room := r\<rparr>"
      "room_state r = (room_state (loop_room ?h))\<lparr>pendingAction := Some (scheduled_action Pause 6 0 1)\<rparr>"
    using local_request [of "''PAUSE''" ?h Pause 0 6 new_session] example_taken
    by (auto simp del: loop_exec.simps)
  have "loop_run double_pause example_loop = loop_turn smooth (?h\<lparr>loop_control := c, loop_room := r\<rparr>)"
    unfolding double_pause_def loop_run_append loop_run_Cons loop_run_Nil h(1) loop_exec.simps(1) ..
  then show ?thesis
    using pause_turn [of "?h\<lparr>loop_control := c, loop_room := r\<rparr>" "scheduled_action Pause 5 0 1"]
      example_taken h(2)
    by (simp add: scheduled_action_def)
qed

theorem second_pause_wedges_host_witness:
  "loop_reachable (loop_run double_pause example_loop) \<and>
   loop_phase (loop_run (replicate 1000 (Turn smooth) @ [Request ''STOP'' 9 ''127.0.0.1'' new_session])
     (loop_run double_pause example_loop)) = Waiting"
proof -
  obtain a where "loop_phase (loop_run double_pause example_loop) = Waiting"
    "pendingAction (room_state (loop_room (loop_run double_pause example_loop))) = Some a" "action a = Pause"
    using example_wedged by blast
  note wedged = second_pause_wedges_host [OF this,
    of "replicate 1000 (Turn smooth) @ [Request ''STOP'' 9 ''127.0.0.1'' new_session]"]
  have "loop_reachable (loop_run double_pause example_loop)"
    by (rule loop_run_reachable [OF example_loop_reachable])
  with wedged show ?thesis by blast
qed

section \<open>Seeking and resuming\<close>

lemma setStreamId_eq:
  "setStreamId s r = (if s = 0 then setStreamId s r else
     Inr (r\<lparr>room_state := (room_state r)\<lparr>room_streamId := s\<rparr>\<rparr>))"
  by (simp add: setStreamId_def)

text \<open>
  C31. A seek that is scheduled while the host carries another seek out names the stream that the first
  one starts, so after the first has been carried out the room already plays the second one's stream,
  and a client, which restarts when the stream changes, cannot tell that the second has happened.
\<close>

theorem second_seek_keeps_stream:
  assumes "loop_phase h = Taken c \<or> loop_phase h = Seeking c" "action c = Seek"
    and "nextStreamId c = next_stream (room_streamId (room_state (loop_room h)))"
    and "pendingAction (room_state (loop_room h)) = None"
    and "loop_exec (Request line now peer session) h = h'"
    and "pendingAction (room_state (loop_room h')) = Some a" "action a = Seek"
    and "\<not> is_failed (loop_phase (loop_turn i h'))"
  shows "pendingAction (room_state (loop_room (loop_turn i h'))) = Some a \<and>
    nextStreamId a = room_streamId (room_state (loop_room (loop_turn i h')))"
proof -
  note phase = request_keeps(1) [OF assms(5)]
  have "nextStreamId a = nextStreamId c \<and>
      room_streamId (room_state (loop_room h')) = room_streamId (room_state (loop_room h))"
    using assms(5)
  proof (cases rule: request_cases)
    case Same
    then show ?thesis using assms(4,6) by simp
  next
    case (Scheduled act frame)
    then show ?thesis using assms(3,6,7) by (auto simp: scheduled_action_def next_stream_def)
  qed
  moreover have "nextStreamId c \<noteq> 0" using assms(3) next_stream_nonzero by simp
  moreover have "loop_phase h' = Taken c \<or> loop_phase h' = Seeking c" using assms(1) phase by simp
  ultimately show ?thesis
    using assms(2,6,8)
    by (auto simp: loop_turn_def apply_command_def seek_paused_def carry_out_def loop_fail_def Let_def
        setStreamId_eq and_then_def split: sum.splits)
qed

text \<open>
  C32. A pause ends where it began: when the host waits in a pause with nothing pending, a local PLAY
  is carried out by the host's next three steps: it streams from the frame it stopped at, under the
  same stream, with the local player set to start exactly at the announced time, two seconds later.
\<close>

theorem play_resumes_where_paused:
  assumes "loop_reachable h" "loop_phase h = Waiting" "pendingAction (room_state (loop_room h)) = None"
    and "now + 2000000000 > 0" "playResult i = Inr ()"
    and "DesktopNetworkHost_new ((loop_config h)\<lparr>config_streamId := room_streamId (room_state (loop_room h))\<rparr>) = Inr c"
  shows "let h' = loop_run [Request ''PLAY'' now ''127.0.0.1'' session, Turn i, Turn i, Turn i] h in
    loop_phase h' = Streaming \<and> loop_frame h' = loop_frame h \<and> segmentStart h' = now + 2000000000 \<and>
    playbackState (room_state (loop_room h')) = Playing \<and> pendingAction (room_state (loop_room h')) = None \<and>
    config_streamId (loop_config h') = room_streamId (room_state (loop_room h))"
proof -
  have ok: "playbackState (room_state (loop_room h)) = Paused" "room_streamId (room_state (loop_room h)) \<noteq> 0"
    using loop_reachable_ok [OF assms(1)] assms(2) by (simp_all add: loop_ok_def)
  let ?a = "scheduled_action Play now 0 (room_streamId (room_state (loop_room h)))"
  obtain s r where h1: "loop_exec (Request ''PLAY'' now ''127.0.0.1'' session) h = h\<lparr>loop_control := s, loop_room := r\<rparr>"
      "room_state r = (room_state (loop_room h))\<lparr>pendingAction := Some ?a\<rparr>"
    using local_request [of "''PLAY''" h Play 0 now session] ok assms(3,4) by (auto simp del: loop_exec.simps)
  let ?h1 = "h\<lparr>loop_control := s, loop_room := r\<rparr>"
  let ?r = "r\<lparr>room_state := (room_state r)\<lparr>pendingAction := None, recentAction := Some ?a\<rparr>\<rparr>"
  let ?h2 = "?h1\<lparr>loop_room := ?r, segmentStart := now + 2000000000, loop_phase := Preparing\<rparr>"
  have h2: "loop_turn i ?h1 = ?h2"
    using assms(2) h1(2) by (simp add: loop_turn_def poll_paused_def takeAction_eq Let_def scheduled_action_def)
  have "loop_run [Request ''PLAY'' now ''127.0.0.1'' session, Turn i, Turn i, Turn i] h =
      loop_turn i (loop_turn i ?h2)"
    unfolding loop_run_Cons loop_run_Nil h1(1) loop_exec.simps(1) h2 ..
  then show ?thesis
    using assms(5,6) h1(2)
    by (simp add: loop_turn_def open_segment_def announce_segment_def loop_fail_def Let_def setPlaybackState_def)
qed

lemma example_paused:
  defines "h \<equiv> loop_run (first_pause @ [Turn smooth]) example_loop"
  shows "loop_phase h = Waiting" "loop_config h = example_host" "totalFrames (loop_control h) = 1000"
    "pendingAction (room_state (loop_room h)) = None" "playbackState (room_state (loop_room h)) = Paused"
    "room_streamId (room_state (loop_room h)) = 1" "loop_frame h = 960" "loop_reachable h"
proof -
  have h: "h = loop_turn smooth (loop_run first_pause example_loop)"
    unfolding h_def loop_run_append loop_run_Cons loop_run_Nil loop_exec.simps(1) ..
  have a: "action (scheduled_action Pause 5 0 1) = Pause"
    "effectiveHostNanoseconds (scheduled_action Pause 5 0 1) = 2000000005"
    by (simp_all add: scheduled_action_def)
  show "loop_phase h = Waiting" "loop_config h = example_host" "totalFrames (loop_control h) = 1000"
    "pendingAction (room_state (loop_room h)) = None" "playbackState (room_state (loop_room h)) = Paused"
    "room_streamId (room_state (loop_room h)) = 1" "loop_frame h = 960"
    using pause_turn [OF example_taken(1) a(1) example_taken(2) a(2)] example_taken by (simp_all add: h)
  show "loop_reachable h" unfolding h_def by (rule loop_run_reachable [OF example_loop_reachable])
qed

theorem play_resumes_where_paused_witness:
  "let h' = loop_run [Request ''PLAY'' 9 ''127.0.0.1'' new_session, Turn smooth, Turn smooth, Turn smooth]
     (loop_run (first_pause @ [Turn smooth]) example_loop) in
   loop_phase h' = Streaming \<and> loop_frame h' = 960 \<and> segmentStart h' = 2000000009"
proof -
  have "DesktopNetworkHost_new (example_host\<lparr>config_streamId := 1\<rparr>) = Inr example_host"
    by (simp add: DesktopNetworkHost_new_def example_host_def)
  then show ?thesis
    using play_resumes_where_paused [of "loop_run (first_pause @ [Turn smooth]) example_loop" 9 smooth _ new_session]
      example_paused by (simp add: Let_def)
qed

lemma parse_seeks [simp]:
  "parse_command ''SEEK 100'' 1000 = Accept (Seek, 100)" "parse_command ''SEEK 200'' 1000 = Accept (Seek, 200)"
proof -
  have "digit_char 0 = CHR ''0''" "digit_char 1 = CHR ''1''" "digit_char 2 = CHR ''2''" by code_simp+
  then have n: "show_nat 100 = ''100''" "show_nat 200 = ''200''" by (simp_all add: show_nat.simps)
  have "parse_u64 ''100'' = Some 100" "parse_u64 ''200'' = Some 200"
    using parse_show_u64 [of 100] parse_show_u64 [of 200] n by simp_all
  then show "parse_command ''SEEK 100'' 1000 = Accept (Seek, 100)" "parse_command ''SEEK 200'' 1000 = Accept (Seek, 200)"
    by (simp_all add: parse_command_def starts_with_def)
qed

definition seek_in_pause :: "host_event list" where
  "seek_in_pause = first_pause @ [Turn smooth, Request ''SEEK 100'' 9 ''127.0.0.1'' new_session, Turn smooth]"

lemma example_seeking:
  defines "h \<equiv> loop_run seek_in_pause example_loop"
  shows "loop_phase h = Seeking (scheduled_action Seek 9 100 1)" "room_streamId (room_state (loop_room h)) = 1"
    "pendingAction (room_state (loop_room h)) = None" "playbackState (room_state (loop_room h)) = Paused"
    "totalFrames (loop_control h) = 1000"
proof -
  let ?h = "loop_run (first_pause @ [Turn smooth]) example_loop"
  let ?a = "scheduled_action Seek 9 100 1"
  have line: "command_line ''SEEK 100''" using command_lines(4) [of "''100''"] by simp
  obtain c r where h: "loop_exec (Request ''SEEK 100'' 9 ''127.0.0.1'' new_session) ?h =
      ?h\<lparr>loop_control := c, loop_room := r\<rparr>" "totalFrames c = 1000"
      "room_state r = (room_state (loop_room ?h))\<lparr>pendingAction := Some ?a\<rparr>"
    using local_request [OF line, of ?h Seek 100 9 new_session] example_paused
    by (auto simp del: loop_exec.simps)
  have "loop_run seek_in_pause example_loop =
      loop_run [Request ''SEEK 100'' 9 ''127.0.0.1'' new_session, Turn smooth] ?h"
    by (simp add: seek_in_pause_def loop_run_def del: loop_exec.simps)
  then have "h = loop_turn smooth (?h\<lparr>loop_control := c, loop_room := r\<rparr>)"
    unfolding h_def loop_run_Cons loop_run_Nil h(1) loop_exec.simps(1) .
  then show "loop_phase h = Seeking ?a" "room_streamId (room_state (loop_room h)) = 1"
    "pendingAction (room_state (loop_room h)) = None" "playbackState (room_state (loop_room h)) = Paused"
    "totalFrames (loop_control h) = 1000"
    using h(2,3) example_paused
    by (simp_all add: loop_turn_def poll_paused_def takeAction_eq Let_def scheduled_action_def)
qed

theorem second_seek_keeps_stream_witness:
  "let h = loop_run (seek_in_pause @ [Request ''SEEK 200'' 10 ''127.0.0.1'' new_session, Turn smooth]) example_loop in
   \<exists>a. pendingAction (room_state (loop_room h)) = Some a \<and> nextStreamId a = room_streamId (room_state (loop_room h))"
proof -
  let ?h = "loop_run seek_in_pause example_loop"
  let ?a = "scheduled_action Seek 10 200 1"
  have line: "command_line ''SEEK 200''" using command_lines(4) [of "''200''"] by simp
  obtain c r where h: "loop_exec (Request ''SEEK 200'' 10 ''127.0.0.1'' new_session) ?h =
      ?h\<lparr>loop_control := c, loop_room := r\<rparr>"
      "room_state r = (room_state (loop_room ?h))\<lparr>pendingAction := Some ?a\<rparr>"
    using local_request [OF line, of ?h Seek 200 10 new_session] example_seeking
    by (auto simp del: loop_exec.simps)
  let ?h' = "?h\<lparr>loop_control := c, loop_room := r\<rparr>"
  have run: "loop_run (seek_in_pause @ [Request ''SEEK 200'' 10 ''127.0.0.1'' new_session, Turn smooth]) example_loop =
      loop_turn smooth ?h'"
    unfolding loop_run_append loop_run_Cons loop_run_Nil h(1) loop_exec.simps(1) ..
  have "\<not> is_failed (loop_phase (loop_turn smooth ?h'))"
    using example_seeking(1)
    by (simp add: loop_turn_def seek_paused_def loop_fail_def setStreamId_def scheduled_action_def Let_def)
  then have "nextStreamId ?a = room_streamId (room_state (loop_room (loop_turn smooth ?h'))) \<and>
      pendingAction (room_state (loop_room (loop_turn smooth ?h'))) = Some ?a"
    using second_seek_keeps_stream [of ?h "scheduled_action Seek 9 100 1", OF _ _ _ _ h(1), of ?a smooth]
      example_seeking h(2) by (simp add: scheduled_action_def next_stream_def)
  then show ?thesis unfolding run Let_def by blast
qed

end
