(* ===== verification/Audio_Client.thy ===== *)
theory Audio_Client
  imports Clock_Sync Drift_Correction Output_Latency Packet_Receiver Stream_Player
begin

text \<open>
  The client's main thread, class \<open>DesktopAudioClient\<close> of \<open>desktop/src/DesktopAudioClient.cpp\<close>: from
  the first clock measurement over the choice of the packet to start with to the loop that steers the
  playback rate, and the statistics at the end. The receiver thread and the audio callback run beside
  it (\<open>Packet_Receiver\<close>, \<open>Stream_Player\<close>); what the main thread reads of their objects and of the
  clocks comes as an argument of each step. Doubles are rationals rounded after every operation.
\<close>

section \<open>Setting up\<close>

definition DesktopAudioClient_new :: "DesktopAudioClientConfig \<Rightarrow> exn + DesktopAudioClientConfig" where
  "DesktopAudioClient_new c =
     (if audioPort c = 0 \<or> clockSyncPort c = 0 \<or> playbackDelay c < 0 \<or> startupLead c \<le> 0 \<or>
         outputLatencyAdjustment c < - 1000 \<or> outputLatencyAdjustment c > 1000
      then Inl (Invalid_Argument ''Desktop audio client configuration is invalid'')
      else Inr c)"

definition first_estimator :: "ClockSyncEstimate \<Rightarrow> exn + DriftEstimator" where
  "first_estimator est =
     addSample (clientSampleTimestampNanoseconds est) (hostMinusClientOffset est) DriftEstimator_new"

text \<open>
  A round of one of the two waits: the clock read at the loop head, what the receiver has failed with.
  The waits give up at their deadline; a run that is still waiting after its rounds gives \<open>None\<close>.
\<close>

record poll =
  poll_time :: int
  poll_failure :: "exn option"

definition rethrow :: "exn option \<Rightarrow> exn + unit" where
  "rethrow f = (case f of Some e \<Rightarrow> Inl e | None \<Rightarrow> Inr ())"

fun await_format ::
    "int \<Rightarrow> (poll \<times> JitterBufferFormat option) list \<Rightarrow> exn + JitterBufferFormat option" where
  "await_format deadline [] = Inr None"
| "await_format deadline ((q, f) # qs) =
     (if \<not> poll_time q < deadline then Inl (Runtime_Error ''Audio stream format is unavailable'')
      else and_then (rethrow (poll_failure q)) (\<lambda>_.
        case f of Some f \<Rightarrow> Inr (Some f) | None \<Rightarrow> await_format deadline qs))"

definition output_correction :: "string \<Rightarrow> DesktopAudioClientConfig \<Rightarrow> exn + int" where
  "output_correction route c =
     and_then (in_nanoseconds (outputLatencyAdjustment c)) (\<lambda>adjustment.
       effectiveLatency \<lparr>outputRouteId = route, outputRouteType = UnknownRoute,
         calibrationConfidence = Manual, systemEstimate = 0, manualAdjustment = adjustment\<rparr>)"

section \<open>The start packet\<close>

text \<open>\<open>static_cast<std::int64_t>\<close> of a double: towards zero, undefined when it does not fit.\<close>

definition cast_int64 :: "rat \<Rightarrow> exn + int" where
  "cast_int64 x = signed64 (if 0 \<le> x then \<lfloor>x\<rfloor> else \<lceil>x\<rceil>)"

definition host_threshold ::
    "DesktopAudioClientConfig \<Rightarrow> DriftEstimator \<Rightarrow> int \<Rightarrow> int \<Rightarrow> exn + int" where
  "host_threshold c e correction now =
     and_then (in_nanoseconds (startupLead c)) (\<lambda>lead.
     and_then (signed64 (now + lead)) (\<lambda>clientThreshold.
     and_then (offsetNanosecondsAt clientThreshold e) (\<lambda>offset.
     and_then (cast_int64 offset) (\<lambda>offset.
     and_then (signed64 (clientThreshold + offset)) (\<lambda>t.
     and_then (in_nanoseconds (playbackDelay c)) (\<lambda>delay.
     and_then (signed64 (t - delay)) (\<lambda>t. signed64 (t + correction))))))))"

text \<open>A round of the selection also reads the clock again and the buffer.\<close>

definition select_packet ::
    "DesktopAudioClientConfig \<Rightarrow> DriftEstimator \<Rightarrow> int \<Rightarrow> int \<Rightarrow> JitterBuffer \<Rightarrow>
     exn + BufferedPacketTiming option" where
  "select_packet c e correction now b =
     and_then (host_threshold c e correction now) (\<lambda>threshold.
       Inr (if threshold \<ge> 0 then firstPacketAtOrAfter (word_of_int threshold) b else None))"

fun await_packet ::
    "DesktopAudioClientConfig \<Rightarrow> DriftEstimator \<Rightarrow> int \<Rightarrow> int \<Rightarrow>
     (poll \<times> int \<times> JitterBuffer) list \<Rightarrow> exn + BufferedPacketTiming option" where
  "await_packet c e correction deadline [] = Inr None"
| "await_packet c e correction deadline ((q, now, b) # qs) =
     (if \<not> poll_time q < deadline
      then Inl (Runtime_Error ''No schedulable audio packet arrived from the host'')
      else and_then (rethrow (poll_failure q)) (\<lambda>_.
        and_then (select_packet c e correction now b) (\<lambda>found.
          case found of Some t \<Rightarrow> Inr (Some t) | None \<Rightarrow> await_packet c e correction deadline qs)))"

definition local_presentation ::
    "DesktopAudioClientConfig \<Rightarrow> DriftEstimator \<Rightarrow> int \<Rightarrow> BufferedPacketTiming \<Rightarrow> int \<Rightarrow> exn + int" where
  "local_presentation c e correction packet now =
     and_then (offsetNanosecondsAt now e) (\<lambda>offset.
     and_then (cast_int64 offset) (\<lambda>offset.
     and_then (signed64 (sint (timing_presentation packet) - offset)) (\<lambda>t.
     and_then (in_nanoseconds (playbackDelay c)) (\<lambda>delay.
     and_then (signed64 (t + delay)) (\<lambda>t.
     and_then (signed64 (t - correction)) (\<lambda>t.
       if t < 0 then Inl (Runtime_Error ''Translated client presentation time is invalid'')
       else Inr t))))))"

text \<open>\<open>player.schedule\<close> and \<open>player.start\<close>.\<close>

definition start_playback ::
    "BufferedPacketTiming \<Rightarrow> int \<Rightarrow> string option \<Rightarrow> ScheduledStreamPlayer \<Rightarrow> exn + ScheduledStreamPlayer" where
  "start_playback packet time deviceError p =
     (let p = schedule (timing_startFrame packet) time p in
      and_then (start_player deviceError p) (\<lambda>_. Inr p))"

section \<open>The loop\<close>

record ClientLoop =
  client_config :: DesktopAudioClientConfig
  client_format :: JitterBufferFormat
  outputCorrection :: int
  startPacket :: BufferedPacketTiming
  estimator :: DriftEstimator
  latestEstimate :: ClockSyncEstimate
  peakDepthFrames :: u64
  bufferErrorMilliseconds :: rat
  nextClockMeasurement :: int
  askedRatio :: rat

text \<open>What one turn reads: each field is one access to the clock, the receiver, the player or the buffer.\<close>

record turn_reads =
  seenFailure :: "exn option"
  seenRouteChange :: bool
  measureTime :: int
  measured :: "exn + ClockSyncEstimate"
  afterMeasure :: int
  seenFrame :: u64
  seenStarted :: bool
  steerTime :: int
  seenDepth :: u64
  seenLastPacket :: int
  stillStarted :: bool
  endTime :: int
  seenLatestEnd :: u64

text \<open>Adding five seconds to a clock reading.\<close>

definition next_measurement :: "int \<Rightarrow> exn + int" where
  "next_measurement now = signed64 (now + 5000000000)"

definition take_measurement :: "exn + ClockSyncEstimate \<Rightarrow> ClientLoop \<Rightarrow> exn + ClientLoop" where
  "take_measurement m c =
     (case (case m of Inl e \<Rightarrow> (c, Inl e)
            | Inr est \<Rightarrow>
                (let c = c\<lparr>latestEstimate := est\<rparr> in
                 (case addSample (clientSampleTimestampNanoseconds est) (hostMinusClientOffset est)
                     (estimator c) of
                    Inl e \<Rightarrow> (c, Inl e)
                  | Inr e \<Rightarrow> (c\<lparr>estimator := e\<rparr>, Inr ())))) of
        (c, Inr _) \<Rightarrow> Inr c
      | (c, Inl (Runtime_Error _)) \<Rightarrow> Inr c
      | (c, Inl (Overflow_Error _)) \<Rightarrow> Inr c
      | (c, Inl e) \<Rightarrow> Inl e)"

definition keep_clock :: "turn_reads \<Rightarrow> ClientLoop \<Rightarrow> exn + ClientLoop" where
  "keep_clock i c =
     (if measureTime i \<ge> nextClockMeasurement c
      then and_then (take_measurement (measured i) c) (\<lambda>c.
        and_then (next_measurement (afterMeasure i)) (\<lambda>t. Inr (c\<lparr>nextClockMeasurement := t\<rparr>)))
      else Inr c)"

definition desired_frame :: "int \<Rightarrow> ClientLoop \<Rightarrow> exn + rat" where
  "desired_frame clientNow c =
     and_then (offsetNanosecondsAt clientNow (estimator c)) (\<lambda>offset.
     and_then (in_nanoseconds (playbackDelay (client_config c))) (\<lambda>delay.
       let hostNow = dbl (dbl (of_int clientNow) + offset);
           elapsed = dbl (hostNow - dbl (of_nat (unat (timing_presentation (startPacket c)))));
           elapsed = dbl (elapsed - dbl (of_int delay));
           elapsed = dbl (elapsed + dbl (of_int (outputCorrection c)));
           frames = dbl (dbl (elapsed * of_nat (unat (format_sampleRate (client_format c)))) / 1000000000) in
       Inr (dbl (dbl (of_nat (unat (timing_startFrame (startPacket c)))) + frames))))"

definition buffer_error :: "rat \<Rightarrow> u64 \<Rightarrow> ClientLoop \<Rightarrow> rat" where
  "buffer_error desired currentFrame c =
     dbl (dbl (dbl (desired - dbl (of_nat (unat currentFrame))) * 1000) /
       of_nat (unat (format_sampleRate (client_format c))))"

definition steer :: "turn_reads \<Rightarrow> ClientLoop \<Rightarrow> exn + ClientLoop" where
  "steer i c =
     (if seenStarted i
      then and_then (desired_frame (steerTime i) c) (\<lambda>desired.
        let err = buffer_error desired (seenFrame i) c in
        Inr (c\<lparr>bufferErrorMilliseconds := err,
          askedRatio := correctionRatio (Finite (estimatedDriftPpm (estimator c))) (Finite err)\<rparr>))
      else Inr c)"

definition stream_over :: "turn_reads \<Rightarrow> exn + bool" where
  "stream_over i =
     (if stillStarted i \<and> seenLastPacket i > 0
      then and_then (signed64 (endTime i - seenLastPacket i)) (\<lambda>silence.
        Inr (silence > 200000000 \<and> seenFrame i \<ge> seenLatestEnd i))
      else Inr False)"

text \<open>A turn: whether the loop ends, and the state after it.\<close>

definition client_turn :: "turn_reads \<Rightarrow> ClientLoop \<Rightarrow> exn + bool \<times> ClientLoop" where
  "client_turn i c =
     and_then (rethrow (seenFailure i)) (\<lambda>_.
     if seenRouteChange i
     then Inl (Runtime_Error
       ''Client output route changed; restart with a calibration for the new route'')
     else
       and_then (keep_clock i c) (\<lambda>c.
       and_then (steer i c) (\<lambda>c.
         let c = c\<lparr>peakDepthFrames := max (peakDepthFrames c) (seenDepth i)\<rparr> in
         and_then (stream_over i) (\<lambda>over. Inr (over, c)))))"

fun client_loop :: "turn_reads list \<Rightarrow> ClientLoop \<Rightarrow> exn + bool \<times> ClientLoop" where
  "client_loop [] c = Inr (False, c)"
| "client_loop (i # is) c =
     and_then (client_turn i c) (\<lambda>(over, c). if over then Inr (True, c) else client_loop is c)"

section \<open>The report\<close>

text \<open>What is read after the player was stopped; the receiver thread still runs.\<close>

record final_reads =
  finalFrame :: u64
  finalEnd :: u64
  finalReceived :: u64
  finalLost :: u64
  finalOutOfOrder :: u64
  finalMetrics :: JitterBufferMetrics
  finalDepth :: u64
  reportTime :: int
  finalPlayer :: ScheduledStreamPlayer

record DesktopAudioClientStats =
  startingFrame :: u64
  finalPlaybackFrame :: u64
  report_received :: u64
  report_lost :: u64
  report_outOfOrder :: u64
  report_metrics :: JitterBufferMetrics
  packetLossPercent :: rat
  finalBufferDepthMilliseconds :: rat
  peakBufferDepthMilliseconds :: rat
  clockOffsetMilliseconds :: rat
  clockRoundTripMilliseconds :: rat
  clockSamples :: u32
  clockMeasurementQuality :: string
  report_driftPpm :: rat
  report_bufferError :: rat
  report_ratio :: rat
  estimatedPlaybackDelayMilliseconds :: rat
  outputLatencyAdjustmentMilliseconds :: rat
  report_route :: string
  report_underruns :: u64

definition loss_percent :: "u64 \<Rightarrow> u64 \<Rightarrow> rat" where
  "loss_percent received lost =
     (let expected = received + lost in
      if expected = 0 then 0
      else dbl (dbl (100 * dbl (of_nat (unat lost))) / dbl (of_nat (unat expected))))"

definition depth_milliseconds :: "u64 \<Rightarrow> u32 \<Rightarrow> rat" where
  "depth_milliseconds frames rate =
     dbl (dbl (1000 * dbl (of_nat (unat frames))) / of_nat (unat rate))"

definition measurement_quality :: "u32 \<Rightarrow> rat \<Rightarrow> string" where
  "measurement_quality n roundTrip =
     (if n \<ge> 6 \<and> roundTrip < 10 then ''Good'' else if n \<ge> 3 then ''Fair'' else ''Poor'')"

definition client_report :: "final_reads \<Rightarrow> ClientLoop \<Rightarrow> exn + DesktopAudioClientStats" where
  "client_report f c =
     and_then (offsetNanosecondsAt (reportTime f) (estimator c)) (\<lambda>offset.
     and_then (estimatedPlaybackDelay (finalPlayer f)) (\<lambda>delay.
       let rate = format_sampleRate (client_format c);
           roundTrip = milliseconds (of_int (roundTripTime (latestEstimate c))) in
       Inr \<lparr>startingFrame = timing_startFrame (startPacket c),
         finalPlaybackFrame = min (finalFrame f) (finalEnd f),
         report_received = finalReceived f, report_lost = finalLost f,
         report_outOfOrder = finalOutOfOrder f, report_metrics = finalMetrics f,
         packetLossPercent = loss_percent (finalReceived f) (finalLost f),
         finalBufferDepthMilliseconds = depth_milliseconds (finalDepth f) rate,
         peakBufferDepthMilliseconds = depth_milliseconds (peakDepthFrames c) rate,
         clockOffsetMilliseconds = dbl (offset / 1000000),
         clockRoundTripMilliseconds = roundTrip,
         clockSamples = samples (latestEstimate c),
         clockMeasurementQuality = measurement_quality (samples (latestEstimate c)) roundTrip,
         report_driftPpm = estimatedDriftPpm (estimator c),
         report_bufferError = bufferErrorMilliseconds c,
         report_ratio = actualRatio (finalPlayer f),
         estimatedPlaybackDelayMilliseconds = milliseconds (of_int delay),
         outputLatencyAdjustmentMilliseconds = milliseconds (of_int (outputCorrection c)),
         report_route = outputRouteName (finalPlayer f),
         report_underruns = underrunFrames (finalPlayer f)\<rparr>))"

section \<open>The clock after one measurement\<close>

definition exact53 :: "int \<Rightarrow> bool" where
  "exact53 n \<longleftrightarrow> \<bar>n\<bar> \<le> 9007199254740992"

lemma dbl_exact53: "exact53 n \<Longrightarrow> dbl (of_int n) = of_int n"
  unfolding exact53_def by (rule binary64.exact_int) simp

lemma first_estimator_eq:
  "first_estimator est = Inr \<lparr>drift_samples = [\<lparr>sample_time = clientSampleTimestampNanoseconds est,
     sample_offset = hostMinusClientOffset est\<rparr>], slope = 0,
     fittedOffsetAtLast = dbl (of_int (hostMinusClientOffset est)), consecutiveOutliers = 0\<rparr>"
  by (simp add: first_estimator_def addSample_def append_sample_def DriftEstimator_new_def)

lemma first_offset:
  assumes "first_estimator est = Inr e" "exact53 (hostMinusClientOffset est)"
    "offsetNanosecondsAt now e = Inr offset"
  shows "offset = of_int (hostMinusClientOffset est)"
  using assms by (auto simp: first_estimator_eq offsetNanosecondsAt_def res_simps dbl_exact53 binary64.zero)

lemma first_drift: "first_estimator est = Inr e \<Longrightarrow> estimatedDriftPpm e = 0"
  by (auto simp: first_estimator_eq estimatedDriftPpm_def binary64.zero)

lemma cast_int64_of_int: "cast_int64 (of_int n) = signed64 n"
  by (simp add: cast_int64_def)

lemma first_cast:
  assumes "first_estimator est = Inr e" "exact53 (hostMinusClientOffset est)"
    "offsetNanosecondsAt now e = Inr x" "cast_int64 x = Inr y"
  shows "y = hostMinusClientOffset est"
  using assms(4) by (simp add: first_offset [OF assms(1-3)] cast_int64_of_int res_simps)

lemma first_threshold:
  assumes "first_estimator est = Inr e" "exact53 (hostMinusClientOffset est)"
    "host_threshold c e correction now = Inr t"
  shows "t = now + startupLead c * 1000000 + hostMinusClientOffset est - playbackDelay c * 1000000 + correction"
    and "in_int64 t"
  using assms(3)
  by (auto simp: host_threshold_def in_nanoseconds_def res_simps dest: first_cast [OF assms(1,2)])

lemma first_presentation:
  assumes "first_estimator est = Inr e" "exact53 (hostMinusClientOffset est)"
    "local_presentation c e correction packet now = Inr p"
  shows "p + hostMinusClientOffset est + correction =
      sint (timing_presentation packet) + playbackDelay c * 1000000"
    and "0 \<le> p"
  using assms(3)
  by (auto simp: local_presentation_def in_nanoseconds_def res_simps dest: first_cast [OF assms(1,2)])

lemma firstPacketAtOrAfter_stamp:
  "firstPacketAtOrAfter t b = Some packet \<Longrightarrow> t \<le> timing_presentation packet"
  by (auto simp: firstPacketAtOrAfter_def find_Some_iff split: option.splits) (metis snd_conv)

lemma selected_stamp:
  assumes "select_packet c e correction now b = Inr (Some packet)" "host_threshold c e correction now = Inr t"
  shows "0 \<le> t" "nat t \<le> unat (timing_presentation packet)"
proof -
  have t: "0 \<le> t" "firstPacketAtOrAfter (word_of_int t) b = Some packet" "in_int64 t"
    using assms by (auto simp: select_packet_def host_threshold_def res_simps split: if_splits)
  then show "0 \<le> t" by simp
  have "unat (word_of_int t :: u64) = nat t"
    using t(1,3) by (simp add: in_int64_def unat_eq_nat_uint uint_word_of_int)
  then show "nat t \<le> unat (timing_presentation packet)"
    using firstPacketAtOrAfter_stamp [OF t(2)] by (simp add: word_le_nat_alt)
qed

section \<open>Theorems\<close>

text \<open>
  C34. The first packet is played when its stamp says: the scheduled local time, moved to the host's
  clock, is the presentation time of the packet plus the playback delay, less the correction for the
  output, and the scheduled time is at least the start-up lead after the clock was read.
\<close>

theorem start_is_on_time:
  assumes "first_estimator est = Inr e" "exact53 (hostMinusClientOffset est)"
    and "select_packet c e correction now b = Inr (Some packet)"
    and "unat (timing_presentation packet) \<le> 9223372036854775807"
    and "local_presentation c e correction packet later = Inr p"
  shows "p + hostMinusClientOffset est + correction =
      int (unat (timing_presentation packet)) + playbackDelay c * 1000000 \<and>
    now + startupLead c * 1000000 \<le> p"
proof -
  obtain t where t: "host_threshold c e correction now = Inr t"
    using assms(3) by (auto simp: select_packet_def res_simps)
  have stamp: "sint (timing_presentation packet) = int (unat (timing_presentation packet))"
    by (rule sint_u64 [OF assms(4)])
  show ?thesis
    using first_threshold(1) [OF assms(1,2) t] selected_stamp [OF assms(3) t]
      first_presentation(1) [OF assms(1,2,5)] unfolding stamp by linarith
qed

lemma half_distance: "2 * \<bar>x\<bar> \<le> a + 1 \<Longrightarrow> 2 * \<bar>y\<bar> \<le> b + 1 \<Longrightarrow> 2 * \<bar>y - x\<bar> \<le> a + b + (2 :: int)"
  by (auto simp: abs_if split: if_splits)

text \<open>
  C33. Two clients of one room start together: when each has measured the host's clock by a probe that
  took \<open>there\<close> and \<open>back\<close> nanoseconds and both start with packets of the same stamp, the times at
  which the listeners hear them, on the host's clock, are at most half the sum of the two round trips
  apart (and one nanosecond of rounding), whatever the offsets of their clocks.
\<close>

theorem clients_start_together:
  assumes "estimate a1 b1 c1 d1 = Inr s1" "uint b1 = uint a1 + clock1 + there1"
    "uint d1 = uint c1 - clock1 + back1" "0 \<le> there1" "0 \<le> back1"
    and "estimate a2 b2 c2 d2 = Inr s2" "uint b2 = uint a2 + clock2 + there2"
    "uint d2 = uint c2 - clock2 + back2" "0 \<le> there2" "0 \<le> back2"
    and "exact53 (hostMinusClientOffset s1)" "exact53 (hostMinusClientOffset s2)"
    and "first_estimator (s1\<lparr>roundTripTime := r1, samples := n1\<rparr>) = Inr e1"
    and "first_estimator (s2\<lparr>roundTripTime := r2, samples := n2\<rparr>) = Inr e2"
    and "local_presentation k1 e1 correction1 packet1 now1 = Inr p1"
    and "local_presentation k2 e2 correction2 packet2 now2 = Inr p2"
    and "timing_presentation packet1 = timing_presentation packet2" "playbackDelay k1 = playbackDelay k2"
  shows "2 * \<bar>(p1 + correction1 + clock1) - (p2 + correction2 + clock2)\<bar> \<le>
    (there1 + back1) + (there2 + back2) + 2"
proof -
  let ?x1 = "hostMinusClientOffset s1 - clock1" and ?x2 = "hostMinusClientOffset s2 - clock2"
  have "p1 + hostMinusClientOffset s1 + correction1 = p2 + hostMinusClientOffset s2 + correction2"
    using first_presentation(1) [OF assms(13) _ assms(15)] first_presentation(1) [OF assms(14) _ assms(16)]
      assms(11,12,17,18) by simp
  then have eq: "(p1 + correction1 + clock1) - (p2 + correction2 + clock2) = ?x2 - ?x1" by linarith
  have "2 * \<bar>?x1\<bar> \<le> there1 + back1 + 1" "2 * \<bar>?x2\<bar> \<le> there2 + back2 + 1"
    using estimate_error_bound [OF assms(1-5)] estimate_error_bound [OF assms(6-10)] by auto
  then show ?thesis unfolding eq using half_distance [of ?x1 "there1 + back1" ?x2 "there2 + back2"] by blast
qed

section \<open>Steering\<close>

lemma desired_frame_exact:
  assumes e: "first_estimator est = Inr (estimator l)"
    and small: "\<bar>now\<bar> \<le> 2251799813685248" "\<bar>hostMinusClientOffset est\<bar> \<le> 2251799813685248"
    "unat (timing_presentation (startPacket l)) \<le> 2251799813685248"
    "0 \<le> playbackDelay (client_config l)" "playbackDelay (client_config l) * 1000000 \<le> 1125899906842624"
    "\<bar>outputCorrection l\<bar> \<le> 1125899906842624"
    and p: "local_presentation (client_config l) (estimator l) (outputCorrection l) (startPacket l) asked = Inr p"
    and d: "desired_frame now l = Inr d"
  shows "d = dbl (dbl (of_nat (unat (timing_startFrame (startPacket l)))) +
    dbl (dbl (of_int (now - p) * of_nat (unat (format_sampleRate (client_format l)))) / 1000000000))"
proof -
  let ?o = "hostMinusClientOffset est" let ?s = "int (unat (timing_presentation (startPacket l)))"
  let ?d = "playbackDelay (client_config l) * 1000000" let ?c = "outputCorrection l"
  have off: "exact53 ?o" using small by (simp add: exact53_def)
  have stamp: "sint (timing_presentation (startPacket l)) = ?s" using small by (intro sint_u64) simp
  have p': "now - p = now + ?o - ?s - ?d + ?c"
    using first_presentation(1) [OF e off p] unfolding stamp by simp
  have b: "0 \<le> ?s" "?s \<le> 2251799813685248" using small(3) by linarith+
  have exact: "exact53 now" "exact53 (now + ?o)" "exact53 ?s" "exact53 (now + ?o - ?s)" "exact53 ?d"
    "exact53 (now + ?o - ?s - ?d)" "exact53 ?c" "exact53 (now + ?o - ?s - ?d + ?c)"
    unfolding exact53_def using small b by linarith+
  have s: "(of_nat (unat (timing_presentation (startPacket l))) :: rat) = of_int ?s" by simp
  have "d = dbl (dbl (of_nat (unat (timing_startFrame (startPacket l)))) +
      dbl (dbl (dbl (dbl (dbl (dbl (dbl (of_int now) + of_int ?o) - dbl (of_int ?s)) - dbl (of_int ?d)) +
        dbl (of_int ?c)) * of_nat (unat (format_sampleRate (client_format l)))) / 1000000000))"
    using d first_offset [OF e off] unfolding desired_frame_def Let_def s
    by (auto simp: in_nanoseconds_def res_simps)
  then show ?thesis
    unfolding p' by (simp only: dbl_exact53 [OF exact(1)] dbl_exact53 [OF exact(3)] dbl_exact53 [OF exact(5)]
        dbl_exact53 [OF exact(7)] of_int_add [symmetric] of_int_diff [symmetric] dbl_exact53 [OF exact(2)]
        dbl_exact53 [OF exact(4)] dbl_exact53 [OF exact(6)] dbl_exact53 [OF exact(8)])
qed


lemma steer_ratio:
  "steer i l = Inr l' \<Longrightarrow> seenStarted i \<Longrightarrow> askedRatio l' =
     correctionRatio (Finite (estimatedDriftPpm (estimator l'))) (Finite (bufferErrorMilliseconds l'))"
  by (auto simp: steer_def res_simps Let_def)

lemma client_turn_steers:
  assumes "client_turn i c = Inr (over, c')" "seenStarted i"
  shows "askedRatio c' =
    correctionRatio (Finite (estimatedDriftPpm (estimator c'))) (Finite (bufferErrorMilliseconds c'))"
  using assms steer_ratio by (auto simp: client_turn_def res_simps Let_def split: if_splits)

lemma correction_range:
  "9994 / 10000 \<le> correctionRatio a b" "correctionRatio a b \<le> 10006 / 10000"
proof -
  let ?p = "dbl (500 / 1000000)"
  have p: "\<bar>?p - 500 / 1000000\<bar> \<le> 1 / 1048576" using binary64.near [of "500 / 1000000" 20] by simp
  then have range: "0 \<le> ?p" "?p \<le> 1" using binary64.nonneg [of "500 / 1000000"] by linarith+
  have "\<bar>dbl (1 - ?p) - (1 - ?p)\<bar> \<le> 1 / 1048576"
    using binary64.near [of "1 - ?p" 20] range by (simp add: abs_if)
  moreover have "\<bar>dbl (1 + ?p) - (1 + ?p)\<bar> \<le> 1 / 1048576"
    using binary64.near [of "1 + ?p" 20] range by (simp add: abs_if)
  moreover have "dbl (1 - ?p) \<le> correctionRatio a b" "correctionRatio a b \<le> dbl (1 + ?p)"
    using correction_bounded_monotone [of a b 0 0 0 0] by blast+
  ultimately have "9994 / 10000 \<le> correctionRatio a b \<and> correctionRatio a b \<le> 10006 / 10000"
    using p by (intro conjI) linarith+
  then show "9994 / 10000 \<le> correctionRatio a b" "correctionRatio a b \<le> 10006 / 10000" by simp_all
qed

lemma correction_sign:
  "0 \<le> drift \<Longrightarrow> 0 \<le> err \<Longrightarrow> 1 \<le> correctionRatio (Finite drift) (Finite err)"
  "drift \<le> 0 \<Longrightarrow> err \<le> 0 \<Longrightarrow> correctionRatio (Finite drift) (Finite err) \<le> 1"
proof -
  have one: "correctionRatio (Finite 0) (Finite 0) = 1"
    using binary64.exact_int [of 1]
    by (simp add: correctionRatio_def Let_def binary64.zero MaximumCorrectionPpm_def max_def min_def)
  show "0 \<le> drift \<Longrightarrow> 0 \<le> err \<Longrightarrow> 1 \<le> correctionRatio (Finite drift) (Finite err)"
    "drift \<le> 0 \<Longrightarrow> err \<le> 0 \<Longrightarrow> correctionRatio (Finite drift) (Finite err) \<le> 1"
    using correction_bounded_monotone [where x = 0 and x' = drift and y = 0 and y' = err]
      correction_bounded_monotone [where x = drift and x' = 0 and y = err and y' = 0] one by simp_all
qed

text \<open>
  C?. Whatever a turn of the loop reads, the rate it asks of the player keeps the player's invariant
  (so the callback stays inside its buffers), and its direction is right: a player behind the host on
  a clock that is not slower is never slowed down, one ahead on a clock that is not faster is never
  sped up.
\<close>

theorem steering_is_safe:
  assumes "client_turn i c = Inr (over, c')" "seenStarted i"
  shows "(player_reachable p b \<longrightarrow> player_reachable (setCorrectionRatio (askedRatio c') p) b) \<and>
    (0 \<le> estimatedDriftPpm (estimator c') \<and> 0 \<le> bufferErrorMilliseconds c' \<longrightarrow> 1 \<le> askedRatio c') \<and>
    (estimatedDriftPpm (estimator c') \<le> 0 \<and> bufferErrorMilliseconds c' \<le> 0 \<longrightarrow> askedRatio c' \<le> 1)"
  unfolding client_turn_steers [OF assms]
  using correction_sign correction_range player_reachable.set_ratio by (auto simp: target_ok_def)

section \<open>Interruptions and the end\<close>

lemma steer_next [simp]:
  "steer i (l\<lparr>nextClockMeasurement := t\<rparr>) = map_sum id (\<lambda>l. l\<lparr>nextClockMeasurement := t\<rparr>) (steer i l)"
proof -
  have "desired_frame now (l\<lparr>nextClockMeasurement := t\<rparr>) = desired_frame now l" for now
    by (simp add: desired_frame_def cong del: and_then_cong)
  moreover have "buffer_error d f (l\<lparr>nextClockMeasurement := t\<rparr>) = buffer_error d f l" for d f
    by (simp add: buffer_error_def)
  ultimately show ?thesis by (cases "desired_frame (steerTime i) l") (simp_all add: steer_def Let_def)
qed

text \<open>
  A clock outage is harmless: when a measurement that is due fails, the turn does what it would
  have done had none been due, and only the time of the next attempt moves.
\<close>

theorem clock_outage_harmless:
  assumes "measured i = Inl (Runtime_Error m)" "in_int64 (afterMeasure i + 5000000000)"
    and "nextClockMeasurement c \<le> measureTime i" "skipped < nextClockMeasurement c"
  shows "client_turn i c = map_sum id (\<lambda>(over, c'). (over, c'\<lparr>nextClockMeasurement := afterMeasure i + 5000000000\<rparr>))
    (client_turn (i\<lparr>measureTime := skipped\<rparr>) c)"
proof -
  have fields: "steer (i\<lparr>measureTime := skipped\<rparr>) c = steer i c" "stream_over (i\<lparr>measureTime := skipped\<rparr>) = stream_over i"
    by (simp_all add: steer_def stream_over_def cong del: and_then_cong)
  have "keep_clock i c = Inr (c\<lparr>nextClockMeasurement := afterMeasure i + 5000000000\<rparr>)"
    "keep_clock (i\<lparr>measureTime := skipped\<rparr>) c = Inr c"
    using assms by (simp_all add: keep_clock_def take_measurement_def next_measurement_def)
  then show ?thesis
    by (cases "seenFailure i"; cases "seenRouteChange i"; cases "steer i c"; cases "stream_over i")
      (simp_all add: client_turn_def rethrow_def fields Let_def)
qed

definition dry :: "turn_reads \<Rightarrow> bool" where
  "dry i \<longleftrightarrow> stillStarted i \<and> 0 < seenLastPacket i \<and> 200000000 < endTime i - seenLastPacket i \<and>
     seenLatestEnd i \<le> seenFrame i"

lemma client_turn_over: "client_turn i c = Inr (over, c') \<Longrightarrow> over = dry i"
  by (auto simp: client_turn_def stream_over_def dry_def res_simps Let_def split: if_splits)

text \<open>
  C36. The client plays to the end: a loop no turn of which fails runs exactly until a turn that finds
  the playing started, the last packet more than 200 milliseconds old and the player at the end of
  everything received; such a turn is the last one, and without one the loop goes on.
\<close>

theorem client_ends_when_dry:
  assumes "client_loop is c = Inr (over, c')"
  shows "(over \<longleftrightarrow> (\<exists>i \<in> set is. dry i)) \<and>
    (\<forall>ms n ns. is = ms @ n # ns \<longrightarrow> dry n \<longrightarrow> client_loop (ms @ [n]) c = Inr (True, c'))"
proof -
  have "(over \<longleftrightarrow> (\<exists>i \<in> set is. dry i)) \<and>
      (is = ms @ n # ns \<longrightarrow> dry n \<longrightarrow> client_loop (ms @ [n]) c = Inr (True, c'))" for ms n ns
    using assms
  proof (induction "is" arbitrary: c ms)
    case Nil
    then show ?case by simp
  next
    case (Cons i "is")
    then obtain o1 c1 where turn: "client_turn i c = Inr (o1, c1)"
      and rest: "(if o1 then Inr (True, c1) else client_loop is c1) = Inr (over, c')"
      by (auto simp: res_simps)
    note o1 = client_turn_over [OF turn]
    show ?case
    proof (cases o1)
      case True
      then show ?thesis using turn rest o1 by (cases ms) auto
    next
      case False
      then have "client_loop is c1 = Inr (over, c')" using rest by simp
      from Cons.IH [OF this] show ?thesis
        using turn o1 False by (cases ms) auto
    qed
  qed
  then show ?thesis by blast
qed

section \<open>Witnesses\<close>

definition example_client :: DesktopAudioClientConfig where
  "example_client = \<lparr>bindAddress = ''0.0.0.0'', audioPort = 40100, clockSyncPort = 40101,
     expectedSessionId = 0, expectedStreamId = 0, playbackDelay = 20, startupLead = 40,
     outputLatencyAdjustment = 0\<rparr>"

definition first_sample :: ClockSyncEstimate where
  "first_sample = \<lparr>hostMinusClientOffset = 4450, roundTripTime = 300, samples = 1,
     clientSampleTimestampNanoseconds = 1200\<rparr>"

definition first_clock :: DriftEstimator where
  "first_clock = \<lparr>drift_samples = [\<lparr>sample_time = 1200, sample_offset = 4450\<rparr>], slope = 0,
     fittedOffsetAtLast = 4450, consecutiveOutliers = 0\<rparr>"

lemma first_clock: "first_estimator first_sample = Inr first_clock"
  using binary64.exact_int [of 4450] by (simp add: first_estimator_eq first_sample_def first_clock_def)

lemma first_clock_offset: "offsetNanosecondsAt now first_clock = and_then (signed64 (now - 1200)) (\<lambda>_. Inr 4450)"
  using binary64.exact_int [of 4450]
  by (simp add: offsetNanosecondsAt_def first_clock_def binary64.zero cong del: and_then_cong)

text \<open>The buffer of \<open>Jitter_Buffer\<close>, with the packet stamped a tenth of a second.\<close>

definition stamped_buffer :: JitterBuffer where
  "stamped_buffer = example_buffer\<lparr>packets := [(258, \<lparr>buffered_startFrame = 258,
     buffered_presentation = 100000000, buffered_frameCount = 2, buffered_samples = [1, 32767]\<rparr>)]\<rparr>"

definition stamped_packet :: BufferedPacketTiming where
  "stamped_packet = \<lparr>timing_startFrame = 258, timing_presentation = 100000000\<rparr>"

lemma stamped_selected: "select_packet example_client first_clock 0 2000 stamped_buffer = Inr (Some stamped_packet)"
  by (simp add: select_packet_def host_threshold_def example_client_def in_nanoseconds_def in_int64_def
      first_clock_offset cast_int64_def firstPacketAtOrAfter_def stamped_buffer_def example_buffer_def
      end_frame_def stamped_packet_def)

lemma stamped_presentation:
  "local_presentation example_client first_clock 0 stamped_packet 2500 = Inr 119995550"
  by (simp add: local_presentation_def example_client_def in_nanoseconds_def in_int64_def
      first_clock_offset cast_int64_def stamped_packet_def)

theorem start_is_on_time_witness:
  "(119995550 :: int) + 4450 = 100000000 + 20 * 1000000 \<and> (2000 :: int) + 40 * 1000000 \<le> 119995550"
  using start_is_on_time [OF first_clock _ stamped_selected _ stamped_presentation]
  by (simp add: first_sample_def exact53_def stamped_packet_def example_client_def)

lemma estimate_far:
  "estimate 2000 5600 5700 2200 = Inr \<lparr>hostMinusClientOffset = 3550, roundTripTime = 100, samples = 1,
     clientSampleTimestampNanoseconds = 2100\<rparr>"
  unfolding estimate_is_integer by (simp add: estimate_int_def in_int64_def half_away_def)

definition far_clock :: DriftEstimator where
  "far_clock = \<lparr>drift_samples = [\<lparr>sample_time = 2100, sample_offset = 3550\<rparr>], slope = 0,
     fittedOffsetAtLast = 3550, consecutiveOutliers = 0\<rparr>"

lemma far_presentation:
  "local_presentation example_client far_clock 0 stamped_packet 2500 = Inr 119996450"
  using binary64.exact_int [of 3550]
  by (simp add: local_presentation_def example_client_def in_nanoseconds_def in_int64_def
      offsetNanosecondsAt_def far_clock_def binary64.zero cast_int64_def stamped_packet_def)

theorem clients_start_together_witness:
  "2 * \<bar>(119995550 + 0 + 4400) - (119996450 + 0 + 3550)\<bar> \<le> ((200 + 100) + (50 + 50) + 2 :: int)"
proof (rule clients_start_together [OF estimate_example _ _ _ _ estimate_far])
  show "first_estimator (\<lparr>hostMinusClientOffset = 4450, roundTripTime = 300, samples = 1,
      clientSampleTimestampNanoseconds = 1200\<rparr>\<lparr>roundTripTime := 300, samples := 1\<rparr>) = Inr first_clock"
    using first_clock by (simp add: first_sample_def)
  show "first_estimator (\<lparr>hostMinusClientOffset = 3550, roundTripTime = 100, samples = 1,
      clientSampleTimestampNanoseconds = 2100\<rparr>\<lparr>roundTripTime := 100, samples := 1\<rparr>) = Inr far_clock"
    using binary64.exact_int [of 3550] by (simp add: first_estimator_eq far_clock_def)
qed (use stamped_presentation far_presentation in \<open>simp_all add: exact53_def\<close>)

text \<open>The loop at the scheduled time.\<close>

definition example_client_loop :: ClientLoop where
  "example_client_loop = \<lparr>client_config = example_client,
     client_format = \<lparr>format_sampleRate = 8000, format_channelCount = 1\<rparr>, outputCorrection = 0,
     startPacket = stamped_packet, estimator = first_clock, latestEstimate = first_sample,
     peakDepthFrames = 0, bufferErrorMilliseconds = 5, nextClockMeasurement = 5000000000, askedRatio = 1\<rparr>"

definition example_reads :: turn_reads where
  "example_reads = \<lparr>seenFailure = None, seenRouteChange = False, measureTime = 119990000,
     measured = Inl (Runtime_Error ''timeout''), afterMeasure = 119991000, seenFrame = 258,
     seenStarted = True, steerTime = 119995550, seenDepth = 2, seenLastPacket = 5, stillStarted = True,
     endTime = 119996000, seenLatestEnd = 260\<rparr>"

lemma example_desired: "\<exists>d. desired_frame 119995550 example_client_loop = Inr d"
  by (simp add: desired_frame_def example_client_loop_def first_clock_offset in_int64_def example_client_def
      in_nanoseconds_def)


lemma example_turn: "\<exists>over c'. client_turn example_reads example_client_loop = Inr (over, c')"
proof -
  have "keep_clock example_reads example_client_loop = Inr example_client_loop"
    by (simp add: keep_clock_def example_reads_def example_client_loop_def)
  moreover have "\<exists>c'. steer example_reads example_client_loop = Inr c'"
    using example_desired by (auto simp: steer_def example_reads_def Let_def)
  moreover have "stream_over example_reads = Inr False"
    by (simp add: stream_over_def example_reads_def in_int64_def)
  ultimately show ?thesis by (auto simp: client_turn_def rethrow_def Let_def example_reads_def)
qed

theorem steering_is_safe_witness:
  "\<exists>over c'. client_turn example_reads example_client_loop = Inr (over, c') \<and>
     player_reachable (setCorrectionRatio (askedRatio c') example_player) example_buffer"
proof -
  obtain over c' where turn: "client_turn example_reads example_client_loop = Inr (over, c')"
    using example_turn by blast
  then show ?thesis
    using steering_is_safe [OF turn, of example_player example_buffer] example_player_reachable
    by (simp add: example_reads_def)
qed

theorem clock_outage_harmless_witness:
  "client_turn (example_reads\<lparr>measureTime := 6000000000\<rparr>) example_client_loop =
     map_sum id (\<lambda>(over, c'). (over, c'\<lparr>nextClockMeasurement := 5119991000\<rparr>))
       (client_turn example_reads example_client_loop)"
  using clock_outage_harmless [of "example_reads\<lparr>measureTime := 6000000000\<rparr>" "''timeout''" example_client_loop 119990000]
  by (simp add: example_reads_def in_int64_def example_client_loop_def)

lemma example_dry_loop:
  "\<exists>over c'. client_loop [example_reads, example_reads\<lparr>endTime := 300000000, seenFrame := 260\<rparr>]
     (example_client_loop\<lparr>estimator := DriftEstimator_new\<rparr>) = Inr (over, c')"
proof -
  have "\<exists>over c'. client_turn (example_reads\<lparr>endTime := t, seenFrame := f\<rparr>) c = Inr (over, c') \<and>
      estimator c' = DriftEstimator_new \<and> nextClockMeasurement c' = 5000000000 \<and>
      client_config c' = example_client"
    if "estimator c = DriftEstimator_new" "nextClockMeasurement c = 5000000000"
      "client_config c = example_client" "in_int64 (t - 5)" for c t f
    using that
    by (simp add: client_turn_def rethrow_def example_reads_def keep_clock_def steer_def stream_over_def
        desired_frame_def offsetNanosecondsAt_def DriftEstimator_new_def in_nanoseconds_def in_int64_def
        example_client_def Let_def)
  note turn = this
  let ?c = "example_client_loop\<lparr>estimator := DriftEstimator_new\<rparr>"
  have same: "example_reads\<lparr>endTime := 119996000, seenFrame := 258\<rparr> = example_reads"
    by (simp add: example_reads_def)
  obtain over c1 where 1: "client_turn example_reads ?c = Inr (over, c1)" "estimator c1 = DriftEstimator_new"
      "nextClockMeasurement c1 = 5000000000" "client_config c1 = example_client"
    using turn [of ?c 119996000 258] unfolding same
    by (auto simp: example_client_loop_def in_int64_def)
  obtain over2 c2 where "client_turn (example_reads\<lparr>endTime := 300000000, seenFrame := 260\<rparr>) c1 = Inr (over2, c2)"
    using turn [OF 1(2-4), of 300000000 260] by (auto simp: in_int64_def)
  with 1(1) show ?thesis by (cases over; cases over2) auto
qed

theorem client_ends_when_dry_witness:
  "\<exists>c'. client_loop [example_reads, example_reads\<lparr>endTime := 300000000, seenFrame := 260\<rparr>]
     (example_client_loop\<lparr>estimator := DriftEstimator_new\<rparr>) = Inr (True, c')"
proof -
  obtain over c' where loop: "client_loop [example_reads, example_reads\<lparr>endTime := 300000000, seenFrame := 260\<rparr>]
     (example_client_loop\<lparr>estimator := DriftEstimator_new\<rparr>) = Inr (over, c')"
    using example_dry_loop by blast
  then show ?thesis using client_ends_when_dry [OF loop] by (auto simp: dry_def example_reads_def)
qed

end
