(* ===== verification/Room_Client.thy ===== *)
theory Room_Client
  imports Control_Channel Command_Line
begin

text \<open>
  The clients of the control channel: \<open>RoomJoinClient\<close> (\<open>desktop/src/RoomJoinClient.cpp\<close>), which joins
  a room and polls its state, \<open>RoomControlClient\<close>, which sends one command to the local host, and the
  loop \<open>runRoomClient\<close> of \<open>desktop/src/main.cpp\<close>, which plays the segments of the joined room. What
  the sockets deliver is a string of the bytes that arrive before the connection ends or the two
  seconds of a receive are over; whether a send went out comes with it.
\<close>

section \<open>Formatted input\<close>

text \<open>
  \<open>input >> n\<close> for an unsigned type of \<open>w\<close> bits: an optional sign, digits, and a value that fits; a
  minus sign negates modulo \<open>2 ^ w\<close>.
\<close>

definition read_unsigned :: "nat \<Rightarrow> string \<Rightarrow> (nat \<times> string) option" where
  "read_unsigned w input =
     (let s = skip_spaces input;
          negative = (s \<noteq> [] \<and> hd s = CHR ''-'');
          s = (if s \<noteq> [] \<and> (hd s = CHR ''-'' \<or> hd s = CHR ''+'') then tl s else s);
          digits = takeWhile is_digit s; v = digits_value digits in
      if digits = [] \<or> v \<ge> 2 ^ w then None
      else Some (if negative then (2 ^ w - v) mod 2 ^ w else v, dropWhile is_digit s))"

text \<open>Where a word or a number ends.\<close>

definition stops :: "string \<Rightarrow> bool" where
  "stops s \<longleftrightarrow> s = [] \<or> is_space (hd s)"

lemma stops_simps [simp]: "stops []" "stops (CHR '' '' # s)"
  by (simp_all add: stops_def is_space_def code_def)

definition is_word :: "string \<Rightarrow> bool" where
  "is_word w \<longleftrightarrow> w \<noteq> [] \<and> list_all (\<lambda>c. \<not> is_space c) w"

lemma space_is_space [simp]: "is_space (CHR '' '')"
  by (simp add: is_space_def code_def)

lemma skip_space [simp]: "skip_spaces (CHR '' '' # s) = skip_spaces s"
  by (simp add: skip_spaces_def)

lemma skip_word: "is_word w \<Longrightarrow> skip_spaces (w @ s) = w @ s"
  by (cases w) (simp_all add: skip_spaces_def is_word_def)

lemma takeWhile_append_stop:
  assumes "list_all P w" "s = [] \<or> \<not> P (hd s)"
  shows "takeWhile P (w @ s) = w" "dropWhile P (w @ s) = s"
proof -
  have t: "takeWhile P s = []" "dropWhile P s = s" using assms(2) by (cases s; simp)+
  then show "takeWhile P (w @ s) = w" "dropWhile P (w @ s) = s"
    using assms(1) by (simp_all add: takeWhile_append2 dropWhile_append2 list_all_iff)
qed

lemma read_word_space [simp]: "read_word (CHR '' '' # s) = read_word s"
  by (simp add: read_word_def)

lemma read_unsigned_space [simp]: "read_unsigned w (CHR '' '' # s) = read_unsigned w s"
  by (simp add: read_unsigned_def)

lemma read_word_Nil [simp]: "read_word [] = None"
  by (simp add: read_word_def skip_spaces_def)

lemma read_word_append:
  assumes "is_word w" "stops s"
  shows "read_word (w @ s) = Some (w, s)"
  using assms takeWhile_append_stop [of "\<lambda>c. \<not> is_space c" w s]
  by (auto simp: read_word_def skip_word is_word_def stops_def Let_def)

lemma digit_not_space: "is_digit c \<Longrightarrow> \<not> is_space c"
  by (auto simp: is_digit_def is_space_def)

lemma show_nat_word: "is_word (show_nat n)"
  using show_nat_digits [of n] digit_not_space by (auto simp: is_word_def list_all_iff)

lemma show_int_word: "is_word (show_int i)"
  using show_nat_word by (auto simp: show_int_def is_word_def is_space_def code_def)

lemma read_unsigned_show:
  assumes "n < 2 ^ w" "stops s"
  shows "read_unsigned w (show_nat n @ s) = Some (n, s)"
proof -
  have digits: "list_all is_digit (show_nat n)" by simp
  obtain c cs where c: "show_nat n = c # cs" using show_nat_not_Nil by (cases "show_nat n") auto
  then have "is_digit c" using digits by simp
  then have sign: "c \<noteq> CHR ''-''" "c \<noteq> CHR ''+''" by (auto simp: is_digit_def code_def)
  have stop: "s = [] \<or> \<not> is_digit (hd s)" using assms(2) digit_not_space by (auto simp: stops_def)
  have skip: "skip_spaces (show_nat n @ s) = show_nat n @ s" by (rule skip_word [OF show_nat_word])
  have head: "hd (show_nat n @ s) = c" by (simp add: c)
  show ?thesis
    unfolding read_unsigned_def Let_def skip head
    using assms(1) sign takeWhile_append_stop [OF digits stop] by simp
qed

lemma skip_spaces_length: "length (skip_spaces s) \<le> length s"
  by (simp add: skip_spaces_def length_dropWhile_le)

lemma read_word_length: "read_word s = Some (w, rest) \<Longrightarrow> length rest < length s"
proof -
  assume read: "read_word s = Some (w, rest)"
  then have w: "w \<noteq> []" by (rule read_word_not_empty)
  have "w @ rest = skip_spaces s"
    using read by (auto simp: read_word_def Let_def split: if_splits)
  then have "length w + length rest = length (skip_spaces s)" by (metis length_append)
  then show ?thesis using skip_spaces_length [of s] w by (cases w) auto
qed

lemma read_unsigned_length: "read_unsigned w s = Some (n, rest) \<Longrightarrow> length rest \<le> length s"
proof -
  assume "read_unsigned w s = Some (n, rest)"
  then have "rest = dropWhile is_digit (skip_spaces s) \<or> rest = dropWhile is_digit (tl (skip_spaces s))"
    by (auto simp: read_unsigned_def Let_def split: if_splits)
  then show ?thesis
    using skip_spaces_length [of s] length_dropWhile_le [of is_digit "skip_spaces s"]
      length_dropWhile_le [of is_digit "tl (skip_spaces s)"] by (auto intro: order_trans)
qed

section \<open>Joining\<close>

record JoinedRoomState =
  joined_sessionId :: u64
  joined_streamId :: u32
  joined_audioPort :: u16
  joined_clockPort :: u16
  joined_roomName :: string
  joined_playback :: string
  joined :: bool

definition JoinedRoomState_new :: JoinedRoomState where
  "JoinedRoomState_new =
     \<lparr>joined_sessionId = 0, joined_streamId = 0, joined_audioPort = 0, joined_clockPort = 0,
      joined_roomName = [], joined_playback = ''STOPPED'', joined = False\<rparr>"

text \<open>\<open>readLine\<close>: at most 512 characters, the newline included.\<close>

fun read_line :: "nat \<Rightarrow> string \<Rightarrow> exn + string \<times> string" where
  "read_line 0 s = Inl (Runtime_Error ''Room control line exceeded limit'')"
| "read_line (Suc n) [] = Inl (Runtime_Error ''Room control connection was lost'')"
| "read_line (Suc n) (c # s) =
     (if c = newline then Inr ([], s)
      else if 32 \<le> code c \<and> code c < 127
      then and_then (read_line n s) (\<lambda>(line, s). Inr (c # line, s))
      else Inl (Runtime_Error ''Malformed room control response''))"

abbreviation readLine :: "string \<Rightarrow> exn + string \<times> string" where
  "readLine \<equiv> read_line 512"

definition parse_welcome :: "string \<Rightarrow> JoinedRoomState \<Rightarrow> JoinedRoomState option" where
  "parse_welcome line st =
     (case read_word line of None \<Rightarrow> None | Some (keyword, s) \<Rightarrow>
      case read_unsigned 64 s of None \<Rightarrow> None | Some (session, s) \<Rightarrow>
      case read_unsigned 32 s of None \<Rightarrow> None | Some (stream, s) \<Rightarrow>
      case read_unsigned 32 s of None \<Rightarrow> None | Some (audio, s) \<Rightarrow>
      case read_unsigned 32 s of None \<Rightarrow> None | Some (clock, s) \<Rightarrow>
      case read_unsigned 32 s of None \<Rightarrow> None | Some (rate, s) \<Rightarrow>
      case read_unsigned 32 s of None \<Rightarrow> None | Some (count, s) \<Rightarrow>
      case read_word s of None \<Rightarrow> None | Some (host, s) \<Rightarrow>
      if keyword \<noteq> ''WELCOME'' \<or> session = 0 \<or> stream = 0 \<or> audio = 0 \<or> audio > 65535 \<or>
         clock = 0 \<or> clock > 65535 then None
      else Some (st\<lparr>joined_sessionId := of_nat session, joined_streamId := of_nat stream,
        joined_audioPort := of_nat audio, joined_clockPort := of_nat clock\<rparr>))"

definition parse_room :: "string \<Rightarrow> JoinedRoomState \<Rightarrow> exn + JoinedRoomState" where
  "parse_room line st =
     (if \<not> starts_with line ''ROOM '' then Inl (Runtime_Error ''Room metadata was missing'')
      else case dropWhile (\<lambda>c. c \<noteq> CHR '' '') (drop 5 line) of
        [] \<Rightarrow> Inr st
      | separator # name \<Rightarrow> Inr (st\<lparr>joined_roomName := name\<rparr>))"

text \<open>The rest of a state line: \<open>STREAM\<close> is followed by the stream.\<close>

function read_stream :: "string \<Rightarrow> u32 \<Rightarrow> exn + u32" where
  "read_stream s stream =
     (case read_word s of
        None \<Rightarrow> Inr stream
      | Some (token, s) \<Rightarrow>
          if token = ''STREAM''
          then (case read_unsigned 32 s of
                  None \<Rightarrow> Inl (Runtime_Error ''Room stream ID was invalid'')
                | Some (n, s) \<Rightarrow> read_stream s (of_nat n))
          else read_stream s stream)"
  by auto
termination
  by (relation "measure (\<lambda>(s, _). length s)")
    (auto dest: read_word_length intro: le_less_trans [OF read_unsigned_length])

declare read_stream.simps [simp del]

definition updateState :: "string \<Rightarrow> JoinedRoomState \<Rightarrow> exn + JoinedRoomState" where
  "updateState line st =
     (case (case read_word line of None \<Rightarrow> None | Some (keyword, s) \<Rightarrow>
            case read_word s of None \<Rightarrow> None | Some (playback, s) \<Rightarrow>
            case read_unsigned 64 s of None \<Rightarrow> None | Some (session, s) \<Rightarrow>
            case read_unsigned 64 s of None \<Rightarrow> None | Some (frame, s) \<Rightarrow>
            if keyword \<noteq> ''HOST_STATE'' \<or> of_nat session \<noteq> joined_sessionId st then None
            else Some (playback, s)) of
        None \<Rightarrow> Inl (Runtime_Error ''Room session changed'')
      | Some (playback, s) \<Rightarrow>
          and_then (read_stream s (joined_streamId st)) (\<lambda>stream.
            Inr (st\<lparr>joined_playback := playback, joined_streamId := stream\<rparr>)))"

text \<open>The four lines of the answer to \<open>JOIN\<close>.\<close>

definition read_welcome :: "string \<Rightarrow> exn + JoinedRoomState \<times> string" where
  "read_welcome s =
     and_then (readLine s) (\<lambda>(welcome, s).
     case parse_welcome welcome JoinedRoomState_new of
       None \<Rightarrow> Inl (Runtime_Error ''Room welcome was invalid'')
     | Some st \<Rightarrow>
     and_then (readLine s) (\<lambda>(roomLine, s).
     and_then (parse_room roomLine st) (\<lambda>st.
     and_then (readLine s) (\<lambda>(sync, s).
     if \<not> starts_with sync ''SYNC_AT '' then Inl (Runtime_Error ''Room sync point was missing'')
     else
       and_then (readLine s) (\<lambda>(state, s).
       and_then (updateState state st) (\<lambda>st. Inr (st\<lparr>joined := True\<rparr>, s)))))))"

text \<open>
  What setting up the connection meets, and what a line sent leads to: an error of the send, or the
  bytes that arrive then.
\<close>

record join_setup =
  socketResult :: "exn + unit"
  hostIsIpv4 :: bool
  connectOk :: bool
  joinTime :: int
  exchange :: "string \<Rightarrow> exn + string"

definition hello_line :: string where
  "hello_line = line_of ''HELLO 2''"

definition join_line :: "int \<Rightarrow> string" where
  "join_line now = line_of (''JOIN desktop-'' @ show_int now)"

definition RoomJoinClient_new :: "u16 \<Rightarrow> join_setup \<Rightarrow> exn + JoinedRoomState \<times> string" where
  "RoomJoinClient_new sessionPort i =
     (if sessionPort = 0 then Inl (Invalid_Argument ''Room control port is invalid'')
      else
        and_then (socketResult i) (\<lambda>_.
        if \<not> hostIsIpv4 i then Inl (Invalid_Argument ''Room host must be an IPv4 address'')
        else if \<not> connectOk i then Inl (Runtime_Error ''Room host is unavailable'')
        else
          and_then (exchange i hello_line) (\<lambda>s.
          and_then (readLine s) (\<lambda>(version, s).
          if version \<noteq> ''VERSION 2'' then Inl (Runtime_Error ''Room protocol version differs'')
          else and_then (exchange i (join_line (joinTime i))) (\<lambda>t. read_welcome (s @ t))))))"

text \<open>A round of \<open>poll\<close>: the state, the bytes left and whether the thread goes on.\<close>

definition poll_room ::
    "exn + unit \<Rightarrow> string \<Rightarrow> JoinedRoomState \<times> string \<Rightarrow> (JoinedRoomState \<times> string) \<times> bool" where
  "poll_room requestSent answered st =
     (case and_then requestSent (\<lambda>_.
           and_then (readLine (snd st @ answered)) (\<lambda>(line, s).
           and_then (updateState line (fst st)) (\<lambda>new. Inr (new, s)))) of
        Inr new \<Rightarrow> (new, True)
      | Inl e \<Rightarrow> (((fst st)\<lparr>joined := False\<rparr>, snd st), False))"

section \<open>One command\<close>

text \<open>The answer of the host up to the newline, or its first 256 characters.\<close>

fun read_answer :: "nat \<Rightarrow> string \<Rightarrow> exn + string" where
  "read_answer 0 s = Inr []"
| "read_answer (Suc n) [] = Inl (Runtime_Error ''Local room command response timed out'')"
| "read_answer (Suc n) (c # s) =
     (if c = newline then Inr [] else and_then (read_answer n s) (\<lambda>answer. Inr (c # answer)))"

text \<open>\<open>reached\<close> is what the socket, the connection and the send came to.\<close>

definition issue :: "u16 \<Rightarrow> string \<Rightarrow> exn + unit \<Rightarrow> string \<Rightarrow> exn + string" where
  "issue port command reached bytes =
     (if port = 0 \<or> command = [] \<or> length command > 100 \<or>
         \<not> list_all (\<lambda>c. c \<noteq> newline \<and> c \<noteq> carriage_return) command
      then Inl (Invalid_Argument ''Invalid local room command'')
      else and_then reached (\<lambda>_. read_answer 256 bytes))"

section \<open>Following a room\<close>

text \<open>The two variables of the inner loop of \<open>runRoomClient\<close>.\<close>

record follower =
  lastStream :: u32
  observedInactive :: bool

definition follower_new :: follower where
  "follower_new = \<lparr>lastStream = 0, observedInactive = True\<rparr>"

text \<open>A round: the segment to play, if one starts, or the error that leads to a new connection.\<close>

record segment =
  segment_audioPort :: u16
  segment_clockPort :: u16
  segment_session :: u64
  segment_stream :: u32

definition follow :: "JoinedRoomState \<Rightarrow> follower \<Rightarrow> exn + segment option \<times> follower" where
  "follow st f =
     (if \<not> joined st then Inl (Runtime_Error ''Room host disconnected'')
      else
        let f = (if joined_playback st \<noteq> ''PLAYING'' then f\<lparr>observedInactive := True\<rparr> else f) in
        if joined_playback st = ''PLAYING'' \<and> (observedInactive f \<or> joined_streamId st \<noteq> lastStream f)
        then Inr (Some \<lparr>segment_audioPort = joined_audioPort st, segment_clockPort = joined_clockPort st,
               segment_session = joined_sessionId st, segment_stream = joined_streamId st\<rparr>,
             \<lparr>lastStream = joined_streamId st, observedInactive = False\<rparr>)
        else Inr (None, f))"

section \<open>What the host sends is what the client reads\<close>

lemma length_show_nat: "n < 10 ^ k \<Longrightarrow> 0 < k \<Longrightarrow> length (show_nat n) \<le> k"
proof (induction n arbitrary: k rule: show_nat.induct)
  case (1 n)
  show ?case
  proof (cases "n < 10")
    case True
    then show ?thesis using 1(3) by (subst show_nat.simps) simp
  next
    case False
    then obtain j where k: "k = Suc j" "0 < j" using 1(2) by (cases k; cases "k - 1") auto
    then have "n div 10 < 10 ^ j" using 1(2) by (simp add: less_mult_imp_div_less)
    then have "length (show_nat (n div 10)) \<le> j" using 1(1) [of j] False k by simp
    then show ?thesis using False k by (subst show_nat.simps) simp
  qed
qed

lemma length_show_u64: "length (show_nat (unat (w :: u64))) \<le> 20"
  using length_show_nat [of "unat w" 20] unat_u64_less [of w] by simp

lemma length_show_u32: "length (show_nat (unat (w :: u32))) \<le> 10"
  using length_show_nat [of "unat w" 10] unat_u32_less [of w] by simp

lemma length_show_u16: "length (show_nat (unat (w :: u16))) \<le> 5"
  using length_show_nat [of "unat w" 5] unat_u16_less [of w] by simp

lemma length_show_int: "in_int64 i \<Longrightarrow> length (show_int i) \<le> 20"
  using length_show_nat [of "nat (- i)" 19] length_show_nat [of "nat i" 19]
  by (auto simp: show_int_def in_int64_def nat_less_iff)

lemma show_nat_printable [simp]: "list_all is_printable (show_nat n)"
  using show_nat_digits [of n] by (auto simp: list_all_iff is_digit_def is_printable_def)

lemma show_int_printable [simp]: "list_all is_printable (show_int i)"
  by (simp add: show_int_def is_printable_def code_def)

lemma read_line_line_of:
  "list_all is_printable l \<Longrightarrow> length l < n \<Longrightarrow> read_line n (line_of l @ rest) = Inr (l, rest)"
proof (induction l arbitrary: n)
  case Nil
  then show ?case by (cases n) (simp_all add: line_of_def)
next
  case (Cons c l)
  then obtain m where n: "n = Suc m" by (cases n) auto
  have "c \<noteq> newline" using Cons.prems(1) by (auto simp: is_printable_def newline_def)
  then show ?case using Cons n by (simp add: line_of_def is_printable_def)
qed

text \<open>A line as a list of words.\<close>

definition spaced :: "string list \<Rightarrow> string" where
  "spaced ws = concat (map (\<lambda>w. CHR '' '' # w) ws)"

lemma spaced_simps [simp]: "spaced [] = []" "spaced (w # ws) = CHR '' '' # w @ spaced ws"
  by (simp_all add: spaced_def)

lemma stops_spaced [simp]: "stops (spaced ws)"
  by (cases ws) simp_all

lemma read_stream_skip:
  "list_all is_word ws \<Longrightarrow> ''STREAM'' \<notin> set ws \<Longrightarrow> read_stream (spaced ws) n = Inr n"
proof (induction ws)
  case Nil
  then show ?case by (subst read_stream.simps) simp
next
  case (Cons w ws)
  then show ?case
    by (subst read_stream.simps) (auto simp: read_word_append)
qed

lemma read_stream_found:
  assumes "list_all is_word ws" "''STREAM'' \<notin> set ws"
  shows "read_stream (spaced (''STREAM'' # show_nat (unat (n :: u32)) # ws)) m = Inr n"
proof -
  have w: "is_word ''STREAM''" by (simp add: is_word_def is_space_def code_def)
  have "read_word (''STREAM'' @ spaced (show_nat (unat n) # ws)) =
      Some (''STREAM'', spaced (show_nat (unat n) # ws))"
    by (rule read_word_append [OF w]) simp
  moreover have "read_unsigned 32 (show_nat (unat n) @ spaced ws) = Some (unat n, spaced ws)"
    using unat_u32_less [of n] by (intro read_unsigned_show) simp_all
  ultimately show ?thesis
    using read_stream_skip [OF assms] by (subst read_stream.simps) simp
qed

text \<open>What a state line says of the playback, and its words after the frame.\<close>

definition shown_playback :: "ControlStreamState \<Rightarrow> Room \<Rightarrow> string" where
  "shown_playback state r =
     (if playbackState (room_state r) = Paused then ''PAUSED''
      else if playing state then ''PLAYING'' else ''STOPPED'')"

definition action_words :: "ScheduledRoomAction \<Rightarrow> string list" where
  "action_words a = [actionName (action a), show_int (effectiveHostNanoseconds a),
     show_nat (unat (seekFrame a)), show_nat (unat (nextStreamId a))]"

definition state_words :: "Room \<Rightarrow> string list" where
  "state_words r =
     (case pendingAction (room_state r) of
        Some a \<Rightarrow> ''PENDING'' # action_words a
      | None \<Rightarrow>
          case recentAction (room_state r) of Some a \<Rightarrow> ''ACTION'' # action_words a | None \<Rightarrow> [])"

lemma words [simp]: "is_word ''PENDING''" "is_word ''ACTION''" "is_word ''STREAM''" "is_word ''PAUSED''"
    "is_word ''PLAYING''" "is_word ''STOPPED''" "is_word ''HOST_STATE''" "is_word ''WELCOME''"
  by (simp_all add: is_word_def is_space_def code_def)

lemma action_words_ok: "list_all is_word (action_words a)" "''STREAM'' \<notin> set (action_words a)"
proof -
  have digits: "hd (show_nat n) \<noteq> CHR ''S''" for n
    using show_nat_digits [of n] by (cases "show_nat n") (auto simp: is_digit_def code_def)
  then have "show_nat n \<noteq> ''STREAM''" for n by (metis list.sel(1))
  moreover have "show_int i \<noteq> ''STREAM''" for i
    using calculation by (auto simp: show_int_def)
  ultimately show "''STREAM'' \<notin> set (action_words a)"
    by (cases "action a") (auto simp: action_words_def dest: sym)
  show "list_all is_word (action_words a)"
    using show_nat_word show_int_word
    by (cases "action a") (simp_all add: action_words_def is_word_def is_space_def code_def)
qed

lemma state_words_ok: "list_all is_word (state_words r)" "''STREAM'' \<notin> set (state_words r)"
  using action_words_ok by (auto simp: state_words_def split: option.splits)

lemma shown_playback_word [simp]: "is_word (shown_playback state r)"
  by (simp add: shown_playback_def)

lemma hostStateLine_eq:
  assumes "room state = Some r"
  shows "hostStateLine state = line_of (''HOST_STATE'' @ spaced ([shown_playback state r,
      show_nat (unat (stream_sessionId state)), show_nat (unat (currentFrame state)),
      ''STREAM'', show_nat (unat (room_streamId (room_state r)))] @ state_words r))"
  using assms
  by (auto simp: hostStateLine_def snapshot_def shown_playback_def state_words_def action_words_def
      action_text_def Let_def split: option.split)

lemma updateState_line:
  assumes "joined_sessionId st = session" "is_word playback" "list_all is_word ws" "''STREAM'' \<notin> set ws"
  shows "updateState (''HOST_STATE'' @ spaced ([playback, show_nat (unat session), show_nat (unat (frame :: u64)),
      ''STREAM'', show_nat (unat (stream :: u32))] @ ws)) st =
    Inr (st\<lparr>joined_playback := playback, joined_streamId := stream\<rparr>)"
proof -
  let ?tail = "spaced (''STREAM'' # show_nat (unat stream) # ws)"
  let ?session = "spaced ([show_nat (unat session), show_nat (unat frame)] @ ''STREAM'' # show_nat (unat stream) # ws)"
  have 1: "read_word (''HOST_STATE'' @ spaced ([playback, show_nat (unat session), show_nat (unat frame),
      ''STREAM'', show_nat (unat stream)] @ ws)) = Some (''HOST_STATE'', CHR '' '' # playback @ ?session)"
    using read_word_append [of "''HOST_STATE''" "CHR '' '' # playback @ ?session"] by simp
  have 2: "read_word (playback @ ?session) = Some (playback, ?session)"
    by (rule read_word_append [OF assms(2)]) simp
  have 3: "read_unsigned 64 (show_nat (unat session) @ CHR '' '' # show_nat (unat frame) @ ?tail) =
      Some (unat session, CHR '' '' # show_nat (unat frame) @ ?tail)"
    using unat_u64_less [of session] by (intro read_unsigned_show) simp_all
  have 4: "read_unsigned 64 (show_nat (unat frame) @ ?tail) = Some (unat frame, ?tail)"
    using unat_u64_less [of frame] by (intro read_unsigned_show) simp_all
  show ?thesis
    unfolding updateState_def 1
    using 2 3 4 assms(1) read_stream_found [OF assms(3,4), of stream "joined_streamId st"] by simp
qed

lemma updateState_hostState:
  assumes "room state = Some r" "joined_sessionId st = stream_sessionId state"
  shows "\<exists>l. hostStateLine state = line_of l \<and>
    updateState l st = Inr (st\<lparr>joined_playback := shown_playback state r,
      joined_streamId := room_streamId (room_state r)\<rparr>)"
  using hostStateLine_eq [OF assms(1)]
    updateState_line [OF assms(2) shown_playback_word state_words_ok(1,2), of state r "currentFrame state"
      "room_streamId (room_state r)" r]
  by blast

text \<open>Actions whose times fit the integers they are kept in.\<close>

definition times_fit :: "Room \<Rightarrow> bool" where
  "times_fit r \<longleftrightarrow> (\<forall>a. pendingAction (room_state r) = Some a \<or> recentAction (room_state r) = Some a \<longrightarrow>
     in_int64 (effectiveHostNanoseconds a))"

lemma action_words_bounds:
  assumes "in_int64 (effectiveHostNanoseconds a)"
  shows "length (spaced (action_words a)) \<le> 60" "list_all is_printable (spaced (action_words a))"
  using length_show_int [OF assms] length_show_u64 [of "seekFrame a"] length_show_u32 [of "nextStreamId a"]
  by (cases "action a"; simp add: action_words_def is_printable_def code_def)+

lemma state_words_bounds:
  assumes "times_fit r"
  shows "length (spaced (state_words r)) \<le> 70" "list_all is_printable (spaced (state_words r))"
proof -
  have "length (spaced (action_words a)) \<le> 60 \<and> list_all is_printable (spaced (action_words a))"
    if "pendingAction (room_state r) = Some a \<or> recentAction (room_state r) = Some a" for a
    using action_words_bounds assms that by (auto simp: times_fit_def)
  from this [of "the (pendingAction (room_state r))"] this [of "the (recentAction (room_state r))"]
  show "length (spaced (state_words r)) \<le> 70" "list_all is_printable (spaced (state_words r))"
    by (auto simp: state_words_def is_printable_def code_def split: option.split)
qed

lemma hostStateLine_readable:
  assumes "room state = Some r" "times_fit r" "hostStateLine state = line_of l"
  shows "list_all is_printable l" "length l < 512"
proof -
  have l: "l = ''HOST_STATE'' @ spaced ([shown_playback state r,
      show_nat (unat (stream_sessionId state)), show_nat (unat (currentFrame state)),
      ''STREAM'', show_nat (unat (room_streamId (room_state r)))] @ state_words r)"
    using assms(3) unfolding hostStateLine_eq [OF assms(1)] by (simp add: line_of_def)
  note bounds = state_words_bounds [OF assms(2)] length_show_u64 [of "stream_sessionId state"]
    length_show_u64 [of "currentFrame state"] length_show_u32 [of "room_streamId (room_state r)"]
  show "list_all is_printable l" unfolding l using bounds
    by (simp add: shown_playback_def is_printable_def code_def spaced_def)
  show "length l < 512" unfolding l using bounds by (simp add: shown_playback_def spaced_def)
qed

section \<open>Theorems\<close>

text \<open>
  C?. A poll brings the room to its clients: from the host's answer, whatever action is pending or was
  carried out, a joined client takes exactly the playback state and the stream, keeps the rest, and
  goes on polling.
\<close>

theorem poll_reads_room:
  assumes "room state = Some r" "times_fit r" "joined_sessionId st = stream_sessionId state"
  shows "poll_room (Inr ()) (hostStateLine state) (st, []) =
    ((st\<lparr>joined_playback := shown_playback state r, joined_streamId := room_streamId (room_state r)\<rparr>, []), True)"
proof -
  obtain l where l: "hostStateLine state = line_of l"
    "updateState l st = Inr (st\<lparr>joined_playback := shown_playback state r,
      joined_streamId := room_streamId (room_state r)\<rparr>)"
    using updateState_hostState [OF assms(1,3)] by blast
  then show ?thesis
    using read_line_line_of [OF hostStateLine_readable [OF assms(1,2) l(1)], of "[]"]
    by (simp add: poll_room_def)
qed

subsection \<open>Joining a running host\<close>

text \<open>What a host must have set up for its lines to be readable.\<close>

definition announceable :: "ControlStreamState \<Rightarrow> Room \<Rightarrow> bool" where
  "announceable state r \<longleftrightarrow> stream_sessionId state \<noteq> 0 \<and> stream_streamId state \<noteq> 0 \<and>
     audioPort state \<noteq> 0 \<and> clockPort state \<noteq> 0 \<and>
     is_word (hostAddress state) \<and> list_all is_printable (hostAddress state) \<and> length (hostAddress state) \<le> 100 \<and>
     list_all is_printable (roomId (room_state r)) \<and> list_all (\<lambda>c. c \<noteq> CHR '' '') (roomId (room_state r)) \<and>
     length (roomId (room_state r)) \<le> 64 \<and>
     list_all is_printable (roomName (room_state r)) \<and> length (roomName (room_state r)) \<le> 48"

definition welcome_text :: "ControlStreamState \<Rightarrow> string" where
  "welcome_text state = ''WELCOME'' @ spaced [show_nat (unat (stream_sessionId state)),
     show_nat (unat (stream_streamId state)), show_nat (unat (audioPort state)), show_nat (unat (clockPort state)),
     show_nat (unat (stream_sampleRate state)), show_nat (unat (channels state)), hostAddress state]"

lemma welcome_line_eq: "welcome_line state = line_of (welcome_text state)"
  by (simp add: welcome_line_def welcome_text_def)

lemma welcome_readable:
  assumes "announceable state r"
  shows "list_all is_printable (welcome_text state)" "length (welcome_text state) < 512"
  using assms length_show_u64 [of "stream_sessionId state"] length_show_u32 [of "stream_streamId state"]
    length_show_u16 [of "audioPort state"] length_show_u16 [of "clockPort state"]
    length_show_u32 [of "stream_sampleRate state"] length_show_u16 [of "channels state"]
  by (simp_all add: welcome_text_def announceable_def spaced_def is_printable_def code_def)

lemma read_small: "unat n < 2 ^ w \<Longrightarrow> stops s \<Longrightarrow> read_unsigned w (show_nat (unat n) @ s) = Some (unat n, s)"
  by (rule read_unsigned_show)

lemma parse_welcome_text:
  assumes "announceable state r"
  shows "parse_welcome (welcome_text state) st = Some (st\<lparr>joined_sessionId := stream_sessionId state,
    joined_streamId := stream_streamId state, joined_audioPort := audioPort state,
    joined_clockPort := clockPort state\<rparr>)"
proof -
  note ok = assms [unfolded announceable_def]
  let ?s7 = "spaced [hostAddress state]"
  let ?s6 = "spaced [show_nat (unat (channels state)), hostAddress state]"
  let ?s5 = "spaced [show_nat (unat (stream_sampleRate state)), show_nat (unat (channels state)), hostAddress state]"
  let ?s4 = "CHR '' '' # show_nat (unat (clockPort state)) @ ?s5"
  let ?s3 = "CHR '' '' # show_nat (unat (audioPort state)) @ ?s4"
  let ?s2 = "CHR '' '' # show_nat (unat (stream_streamId state)) @ ?s3"
  let ?s1 = "CHR '' '' # show_nat (unat (stream_sessionId state)) @ ?s2"
  have whole: "welcome_text state = ''WELCOME'' @ ?s1" by (simp add: welcome_text_def)
  have 0: "read_word (''WELCOME'' @ ?s1) = Some (''WELCOME'', ?s1)" by (rule read_word_append) simp_all
  have 1: "read_unsigned 64 ?s1 = Some (unat (stream_sessionId state), ?s2)"
    unfolding read_unsigned_space using unat_u64_less [of "stream_sessionId state"] by (intro read_small) simp_all
  have 2: "read_unsigned 32 ?s2 = Some (unat (stream_streamId state), ?s3)"
    unfolding read_unsigned_space using unat_u32_less [of "stream_streamId state"] by (intro read_small) simp_all
  have 3: "read_unsigned 32 ?s3 = Some (unat (audioPort state), ?s4)"
    unfolding read_unsigned_space using unat_u16_less [of "audioPort state"] by (intro read_small) simp_all
  have 4: "read_unsigned 32 ?s4 = Some (unat (clockPort state), ?s5)"
    unfolding read_unsigned_space using unat_u16_less [of "clockPort state"] by (intro read_small) simp_all
  have 5: "read_unsigned 32 ?s5 = Some (unat (stream_sampleRate state), ?s6)"
    unfolding spaced_simps read_unsigned_space using unat_u32_less [of "stream_sampleRate state"]
    by (intro read_small) simp_all
  have 6: "read_unsigned 32 ?s6 = Some (unat (channels state), ?s7)"
    unfolding spaced_simps read_unsigned_space using unat_u16_less [of "channels state"]
    by (intro read_small) simp_all
  have 7: "read_word ?s7 = Some (hostAddress state, [])"
    using ok read_word_append [of "hostAddress state" "[]"] by simp
  have "unat (audioPort state) \<le> 65535" "unat (clockPort state) \<le> 65535"
    using unat_u16_less [of "audioPort state"] unat_u16_less [of "clockPort state"] by simp_all
  then show ?thesis
    unfolding parse_welcome_def whole 0 option.case prod.case 1 2 3 4 5 6 7
    using ok by (simp add: unat_eq_zero)
qed

lemma parse_room_text:
  assumes "list_all (\<lambda>c. c \<noteq> CHR '' '') ident"
  shows "parse_room (''ROOM '' @ ident @ '' '' @ name) st = Inr (st\<lparr>joined_roomName := name\<rparr>)"
  using takeWhile_append_stop(2) [of "\<lambda>c. c \<noteq> CHR '' ''" ident "CHR '' '' # name"] assms
  by (simp add: parse_room_def starts_with_def)

text \<open>The client's own device name is one the host accepts.\<close>

lemma desktop_device_valid:
  assumes "in_int64 now"
  shows "validDeviceId (''desktop-'' @ show_int now)"
proof -
  have "list_all id_char (show_nat n)" for n
    using show_nat_digits [of n] by (auto simp: list_all_iff id_char_def is_alnum_def)
  then have "list_all id_char (show_int now)" by (simp add: show_int_def id_char_def)
  then show ?thesis
    using length_show_int [OF assms]
    by (simp add: validDeviceId_def id_char_def is_alnum_def is_digit_def code_def)
qed

lemma read_welcome_answer:
  assumes r: "room state = Some r" and ok: "announceable state r" "times_fit r" "in_int64 sync"
  shows "read_welcome (welcome_line state @ line_of (''ROOM '' @ roomId (room_state r) @ '' '' @ roomName (room_state r)) @
      line_of (''SYNC_AT '' @ show_int sync) @ hostStateLine state) =
    Inr (\<lparr>joined_sessionId = stream_sessionId state, joined_streamId = room_streamId (room_state r),
      joined_audioPort = audioPort state, joined_clockPort = clockPort state,
      joined_roomName = roomName (room_state r), joined_playback = shown_playback state r, joined = True\<rparr>, [])"
proof -
  let ?roomLine = "''ROOM '' @ roomId (room_state r) @ '' '' @ roomName (room_state r)"
  let ?sync = "''SYNC_AT '' @ show_int sync"
  note fields = ok(1) [unfolded announceable_def]
  have room: "list_all is_printable ?roomLine" "length ?roomLine < 512"
    using fields by (simp_all add: is_printable_def code_def)
  have sync: "list_all is_printable ?sync" "length ?sync < 512" "starts_with ?sync ''SYNC_AT ''"
    using length_show_int [OF ok(3)] by (simp_all add: is_printable_def code_def starts_with_def)
  define st where "st = JoinedRoomState_new\<lparr>joined_sessionId := stream_sessionId state,
    joined_streamId := stream_streamId state, joined_audioPort := audioPort state,
    joined_clockPort := clockPort state, joined_roomName := roomName (room_state r)\<rparr>"
  have "joined_sessionId st = stream_sessionId state" by (simp add: st_def)
  from updateState_hostState [OF r this] obtain l where l: "hostStateLine state = line_of l"
    "updateState l st = Inr (st\<lparr>joined_playback := shown_playback state r,
      joined_streamId := room_streamId (room_state r)\<rparr>)" by blast
  have name: "parse_room ?roomLine (JoinedRoomState_new\<lparr>joined_sessionId := stream_sessionId state,
    joined_streamId := stream_streamId state, joined_audioPort := audioPort state,
    joined_clockPort := clockPort state\<rparr>) = Inr st"
    unfolding st_def by (rule parse_room_text) (use fields in simp)
  have read: "readLine (line_of x @ rest) = Inr (x, rest)" if "list_all is_printable x" "length x < 512" for x rest
    using read_line_line_of [OF that] .
  have last: "readLine (line_of l) = Inr (l, [])"
    using read [of l "[]"] hostStateLine_readable [OF r ok(2) l(1)] by simp
  show ?thesis
    unfolding read_welcome_def welcome_line_eq l(1) read [OF welcome_readable [OF ok(1)]] and_then_simps prod.case
      parse_welcome_text [OF ok(1)] option.case read [OF room] name read [OF sync(1,2)] last l(2)
    using sync(3) by (simp add: st_def JoinedRoomState_new_def)
qed

text \<open>
  A client that joins a running host learns exactly the room: the host accepts the device name the
  client makes up, the two answers are read to the last byte, and the client then holds the host's
  session, the room's stream, the two ports, the room's name and its playback state, while the room
  lists the client as a member.
\<close>

theorem join_reads_room:
  assumes "room state = Some r" "announceable state r" "times_fit r" "peer \<noteq> []"
    and "in_int64 now" "in_int64 (hostNow + 500000000)" "port \<noteq> 0"
  shows "\<exists>hello answer state' session r'.
    responseFor ''HELLO 2'' early peer state new_session = (Inr hello, state, new_session) \<and>
    responseFor (''JOIN desktop-'' @ show_int now) hostNow peer state new_session = (Inr answer, state', session) \<and>
    room state' = Some r' \<and> find_member (''desktop-'' @ show_int now) r' \<noteq> None \<and>
    RoomJoinClient_new port \<lparr>socketResult = Inr (), hostIsIpv4 = True, connectOk = True, joinTime = now,
        exchange = (\<lambda>line. if line = hello_line then Inr hello
          else if line = line_of (''JOIN desktop-'' @ show_int now) then Inr answer else Inr [])\<rparr> =
      Inr (\<lparr>joined_sessionId = stream_sessionId state, joined_streamId = room_streamId (room_state r),
        joined_audioPort = audioPort state, joined_clockPort = clockPort state,
        joined_roomName = roomName (room_state r), joined_playback = shown_playback state r, joined = True\<rparr>, [])"
proof -
  let ?device = "''desktop-'' @ show_int now"
  have "audioPort state \<noteq> 0" using assms(2) by (simp add: announceable_def)
  then obtain token r' where join: "join ?device peer (audioPort state) r = Inr (token, r')"
    using assms(4) by (auto simp: join_def Let_def)
  have r': "room_state r' = room_state r" using join_state [OF join] by simp
  have member: "find_member ?device r' \<noteq> None"
    using join by (auto simp: join_def find_member_def Let_def split: if_splits)
  let ?state = "state\<lparr>room := Some r'\<rparr>"
  let ?answer = "welcome_line ?state @ line_of (''ROOM '' @ roomId (room_state r') @ '' '' @ roomName (room_state r')) @
    line_of (''SYNC_AT '' @ show_int (hostNow + 500000000)) @ hostStateLine ?state"
  have answer: "responseFor (''JOIN desktop-'' @ show_int now) hostNow peer state new_session =
      (Inr ?answer, ?state, \<lparr>joinedDeviceId = ?device, session_token = token\<rparr>)"
    using desktop_device_valid [OF assms(5)] assms(1) join
    by (simp add: responseFor_def starts_with_def respond_join_def new_session_def snapshot_def Let_def)
  have "read_welcome ?answer = Inr (\<lparr>joined_sessionId = stream_sessionId ?state,
      joined_streamId = room_streamId (room_state r'), joined_audioPort = audioPort ?state,
      joined_clockPort = clockPort ?state, joined_roomName = roomName (room_state r'),
      joined_playback = shown_playback ?state r', joined = True\<rparr>, [])"
    by (rule read_welcome_answer)
      (use assms(2,3,6) r' in \<open>simp_all add: announceable_def times_fit_def\<close>)
  moreover have "readLine (line_of ''VERSION 2'') = Inr (''VERSION 2'', [])"
    using read_line_line_of [of "''VERSION 2''" 512 "[]"] by (simp add: is_printable_def code_def)
  moreover have "shown_playback ?state r' = shown_playback state r" using r' by (simp add: shown_playback_def)
  ultimately have "RoomJoinClient_new port \<lparr>socketResult = Inr (), hostIsIpv4 = True, connectOk = True,
      joinTime = now, exchange = (\<lambda>line. if line = hello_line then Inr (line_of ''VERSION 2'')
          else if line = line_of (''JOIN desktop-'' @ show_int now) then Inr ?answer else Inr [])\<rparr> =
      Inr (\<lparr>joined_sessionId = stream_sessionId state, joined_streamId = room_streamId (room_state r),
        joined_audioPort = audioPort state, joined_clockPort = clockPort state,
        joined_roomName = roomName (room_state r), joined_playback = shown_playback state r, joined = True\<rparr>, [])"
    using assms(7) r' by (simp add: RoomJoinClient_new_def join_line_def hello_line_def line_of_def)
  moreover have "responseFor ''HELLO 2'' early peer state new_session = (Inr (line_of ''VERSION 2''), state, new_session)"
    by (simp add: responseFor_def)
  moreover have "room ?state = Some r'" by simp
  ultimately show ?thesis using answer member by blast
qed

section \<open>Commands and segments\<close>

text \<open>What the host refuses a command with.\<close>

definition refusals :: "string list" where
  "refusals = [''ERROR host-only-command'', ''ERROR invalid-seek'', ''ERROR seek-out-of-range'',
     ''ERROR invalid-state'', ''ERROR command-pending'']"

lemma parse_refusal: "parse_command line n = Refuse e \<Longrightarrow> e \<in> set refusals"
  by (auto simp: parse_command_def refusals_def split: if_splits option.splits)

definition scheduled_text :: "RoomAction \<Rightarrow> int \<Rightarrow> u64 \<Rightarrow> string" where
  "scheduled_text act effective frame =
     ''SCHEDULED '' @ actionName act @ '' '' @ show_int effective @ '' '' @ show_nat (unat frame)"

lemma scheduleAction_other:
  "scheduleAction a r = Inr (False, r') \<Longrightarrow> r' = r"
  "scheduleAction a r = Inr (True, r') \<Longrightarrow> r' \<noteq> r"
  by (auto simp: scheduleAction_def split: if_splits dest: arg_cong [of _ _ "\<lambda>r. pendingAction (room_state r)"])

lemma respond_command_answers:
  assumes "respond_command line now peer state = (Inr answer, state')" "room state = Some r"
  shows "(state' = state \<and> (\<exists>e \<in> set refusals. answer = line_of e)) \<or>
    (room state' \<noteq> room state \<and> (\<exists>act frame. answer = line_of (scheduled_text act (now + 2000000000) frame)))"
  using assms(1,2)
proof (cases rule: respond_command_cases)
  case (Scheduled act frame r')
  then show ?thesis using assms(2) scheduleAction_other(2) by (auto simp: scheduled_text_def)
next
  case Same
  define busy where "busy \<longleftrightarrow> (\<exists>e \<in> set refusals. answer = line_of e)"
  have refuse: "busy" if "answer = line_of e" "e \<in> set refusals" for e using that by (auto simp: busy_def)
  have in_refusals: "''ERROR host-only-command'' \<in> set refusals" "''ERROR invalid-state'' \<in> set refusals"
    "''ERROR command-pending'' \<in> set refusals" by (simp_all add: refusals_def)
  have busy
  proof (cases "peer = ''127.0.0.1''")
    case False
    then show ?thesis
      using assms refuse [OF _ in_refusals(1)] by (simp add: respond_command_def eq_commute)
  next
    case peer: True
    show ?thesis
    proof (cases "parse_command line (totalFrames state)")
      case (Refuse e)
      then have "answer = line_of e" using assms peer by (simp add: respond_command_def)
      then show ?thesis by (rule refuse [OF _ parse_refusal [OF Refuse]])
    next
      case (Accept p)
      obtain act frame where p: "p = (act, frame)" by fastforce
      let ?a = "scheduled_action act now frame (room_streamId (room_state r))"
      show ?thesis
      proof (cases "act = Play \<and> playbackState (room_state r) = Playing \<or>
          act = Pause \<and> playbackState (room_state r) \<noteq> Playing \<or>
          act = Seek \<and> playbackState (room_state r) = Stopped")
        case True
        then have "answer = line_of ''ERROR invalid-state''"
          using assms peer Accept p by (auto simp: respond_command_def snapshot_def Let_def)
        then show ?thesis by (rule refuse [OF _ in_refusals(2)])
      next
        case False
        note eq = respond_command_valid [OF assms(2) peer Accept [unfolded p] this]
        have "\<not> (\<exists>r'. scheduleAction ?a r = Inr (True, r'))"
        proof
          assume "\<exists>r'. scheduleAction ?a r = Inr (True, r')"
          then obtain r' where r': "scheduleAction ?a r = Inr (True, r')" by blast
          then have "state' = state\<lparr>room := Some r'\<rparr>" using assms(1) eq by simp
          then have "room state' = Some r'" by simp
          then show False using Same assms(2) scheduleAction_other(2) [OF r'] by simp
        qed
        then have "answer = line_of ''ERROR command-pending''"
          using assms(1) eq by (auto split: sum.splits bool.splits)
        then show ?thesis by (rule refuse [OF _ in_refusals(3)])
      qed
    qed
  qed
  then show ?thesis using Same by (simp add: busy_def)
qed

lemma read_answer_line_of:
  "newline \<notin> set l \<Longrightarrow> length l < n \<Longrightarrow> read_answer n (line_of l @ rest) = Inr l"
proof (induction l arbitrary: n)
  case Nil
  then show ?case by (cases n) (simp_all add: line_of_def)
next
  case (Cons c l)
  then show ?case by (cases n) (auto simp: line_of_def)
qed

lemma printable_no_newline: "list_all is_printable l \<Longrightarrow> newline \<notin> set l"
  by (auto simp: list_all_iff is_printable_def newline_def)

lemma refusals_readable:
  "e \<in> set refusals \<Longrightarrow> list_all is_printable e \<and> length e < 256 \<and> \<not> starts_with e ''SCHEDULED ''"
  by (auto simp: refusals_def is_printable_def code_def starts_with_def)

lemma scheduled_text_readable:
  assumes "in_int64 effective"
  shows "list_all is_printable (scheduled_text act effective frame)"
    "length (scheduled_text act effective frame) < 256"
    "starts_with (scheduled_text act effective frame) ''SCHEDULED ''"
  using length_show_int [OF assms] length_show_u64 [of frame]
  by (cases act; simp add: scheduled_text_def is_printable_def code_def starts_with_def)+


text \<open>The rounds of the inner loop: the segments started, round by round, until the host is lost.\<close>

fun follow_all :: "JoinedRoomState list \<Rightarrow> follower \<Rightarrow> segment option list" where
  "follow_all [] f = []"
| "follow_all (st # sts) f =
     (case follow st f of Inl e \<Rightarrow> [] | Inr (s, f) \<Rightarrow> s # follow_all sts f)"

text \<open>When a round should start a segment, from what the round before has seen.\<close>

fun starts :: "(string \<times> u32) option \<Rightarrow> JoinedRoomState \<Rightarrow> bool" where
  "starts None st = (joined_playback st = ''PLAYING'')"
| "starts (Some (playback, stream)) st =
     (joined_playback st = ''PLAYING'' \<and> (playback \<noteq> ''PLAYING'' \<or> joined_streamId st \<noteq> stream))"

fun segments_due :: "(string \<times> u32) option \<Rightarrow> JoinedRoomState list \<Rightarrow> bool list" where
  "segments_due seen [] = []"
| "segments_due seen (st # sts) =
     (if joined st then starts seen st # segments_due (Some (joined_playback st, joined_streamId st)) sts else [])"

definition follower_saw :: "(string \<times> u32) option \<Rightarrow> follower \<Rightarrow> bool" where
  "follower_saw seen f \<longleftrightarrow>
     (case seen of None \<Rightarrow> observedInactive f
      | Some (playback, stream) \<Rightarrow>
          if playback = ''PLAYING'' then \<not> observedInactive f \<and> lastStream f = stream else observedInactive f)"

definition segment_of :: "JoinedRoomState \<Rightarrow> segment" where
  "segment_of st = \<lparr>segment_audioPort = joined_audioPort st, segment_clockPort = joined_clockPort st,
     segment_session = joined_sessionId st, segment_stream = joined_streamId st\<rparr>"

definition follower_after :: "(string \<times> u32) option \<Rightarrow> JoinedRoomState \<Rightarrow> follower \<Rightarrow> follower" where
  "follower_after seen st f =
     (if starts seen st then \<lparr>lastStream = joined_streamId st, observedInactive = False\<rparr>
      else if joined_playback st \<noteq> ''PLAYING'' then f\<lparr>observedInactive := True\<rparr> else f)"

lemma follow_step:
  assumes "joined st" "follower_saw seen f"
  shows "follow st f = Inr (if starts seen st then Some (segment_of st) else None, follower_after seen st f)"
proof -
  define play where "play \<longleftrightarrow> joined_playback st = ''PLAYING''"
  show ?thesis
  proof (cases seen)
    case None
    then show ?thesis using assms unfolding follow_def follower_after_def play_def [symmetric]
      by (simp add: follower_saw_def segment_of_def play_def [symmetric] Let_def)
  next
    case (Some x)
    obtain playback stream where x: "x = (playback, stream)" by fastforce
    define played where "played \<longleftrightarrow> playback = ''PLAYING''"
    show ?thesis
      using assms Some x unfolding follow_def follower_after_def play_def [symmetric]
      by (cases played)
        (simp_all add: follower_saw_def segment_of_def play_def [symmetric] played_def [symmetric] Let_def)
  qed
qed

lemma follow_saw:
  assumes "follower_saw seen f"
  shows "follower_saw (Some (joined_playback st, joined_streamId st)) (follower_after seen st f)"
proof -
  define play where "play \<longleftrightarrow> joined_playback st = ''PLAYING''"
  show ?thesis
  proof (cases seen)
    case None
    then show ?thesis using assms unfolding follower_after_def play_def [symmetric]
      by (simp add: follower_saw_def play_def [symmetric])
  next
    case (Some x)
    obtain playback stream where x: "x = (playback, stream)" by fastforce
    define played where "played \<longleftrightarrow> playback = ''PLAYING''"
    show ?thesis
      using assms Some x unfolding follower_after_def play_def [symmetric]
      by (cases played) (simp_all add: follower_saw_def play_def [symmetric] played_def [symmetric])
  qed
qed

text \<open>
  C39. A client plays each segment once: in every run of polls a segment starts in exactly the rounds
  that find the room playing after a round that found it not playing or on another stream (or in the
  first round), with the ports, the session and the stream of that round; a room that only stays as it
  is starts nothing.
\<close>

theorem segments_started_exactly:
  "map (\<lambda>s. s \<noteq> None) (follow_all sts follower_new) = segments_due None sts \<and>
   (\<forall>i s. i < length (follow_all sts follower_new) \<longrightarrow> follow_all sts follower_new ! i = Some s \<longrightarrow>
      segment_stream s = joined_streamId (sts ! i) \<and> segment_session s = joined_sessionId (sts ! i))"
proof -
  have run: "map (\<lambda>s. s \<noteq> None) (follow_all sts f) = segments_due seen sts \<and>
      list_all2 (\<lambda>st s. \<forall>x. s = Some x \<longrightarrow> segment_stream x = joined_streamId st \<and>
        segment_session x = joined_sessionId st) (take (length (follow_all sts f)) sts) (follow_all sts f)"
    if "follower_saw seen f" for f seen
    using that
  proof (induction sts arbitrary: f seen)
    case Nil
    then show ?case by simp
  next
    case (Cons st sts)
    show ?case
    proof (cases "joined st")
      case False
      then show ?thesis by (simp add: follow_def)
    next
      case True
      show ?thesis
        using follow_step [OF True Cons.prems] Cons.IH [OF follow_saw [OF Cons.prems]] True
        by (simp add: segment_of_def)
    qed
  qed
  have "follower_saw None follower_new" by (simp add: follower_saw_def follower_new_def)
  from run [OF this] show ?thesis by (auto simp: list_all2_conv_all_nth)
qed

section \<open>Witnesses\<close>

lemma example_control_room: "room example_control = Some example_room"
  by (simp add: example_control_def)

lemma example_announceable: "announceable example_control example_room" "times_fit example_room"
  by (simp_all add: announceable_def example_control_def example_room_def is_word_def is_space_def
      is_printable_def code_def times_fit_def)

theorem poll_reads_room_witness:
  "poll_room (Inr ()) (hostStateLine example_control) (JoinedRoomState_new\<lparr>joined_sessionId := 9\<rparr>, []) =
    ((JoinedRoomState_new\<lparr>joined_sessionId := 9, joined_playback := ''STOPPED'', joined_streamId := 1\<rparr>, []), True)"
  using poll_reads_room [OF example_control_room example_announceable(2), of "JoinedRoomState_new\<lparr>joined_sessionId := 9\<rparr>"]
  by (simp add: example_control_def example_room_def shown_playback_def)

theorem join_reads_room_witness:
  "\<exists>answer state' session st. responseFor (''JOIN desktop-'' @ show_int 77) 1000 ''10.0.0.3'' example_control new_session =
      (Inr answer, state', session) \<and>
    RoomJoinClient_new 40102 \<lparr>socketResult = Inr (), hostIsIpv4 = True, connectOk = True, joinTime = 77,
        exchange = (\<lambda>line. if line = hello_line then Inr (line_of ''VERSION 2'')
          else if line = line_of (''JOIN desktop-'' @ show_int 77) then Inr answer else Inr [])\<rparr> = Inr (st, []) \<and>
    joined_roomName st = ''Kitchen'' \<and> joined_sessionId st = 9"
proof -
  have h: "responseFor ''HELLO 2'' 1 ''10.0.0.3'' example_control new_session =
      (Inr (line_of ''VERSION 2''), example_control, new_session)" by (simp add: responseFor_def)
  have fields: "roomName (room_state example_room) = ''Kitchen''" "stream_sessionId example_control = 9"
    by (simp_all add: example_room_def example_control_def)
  show ?thesis
    using join_reads_room [OF example_control_room example_announceable, of "''10.0.0.3''" 77 1000 40102 1] h fields
    by (auto simp: in_int64_def)
qed


definition polled :: "string \<Rightarrow> u32 \<Rightarrow> JoinedRoomState" where
  "polled playback stream = JoinedRoomState_new\<lparr>joined := True, joined_playback := playback, joined_streamId := stream\<rparr>"

theorem segments_started_exactly_witness:
  "map (\<lambda>s. s \<noteq> None) (follow_all [polled ''PLAYING'' 1, polled ''PLAYING'' 1, polled ''PLAYING'' 2,
     polled ''PAUSED'' 2, polled ''PLAYING'' 2] follower_new) = [True, False, True, False, True]"
  using segments_started_exactly [of "[polled ''PLAYING'' 1, polled ''PLAYING'' 1, polled ''PLAYING'' 2,
     polled ''PAUSED'' 2, polled ''PLAYING'' 2]"]
  by (simp add: polled_def)

end
