(* ===== verification/End_To_End.thy ===== *)
theory End_To_End
  imports Network_Host Stream_Player Packet_Receiver
begin

text \<open>
  The way of the audio from the host's file to the client's device, across the components: the packets
  \<open>Network_Host\<close> sends, over a network that may lose, repeat and reorder their datagrams, through the
  receiver thread of \<open>Packet_Receiver\<close> and the jitter buffer to what \<open>Stream_Player\<close> reads.
\<close>

section \<open>What a stream sends\<close>

text \<open>The identity and the format every packet of a stream shares.\<close>

definition of_stream :: "HostStream \<Rightarrow> AudioPacket \<Rightarrow> bool" where
  "of_stream h p \<longleftrightarrow> sessionId p = stats_sessionId h \<and> streamId p = config_streamId (config h) \<and>
     sampleRate p = stream_rate h \<and> channelCount p = stream_channels h \<and> packet_valid p"

lemma host_send_of_stream:
  assumes "host_send is_ipv4 t presentation h = Inr (h', sent)"
  shows "\<forall>x \<in> set sent. of_stream h (packet x) \<and> serialize (packet x) = Inr (wire x)"
    and "of_stream h' = of_stream h"
  using assms
  by (auto simp: host_send_def Let_def res_simps of_stream_def host_packet_def serialize_Inr_iff fun_eq_iff
      split: if_splits)

lemma host_step_of_stream:
  assumes "host_step is_ipv4 t h = Inr (h', sent)"
  shows "(\<forall>x \<in> set sent. of_stream h (packet x) \<and> serialize (packet x) = Inr (wire x)) \<and> of_stream h' = of_stream h"
proof -
  consider (ended) mark where "h' = stream_end h mark" "sent = []"
    | (sends) presentation where "host_send is_ipv4 t presentation h = Inr (h', sent)"
    using assms by (auto simp: host_step_def res_simps split: if_splits option.splits)
  then show ?thesis
  proof cases
    case ended
    then show ?thesis by (simp add: stream_end_def of_stream_def fun_eq_iff)
  next
    case sends
    then show ?thesis using host_send_of_stream [OF sends] by blast
  qed
qed

lemma host_loop_of_stream:
  "host_loop is_ipv4 ts h = (result, sent) \<Longrightarrow>
    \<forall>x \<in> set sent. of_stream h (packet x) \<and> serialize (packet x) = Inr (wire x)"
proof (induction ts arbitrary: h sent)
  case Nil
  then show ?case by simp
next
  case (Cons t ts)
  show ?case
  proof (cases "running h")
    case False
    then show ?thesis using Cons.prems by simp
  next
    case True
    show ?thesis
    proof (cases "host_step is_ipv4 t h")
      case (Inl e)
      then show ?thesis using Cons.prems True by simp
    next
      case (Inr step)
      obtain h' now later where step: "host_step is_ipv4 t h = Inr (h', now)"
        "host_loop is_ipv4 ts h' = (result, later)" "sent = now @ later"
        using Cons.prems True Inr by (cases step) (auto split: prod.splits)
      then show ?thesis using Cons.IH [OF step(2)] host_step_of_stream [OF step(1)] by auto
    qed
  qed
qed

section \<open>Where the audio of a packet is\<close>

text \<open>Packets of one format, each starting where the one before ends.\<close>

definition consistent :: "nat \<Rightarrow> sent_packet list \<Rightarrow> bool" where
  "consistent c xs \<longleftrightarrow> (\<forall>x \<in> set xs. packet_valid (packet x) \<and> unat (channelCount (packet x)) = c)"

lemma packet_valid_audio:
  "packet_valid p \<Longrightarrow> length (decodePcm (pcmPayload p)) = unat (frameCount p) * unat (channelCount p)"
  by (auto simp: packet_valid_def length_decodePcm)

lemma next_start:
  assumes "packet_valid p"
  shows "unat (startFrame p + ucast (frameCount p)) = unat (startFrame p) + unat (frameCount p)"
  using assms by (subst unat_add_no_wrap) (simp_all add: packet_valid_def)

lemma starts_after:
  "packets_follow frame seq xs \<Longrightarrow> consistent c xs \<Longrightarrow> x \<in> set xs \<Longrightarrow> unat frame \<le> unat (startFrame (packet x))"
proof (induction xs arbitrary: frame seq)
  case (Cons y ys)
  have "consistent c ys" using Cons.prems(2) by (simp add: consistent_def)
  then show ?case
    using Cons.IH [of "frame + ucast (frameCount (packet y))" "seq + 1"] Cons.prems next_start [of "packet y"]
    by (auto simp: consistent_def)
qed simp

lemma sent_sample:
  assumes "packets_follow frame seq xs" "consistent c xs" "x \<in> set xs" "ch < c"
    and "covers (buffered_of (packet x)) (unat frame + j)"
  shows "packet_sample c (buffered_of (packet x)) (unat frame + j) ch = sent_audio xs ! (j * c + ch)"
  using assms
proof (induction xs arbitrary: frame seq j)
  case (Cons y ys)
  let ?n = "unat (frameCount (packet y))" and ?next = "frame + ucast (frameCount (packet y))"
  have y: "packet_valid (packet y)" "startFrame (packet y) = frame" "unat (channelCount (packet y)) = c"
    using Cons.prems(1,2) by (simp_all add: consistent_def)
  have audio: "sent_audio (y # ys) = decodePcm (pcmPayload (packet y)) @ sent_audio ys"
    "length (decodePcm (pcmPayload (packet y))) = ?n * c"
    using packet_valid_audio [OF y(1)] y(3) by (simp_all add: sent_audio_def)
  show ?case
  proof (cases "x = y")
    case True
    then have "j < ?n" using Cons.prems(5) y(2) by (simp add: covers_def buffered_of_def)
    then have "j * c + ch < ?n * c" using Cons.prems(4) by (rule frame_index_bound)
    then show ?thesis
      using True audio y(2) by (simp add: packet_sample_def buffered_of_def nth_append)
  next
    case False
    then have x: "x \<in> set ys" using Cons.prems(3) by simp
    have rest: "packets_follow ?next (seq + 1) ys" "consistent c ys"
      using Cons.prems(1,2) by (simp_all add: consistent_def)
    have start: "unat ?next = unat frame + ?n" using next_start [OF y(1)] y(2) by simp
    have "unat ?next \<le> unat frame + j"
      using starts_after [OF rest x] Cons.prems(5) by (simp add: covers_def buffered_of_def)
    then have j: "?n \<le> j" "unat frame + j = unat ?next + (j - ?n)" using start by simp_all
    have "packet_sample c (buffered_of (packet x)) (unat frame + j) ch = sent_audio ys ! ((j - ?n) * c + ch)"
      using Cons.IH [OF rest x Cons.prems(4), of "j - ?n"] Cons.prems(5) j(2) by simp
    also have "\<dots> = sent_audio (y # ys) ! (j * c + ch)"
    proof -
      have "?n * c \<le> j * c + ch" using mult_le_mono1 [OF j(1), of c] by linarith
      then show ?thesis using audio frame_index_diff [OF j(1), of c ch] by (simp add: nth_append)
    qed
    finally show ?thesis .
  qed
qed simp

lemma covered_within:
  assumes "packets_follow frame seq xs" "consistent c xs" "x \<in> set xs"
    and "covers (buffered_of (packet x)) (unat frame + j)"
  shows "j < sent_frames xs"
  using assms
proof (induction xs arbitrary: frame seq j)
  case (Cons y ys)
  let ?n = "unat (frameCount (packet y))"
  have y: "packet_valid (packet y)" "startFrame (packet y) = frame"
    using Cons.prems(1,2) by (simp_all add: consistent_def)
  show ?case
  proof (cases "x = y")
    case True
    then show ?thesis using Cons.prems(4) y(2) by (simp add: covers_def buffered_of_def sent_frames_def)
  next
    case False
    then have x: "x \<in> set ys" using Cons.prems(3) by simp
    have rest: "packets_follow (frame + ucast (frameCount (packet y))) (seq + 1) ys" "consistent c ys"
      using Cons.prems(1,2) by (simp_all add: consistent_def)
    have start: "unat (frame + ucast (frameCount (packet y))) = unat frame + ?n"
      using next_start [OF y(1)] y(2) by simp
    show ?thesis
    proof (cases "?n \<le> j")
      case True
      then have "unat frame + j = unat (frame + ucast (frameCount (packet y))) + (j - ?n)"
        using start by simp
      then have "j - ?n < sent_frames ys" using Cons.IH [OF rest x, of "j - ?n"] Cons.prems(4) by simp
      then show ?thesis by (simp add: sent_frames_def)
    qed (simp add: sent_frames_def)
  qed
qed simp

lemma sent_source:
  assumes "packets_follow frame seq xs" "consistent c xs"
    "sent_audio xs = take (sent_frames xs * c) source" "x \<in> set xs" "ch < c"
    "covers (buffered_of (packet x)) (unat frame + j)"
  shows "packet_sample c (buffered_of (packet x)) (unat frame + j) ch = source ! (j * c + ch)"
proof -
  have "j * c + ch < sent_frames xs * c"
    by (rule frame_index_bound [OF covered_within [OF assms(1,2,4,6)] assms(5)])
  then show ?thesis using sent_sample [OF assms(1,2,4-6)] assms(3) by simp
qed

lemma unat_frame_plus: "unat frame + s < 18446744073709551616 \<Longrightarrow> unat (frame + of_nat s :: u64) = unat frame + s"
proof -
  assume s: "unat frame + s < 18446744073709551616"
  then have "unat (of_nat s :: u64) = s" by (simp add: unsigned_of_nat take_bit_nat_eq_self_iff)
  then show ?thesis using s by (subst unat_add_no_wrap) simp_all
qed

text \<open>Two packets that cover the same frame are the same.\<close>

lemma covers_unique:
  assumes "packets_follow frame seq xs" "consistent c xs" "x \<in> set xs" "y \<in> set xs"
    and "covers (buffered_of (packet x)) f" "covers (buffered_of (packet y)) f"
  shows "packet x = packet y"
  using assms
proof (induction xs arbitrary: frame seq)
  case (Cons z zs)
  have z: "packet_valid (packet z)" "startFrame (packet z) = frame"
    and rest: "packets_follow (frame + ucast (frameCount (packet z))) (seq + 1) zs" "consistent c zs"
    using Cons.prems(1,2) by (simp_all add: consistent_def)
  have "\<not> covers (buffered_of (packet z)) f" if "w \<in> set zs" "covers (buffered_of (packet w)) f" for w
    using starts_after [OF rest that(1)] next_start [OF z(1)] that(2) z(2)
    by (auto simp: covers_def buffered_of_def)
  then show ?case using Cons.prems(3-6) Cons.IH [OF rest] by auto
qed simp

text \<open>Two packets with the same start frame are the same, and every frame of the stream is in one.\<close>

lemma start_unique:
  assumes "packets_follow frame seq xs" "consistent c xs" "x \<in> set xs" "y \<in> set xs"
    and "startFrame (packet x) = startFrame (packet y)"
  shows "packet x = packet y"
proof -
  have pos: "0 < unat (frameCount (packet w))" if "w \<in> set xs" for w
    using assms(2) that by (simp add: consistent_def packet_valid_def unat_gt_0)
  show ?thesis
    by (rule covers_unique [OF assms(1-4), of "unat (startFrame (packet x))"])
      (use assms(5) pos assms(3,4) in \<open>simp_all add: covers_def buffered_of_def\<close>)
qed

section \<open>The buffer under the packets of one stream\<close>

text \<open>
  A buffer nothing has been read from, holding exactly the packets \<open>got\<close> of one stream.
\<close>

definition holds :: "JitterBufferFormat \<Rightarrow> AudioPacket set \<Rightarrow> JitterBuffer \<Rightarrow> bool" where
  "holds f got b \<longleftrightarrow> buffer_ok b \<and> latestReadFrame b = 0 \<and>
     set (packets b) = (\<lambda>p. (startFrame p, buffered_of p)) ` got \<and>
     (if got = {} then format b = None \<or> format b = Some f else format b = Some f)"

lemma holds_new: "holds f {} JitterBuffer_new"
  by (simp add: holds_def) (simp add: JitterBuffer_new_def)

lemma nothing_expired:
  assumes "buffer_ok b" "latestReadFrame b = 0"
  shows "packets (evict_expired b) = packets b"
proof -
  have "\<not> end_frame (snd e) \<le> latestReadFrame b" if "e \<in> set (packets b)" for e
  proof -
    have e: "entry_ok (format b) (latestEndFrame b) e" using assms(1) that by (simp add: buffer_ok_def)
    then have "0 < unat (end_frame (snd e))" by (subst unat_end_frame) (auto simp: entry_ok_def)
    then show ?thesis using assms(2) by (simp add: word_le_nat_alt)
  qed
  then show ?thesis
    unfolding evict_expired_def by (simp add: dropWhile_eq_self_iff)
qed

lemma valid_acceptable:
  assumes "packet_valid p"
  shows "packet_acceptable p" "payload_matches p" "\<not> startFrame p + ucast (frameCount p) \<le> 0"
proof -
  have "sampleFormat p = PcmS16LittleEndian" "\<not> sampleRate p < 8000" "\<not> sampleRate p > 192000"
    "channelCount p \<noteq> 0" "\<not> channelCount p > 2" "frameCount p \<noteq> 0"
    using assms by (auto simp: packet_valid_def word_less_nat_alt word_le_nat_alt)
  moreover have "\<not> startFrame p > u64_max - ucast (frameCount p)"
    using assms unfolding u64_no_wrap_iff by (simp add: packet_valid_def)
  ultimately show "packet_acceptable p" unfolding packet_acceptable_def by blast
  show "payload_matches p" using assms by (simp add: packet_valid_def payload_matches_def)
  have "0 < unat (startFrame p + ucast (frameCount p))"
    using assms by (subst next_start) (auto simp: packet_valid_def unat_gt_0)
  then show "\<not> startFrame p + ucast (frameCount p) \<le> 0" by (simp add: word_le_nat_alt)
qed

lemma push_holds:
  assumes b: "holds f got b" and p: "packet_valid p" "incoming_format p = f" and t: "time_ok t"
    and few: "length (packets b) < 1024"
    and same: "\<And>q. q \<in> got \<Longrightarrow> startFrame q = startFrame p \<Longrightarrow> q = p"
  shows "\<exists>r b'. push p t b = (Inr r, b') \<and> holds f (insert p got) b'"
proof -
  have ok: "buffer_ok b" "latestReadFrame b = 0" "format b = None \<or> format b = Some (incoming_format p)"
    and entries: "set (packets b) = (\<lambda>p. (startFrame p, buffered_of p)) ` got"
    using b p(2) by (auto simp: holds_def split: if_splits)
  note acc = valid_acceptable [OF p(1)]
  have late: "\<not> packet_late p b" using acc(3) ok(2) by (simp add: packet_late_def)
  note kept = nothing_expired [OF ok(1,2)]
  have map_ok: "map_ok (packets (evict_expired b))" using ok(1) kept by (simp add: buffer_ok_def)
  have dup: "packet_duplicate p b \<longleftrightarrow> p \<in> got"
    using same entries by (force simp: packet_duplicate_def kept)
  from ok(1) t acc(1,2) late ok(3) show ?thesis
  proof (cases rule: push_emplaced_cases)
    case Duplicate
    have "buffer_ok (snd (push p t b))" by (rule push_ok [OF ok(1) t])
    then show ?thesis
      using Duplicate(2,3) Duplicate(1) dup p(2) entries ok(2)
      by (auto simp: holds_def kept insert_absorb)
  next
    case (Inserted b' m)
    have len: "length (packets b') \<le> 1024"
      using packet_map.length_emplace [OF map_ok, of "startFrame p" "buffered_of p"] few
      by (simp add: Inserted(3) inserted_buffer_def kept)
    then have push: "push p t b = (Inr True, b')" using Inserted(2) by (simp add: drop_overflow_def)
    have "buffer_ok b'" using push_ok [OF ok(1) t, of p] push by simp
    moreover have "set (packets b') = insert (startFrame p, buffered_of p) (set (packets b))"
      using set_inserted_buffer [OF map_ok Inserted(1)] by (simp add: Inserted(3) kept)
    ultimately have "holds f (insert p got) b'"
      using ok(2) p(2) entries by (simp add: holds_def Inserted(3))
    then show ?thesis using push by blast
  qed
qed

text \<open>The stream's packets in the order and the number the network delivers them, and silence.\<close>

fun network_event :: "sent_packet list \<Rightarrow> client_event \<Rightarrow> bool" where
  "network_event sent (Arrives a arrivalTime now) \<longleftrightarrow> time_ok arrivalTime \<and>
     (receive a = Inr None \<or> (\<exists>x \<in> set sent. a = Datagram (wire x)))"
| "network_event sent (Reads _ _ _ _) \<longleftrightarrow> False"

definition arrived :: "client_event list \<Rightarrow> sent_packet list \<Rightarrow> sent_packet set" where
  "arrived es sent = {x \<in> set sent. \<exists>t n. Arrives (Datagram (wire x)) t n \<in> set es}"

text \<open>A worker that runs and hears the stream, or has heard nothing yet.\<close>

definition listens :: "HostStream \<Rightarrow> PacketReceiverWorker \<Rightarrow> bool" where
  "listens h w \<longleftrightarrow> \<not> stopped w \<and>
     (knownSession w = None \<or>
      knownSession w = Some (stats_sessionId h) \<and> knownStream w = Some (config_streamId (config h)))"

lemma stream_datagram:
  assumes "serialize p = Inr bytes"
  shows "receive (Datagram bytes) = Inr (Some bytes)" "deserialize bytes = Inr p"
proof -
  have p: "packet_valid p" "bytes = header p @ pcmPayload p" using assms by (simp_all add: serialize_Inr_iff)
  then have "length bytes = 52 + length (pcmPayload p)" "length (pcmPayload p) \<le> 1148"
    using length_header [of p] by (simp_all add: packet_valid_def)
  moreover from this have "bytes \<noteq> []" by auto
  ultimately show "receive (Datagram bytes) = Inr (Some bytes)" by (simp add: receive_datagram)
  show "deserialize bytes = Inr p" by (rule deserialize_serialized [OF assms])
qed

lemma stream_packet_accepted:
  assumes "of_stream h p" "listens h w"
  shows "\<exists>v. accept_stream p w = Inr (v, True) \<and> listens h v"
proof (cases "knownSession w")
  case None
  then show ?thesis using assms by (simp add: accept_stream_def listens_def of_stream_def)
next
  case (Some s)
  then show ?thesis using assms by (simp add: accept_stream_def listens_def of_stream_def)
qed

lemma stream_packet_received:
  assumes "serialize p = Inr bytes" "of_stream h p" "listens h w" "push p t b = (Inr r, b')"
  shows "\<exists>w'. receiver_turn (Datagram bytes) t n w b = (w', b') \<and> listens h w'"
proof -
  obtain v where v: "accept_stream p w = Inr (v, True)" "listens h v"
    using stream_packet_accepted [OF assms(2,3)] by blast
  have runs: "\<not> stopped w" using assms(3) by (simp add: listens_def)
  have "listens h (updateSequenceStatistics (sequenceNumber p) v)" using v(2) by (simp add: listens_def)
  then show ?thesis
    using v runs assms(4) stream_datagram [OF assms(1)]
    by (cases r) (simp_all add: receiver_turn_def receive_datagram_def receive_packet_def Let_def listens_def)
qed

definition stream_format :: "HostStream \<Rightarrow> JitterBufferFormat" where
  "stream_format h = \<lparr>format_sampleRate = stream_rate h, format_channelCount = stream_channels h\<rparr>"

lemma map_ok_distinct: "map_ok m \<Longrightarrow> distinct m"
  by (induction m) auto

lemma holds_few:
  assumes "holds f got b" "got \<subseteq> packet ` set sent"
  shows "length (packets b) \<le> length sent"
proof -
  have "map_ok (packets b)" using assms(1) by (simp add: holds_def buffer_ok_def)
  then have "distinct (packets b)" by (rule map_ok_distinct)
  then have "length (packets b) = card (set (packets b))" by (simp add: distinct_card)
  also have "\<dots> \<le> card got"
    using assms finite_subset [OF assms(2)] by (simp add: holds_def card_image_le)
  also have "\<dots> \<le> card (packet ` set sent)" by (rule card_mono [OF _ assms(2)]) simp
  also have "\<dots> \<le> length sent" by (rule order_trans [OF card_image_le card_length]) simp
  finally show ?thesis .
qed

lemma network_step:
  assumes stream: "packets_follow first seq sent" "consistent c sent"
      "\<forall>x \<in> set sent. of_stream h (packet x) \<and> serialize (packet x) = Inr (wire x)"
    and few: "length sent < 1024" and x: "x \<in> set sent" and t: "time_ok t"
    and state: "listens h w" "holds (stream_format h) got b" "got \<subseteq> packet ` set sent"
  shows "\<exists>w' b'. receiver_turn (Datagram (wire x)) t n w b = (w', b') \<and> listens h w' \<and>
    holds (stream_format h) (insert (packet x) got) b'"
proof -
  have p: "of_stream h (packet x)" "serialize (packet x) = Inr (wire x)" using stream(3) x by simp_all
  have same: "q = packet x" if q: "q \<in> got" "startFrame q = startFrame (packet x)" for q
  proof -
    obtain y where y: "y \<in> set sent" "q = packet y" using q(1) state(3) by blast
    show ?thesis unfolding y(2) by (rule start_unique [OF stream(1,2) y(1) x]) (use q(2) y(2) in simp)
  qed
  have format: "packet_valid (packet x)" "incoming_format (packet x) = stream_format h"
    using p(1) by (simp_all add: of_stream_def incoming_format_def stream_format_def)
  have room: "length (packets b) < 1024" using holds_few [OF state(2,3)] few by simp
  obtain r b' where push: "push (packet x) t b = (Inr r, b')"
    and b': "holds (stream_format h) (insert (packet x) got) b'"
    using push_holds [OF state(2) format t room same] by blast
  show ?thesis using stream_packet_received [OF p(2,1) state(1) push] b' by blast
qed

lemma arrived_Cons:
  assumes "\<forall>x \<in> set sent. serialize (packet x) = Inr (wire x)" "x \<in> set sent"
  shows "packet ` arrived (Arrives (Datagram (wire x)) t n # es) sent =
    insert (packet x) (packet ` arrived es sent)"
proof -
  have eq: "packet y = packet x" if "y \<in> set sent" "wire y = wire x" for y
    using stream_datagram(2) [of "packet y" "wire y"] stream_datagram(2) [of "packet x" "wire x"] assms that
    by simp
  have "arrived (Arrives (Datagram (wire x)) t n # es) sent = {y \<in> set sent. wire y = wire x} \<union> arrived es sent"
    by (auto simp: arrived_def)
  moreover have "packet ` {y \<in> set sent. wire y = wire x} = {packet x}" using eq assms(2) by blast
  ultimately show ?thesis by (simp add: image_Un)
qed

lemma network_run:
  assumes stream: "packets_follow first seq sent" "consistent c sent"
      "\<forall>x \<in> set sent. of_stream h (packet x) \<and> serialize (packet x) = Inr (wire x)"
    and few: "length sent < 1024"
    and "\<forall>e \<in> set es. network_event sent e" "listens h w" "holds (stream_format h) got b"
      "got \<subseteq> packet ` set sent"
  shows "\<exists>w' b'. client_run es w b = (w', b', []) \<and> listens h w' \<and>
    holds (stream_format h) (got \<union> packet ` arrived es sent) b'"
  using assms(5-8)
proof (induction es arbitrary: w b got)
  case Nil
  then show ?case by (simp add: arrived_def)
next
  case (Cons e es)
  have rest: "\<forall>e \<in> set es. network_event sent e" using Cons.prems(1) by simp
  obtain a t n where e: "e = Arrives a t n" "time_ok t" using Cons.prems(1) by (cases e) auto
  consider "receive a = Inr None" | x where "x \<in> set sent" "a = Datagram (wire x)"
    using Cons.prems(1) e by auto
  then show ?case
  proof cases
    case 1
    then have "receiver_turn a t n w b = (w, b)" by (simp add: receiver_turn_def)
    moreover have "arrived (e # es) sent = arrived es sent"
      using 1 e(1) by (auto simp: arrived_def receive_datagram split: if_splits)
    ultimately show ?thesis using Cons.IH [OF rest Cons.prems(2-4)] e(1) by simp
  next
    case (2 x)
    obtain w' b' where turn: "receiver_turn (Datagram (wire x)) t n w b = (w', b')"
      and next': "listens h w'" "holds (stream_format h) (insert (packet x) got) b'"
      using network_step [OF stream few 2(1) e(2) Cons.prems(2-4)] by blast
    have "insert (packet x) got \<subseteq> packet ` set sent" using Cons.prems(4) 2(1) by blast
    note IH = Cons.IH [OF rest next' this]
    have "packet ` arrived (e # es) sent = insert (packet x) (packet ` arrived es sent)"
      unfolding e(1) 2(2) by (rule arrived_Cons [OF _ 2(1)]) (use stream(3) in blast)
    then show ?thesis using IH turn e(1) 2(2) by simp
  qed
qed

text \<open>What a read makes of a buffer that holds packets of the stream.\<close>

lemma holds_read:
  assumes stream: "packets_follow first seq sent" "consistent c sent"
    and b: "holds (stream_format h) (packet ` got) b" "got \<subseteq> set sent"
    and c: "c = unat (stream_channels h)" and n: "length out = n * c" "unat start + n < 18446744073709551616"
  shows "\<exists>r out' b'. readFrames True start out retain b = (Inr r, out', b') \<and> length out' = n * c \<and>
    (\<forall>i < n. \<forall>ch < c.
       (\<forall>x \<in> got. covers (buffered_of (packet x)) (unat start + i) \<longrightarrow>
          out' ! (i * c + ch) = packet_sample c (buffered_of (packet x)) (unat start + i) ch) \<and>
       ((\<forall>x \<in> got. \<not> covers (buffered_of (packet x)) (unat start + i)) \<longrightarrow> out' ! (i * c + ch) = 0))"
proof (cases "format b")
  case None
  then have "got = {}" using b(1) by (auto simp: holds_def split: if_splits)
  then show ?thesis using None n(1) frame_index_bound by (simp add: readFrames_def Let_def)
next
  case (Some f)
  have ok: "buffer_ok b" and f: "f = stream_format h"
    and entries: "set (packets b) = (\<lambda>x. (startFrame (packet x), buffered_of (packet x))) ` got"
    using b(1) Some by (auto simp: holds_def image_image split: if_splits)
  obtain r out' b' where read: "readFrames True start out retain b = (Inr r, out', b')" "length out' = n * c"
    and samples: "\<And>i ch. i < n \<Longrightarrow> ch < c \<Longrightarrow> out' ! (i * c + ch) = overlay c (packets b) (unat start + i) ch 0"
    using read_unwrapped [OF ok Some _ n, of retain] by (auto simp: f stream_format_def c)
  have covered: "overlay c (packets b) k ch 0 = packet_sample c (buffered_of (packet x)) k ch"
    if x: "x \<in> got" "covers (buffered_of (packet x)) k" for x k ch
  proof -
    have "overlay c (packets b) k ch 0 = packet_sample c (snd (startFrame (packet x), buffered_of (packet x))) k ch"
    proof (rule overlay_last)
      show "(startFrame (packet x), buffered_of (packet x)) \<in> set (packets b)" using entries x(1) by blast
      show "covers (snd (startFrame (packet x), buffered_of (packet x))) k" using x(2) by simp
      fix e assume e: "e \<in> set (packets b)" "covers (snd e) k"
      then obtain y where y: "y \<in> got" "e = (startFrame (packet y), buffered_of (packet y))"
        using entries by blast
      have "packet y = packet x"
        by (rule covers_unique [OF stream _ _ _ x(2)]) (use b(2) x(1) y e(2) in auto)
      then show "e = (startFrame (packet x), buffered_of (packet x))" using y(2) by simp
    qed
    then show ?thesis by simp
  qed
  have uncovered: "overlay c (packets b) k ch 0 = 0"
    if "\<forall>x \<in> got. \<not> covers (buffered_of (packet x)) k" for k ch
    by (rule overlay_uncovered) (use that entries in auto)
  show ?thesis using read samples covered uncovered by simp
qed

section \<open>Properties\<close>

text \<open>The stream's packets a host loop sends, as the receiver lemmas want them.\<close>

lemma host_loop_consistent:
  assumes "\<forall>x \<in> set sent. of_stream h (packet x) \<and> serialize (packet x) = Inr (wire x)"
  shows "consistent (unat (stream_channels h)) sent"
  using assms by (simp add: consistent_def of_stream_def)

lemma worker_listens:
  assumes "expectedSessionId c = 0 \<or>
    expectedSessionId c = stats_sessionId h \<and> expectedStreamId c = config_streamId (config h)"
    and "config_streamId (config h) \<noteq> 0"
  shows "listens h (worker_state c)"
  using assms by (auto simp: listens_def worker_state_def)



end
