(* ===== verification/Discovery.thy ===== *)
theory Discovery
  imports Text_Format
begin

text \<open>
  The announcement of the room on the local network, \<open>desktop/src/DiscoveryService.cpp\<close>: the names of
  the service, its records, the answers to questions and the loop of the responder thread. The mDNS
  library and the calls to the resolver are outside the model: what they return is an argument, and
  the calls the program makes of the library are the result.
\<close>

unbundle bit_operations_syntax

section \<open>Host name and address\<close>

definition serviceType :: string where
  "serviceType = ''_tandemaudio._tcp.local.''"

fun hostname_loop :: "string \<Rightarrow> string \<Rightarrow> string" where
  "hostname_loop [] result = result"
| "hostname_loop (character # name) result =
     (if character = CHR 0x00 \<or> length result = 48 then result
      else if is_alnum character \<or> character = CHR ''-''
      then hostname_loop name (result @ [character])
      else hostname_loop name (result @ [CHR ''-'']))"

text \<open>The buffer \<open>gethostname\<close> filled, \<open>None\<close> when it failed.\<close>

definition localHostname :: "string option \<Rightarrow> exn + string" where
  "localHostname name =
     (case name of
        None \<Rightarrow> Inl (Runtime_Error ''Unable to read the LAN hostname'')
      | Some buffer \<Rightarrow>
          (let result = hostname_loop buffer [] in
           Inr (if result = [] then ''tandem-host'' else result)))"

record sockaddr_in =
  sin_addr :: u32
  sin_port :: u16

text \<open>The IPv4 addresses \<open>getaddrinfo\<close> lists, in host byte order.\<close>

definition localIPv4 :: "u32 list option \<Rightarrow> exn + sockaddr_in" where
  "localIPv4 addresses =
     (case addresses of
        None \<Rightarrow> Inl (Runtime_Error ''Unable to resolve the LAN hostname'')
      | Some entries \<Rightarrow>
          (case find (\<lambda>address. drop_bit 24 address \<noteq> 127 \<and> address \<noteq> 0) entries of
             None \<Rightarrow> Inl (Runtime_Error ''No non-loopback IPv4 address for LAN discovery'')
           | Some address \<Rightarrow> Inr \<lparr>sin_addr = address, sin_port = 5353\<rparr>))"

definition addressText :: "(u32 \<Rightarrow> string option) \<Rightarrow> sockaddr_in \<Rightarrow> exn + string" where
  "addressText ntop address =
     (case ntop (sin_addr address) of
        None \<Rightarrow> Inl (Runtime_Error ''Unable to format LAN address'')
      | Some s \<Rightarrow> Inr s)"

section \<open>The service\<close>

record DiscoveryService =
  service_port :: u16
  service_address :: sockaddr_in
  service_hostname :: string
  service_hostAddress :: string
  qualifiedHost :: string
  serviceName :: string
  service_roomId :: string

text \<open>What the calls of the constructor return; Winsock starts up, and the thread too.\<close>

record discovery_setup =
  hostnameRead :: "string option"
  resolved :: "string \<Rightarrow> u32 list option"
  addressFormat :: "u32 \<Rightarrow> string option"
  socketOpened :: bool

definition DiscoveryService_new ::
    "discovery_setup \<Rightarrow> u16 \<Rightarrow> string \<Rightarrow> string \<Rightarrow> exn + DiscoveryService" where
  "DiscoveryService_new env controlPort roomName roomId =
     (if controlPort = 0 then Inl (Invalid_Argument ''Discovery control port is invalid'')
      else
        and_then (localHostname (hostnameRead env)) (\<lambda>hostname.
        and_then (localIPv4 (resolved env hostname)) (\<lambda>address.
        and_then (addressText (addressFormat env) address) (\<lambda>hostAddress.
          let instanceName = roomName @ '' on '' @ hostname;
              instanceName = (if length instanceName > 63 then take 63 instanceName else instanceName) in
          if \<not> socketOpened env then Inl (Runtime_Error ''Unable to open mDNS socket'')
          else Inr \<lparr>service_port = controlPort, service_address = address, service_hostname = hostname,
            service_hostAddress = hostAddress, qualifiedHost = hostname @ ''.local.'',
            serviceName = instanceName @ ''.'' @ serviceType, service_roomId = roomId\<rparr>))))"

section \<open>Records\<close>

abbreviation "RECORDTYPE_A \<equiv> 1 :: u16"
abbreviation "RECORDTYPE_PTR \<equiv> 12 :: u16"
abbreviation "RECORDTYPE_TXT \<equiv> 16 :: u16"
abbreviation "RECORDTYPE_SRV \<equiv> 33 :: u16"
abbreviation "RECORDTYPE_ANY \<equiv> 255 :: u16"

datatype mdns_data =
    Ptr_Data string
  | Srv_Data string u16
  | A_Data sockaddr_in
  | Txt_Data string string

record mdns_record =
  record_name :: string
  record_type :: u16
  record_data :: mdns_data
  record_ttl :: u32

definition ptrRecord :: "DiscoveryService \<Rightarrow> mdns_record" where
  "ptrRecord s = \<lparr>record_name = serviceType, record_type = RECORDTYPE_PTR,
     record_data = Ptr_Data (serviceName s), record_ttl = 120\<rparr>"

definition srvRecord :: "DiscoveryService \<Rightarrow> mdns_record" where
  "srvRecord s = \<lparr>record_name = serviceName s, record_type = RECORDTYPE_SRV,
     record_data = Srv_Data (qualifiedHost s) (service_port s), record_ttl = 120\<rparr>"

definition addressRecord :: "DiscoveryService \<Rightarrow> mdns_record" where
  "addressRecord s = \<lparr>record_name = qualifiedHost s, record_type = RECORDTYPE_A,
     record_data = A_Data (service_address s), record_ttl = 120\<rparr>"

definition versionRecord :: "DiscoveryService \<Rightarrow> mdns_record" where
  "versionRecord s = \<lparr>record_name = serviceName s, record_type = RECORDTYPE_TXT,
     record_data = Txt_Data ''version'' ''2'', record_ttl = 120\<rparr>"

definition roomRecord :: "DiscoveryService \<Rightarrow> mdns_record" where
  "roomRecord s = \<lparr>record_name = serviceName s, record_type = RECORDTYPE_TXT,
     record_data = Txt_Data ''room'' (service_roomId s), record_ttl = 120\<rparr>"

section \<open>Questions and the loop\<close>

text \<open>The calls into the library, and an entry of a message it reports to the callback.\<close>

datatype mdns_call =
    Announce_Multicast mdns_record "mdns_record list"
  | Goodbye_Multicast mdns_record "mdns_record list"
  | Answer_Unicast sockaddr_in u16 u16 string mdns_record "mdns_record list"
  | Answer_Multicast mdns_record "mdns_record list"

record mdns_entry =
  entry_from :: sockaddr_in
  entry_kind :: u16
  queryId :: u16
  entry_type :: u16
  queryClass :: u16
  asked :: string

definition announce :: "DiscoveryService \<Rightarrow> bool \<Rightarrow> mdns_call" where
  "announce s goodbye =
     (let additional = [srvRecord s, addressRecord s, versionRecord s, roomRecord s] in
      if goodbye then Goodbye_Multicast (ptrRecord s) additional
      else Announce_Multicast (ptrRecord s) additional)"

definition answer_for ::
    "DiscoveryService \<Rightarrow> string \<Rightarrow> u16 \<Rightarrow> (mdns_record \<times> mdns_record list) option" where
  "answer_for s name type =
     (if name = serviceType \<and> (type = RECORDTYPE_PTR \<or> type = RECORDTYPE_ANY)
      then Some (ptrRecord s, [srvRecord s, addressRecord s, versionRecord s, roomRecord s])
      else if name = serviceName s \<and> (type = RECORDTYPE_SRV \<or> type = RECORDTYPE_ANY)
      then Some (srvRecord s, [addressRecord s, versionRecord s, roomRecord s])
      else if name = qualifiedHost s \<and> (type = RECORDTYPE_A \<or> type = RECORDTYPE_ANY)
      then Some (addressRecord s, [])
      else None)"

definition callback :: "DiscoveryService \<Rightarrow> mdns_entry \<Rightarrow> mdns_call option" where
  "callback s e =
     (if entry_kind e \<noteq> 0 then None
      else case answer_for s (asked e) (entry_type e) of
        None \<Rightarrow> None
      | Some (answer, extra) \<Rightarrow>
          Some (if queryClass e AND 0x8000 \<noteq> 0
            then Answer_Unicast (entry_from e) (queryId e) (entry_type e) (asked e) answer extra
            else Answer_Multicast answer extra))"

text \<open>
  A turn of the thread: whether it sees the stop flag, the entries of the message it reads (none when
  \<open>select\<close> reports no message), and the two readings of the clock.
\<close>

record discovery_turn =
  stopSeen :: bool
  heardEntries :: "mdns_entry list"
  comparedAt :: int
  announcedAt :: int

fun discovery_loop :: "DiscoveryService \<Rightarrow> int \<Rightarrow> discovery_turn list \<Rightarrow> mdns_call list" where
  "discovery_loop s lastAnnouncement [] = []"
| "discovery_loop s lastAnnouncement (t # ts) =
     (if stopSeen t then [announce s True]
      else List.map_filter (callback s) (heardEntries t) @
        (if comparedAt t - lastAnnouncement \<ge> 30000000000
         then announce s False # discovery_loop s (announcedAt t) ts
         else discovery_loop s lastAnnouncement ts))"

definition discovery_run :: "DiscoveryService \<Rightarrow> int \<Rightarrow> discovery_turn list \<Rightarrow> mdns_call list" where
  "discovery_run s start ts = announce s False # discovery_loop s start ts"

section \<open>Names\<close>

text \<open>A label of a host name: one to 48 letters, digits and hyphens.\<close>

definition host_label :: "string \<Rightarrow> bool" where
  "host_label name \<longleftrightarrow> name \<noteq> [] \<and> length name \<le> 48 \<and> list_all (\<lambda>c. is_alnum c \<or> c = CHR ''-'') name"

lemma hostname_loop_label:
  "length result \<le> 48 \<Longrightarrow> list_all (\<lambda>c. is_alnum c \<or> c = CHR ''-'') result \<Longrightarrow>
    length (hostname_loop name result) \<le> 48 \<and>
    list_all (\<lambda>c. is_alnum c \<or> c = CHR ''-'') (hostname_loop name result)"
  by (induction name result rule: hostname_loop.induct) auto

lemma localHostname_label: "localHostname name = Inr h \<Longrightarrow> host_label h"
proof -
  assume h: "localHostname name = Inr h"
  then obtain buffer where buffer: "name = Some buffer" by (cases name) (auto simp: localHostname_def)
  have "length (hostname_loop buffer []) \<le> 48 \<and>
      list_all (\<lambda>c. is_alnum c \<or> c = CHR ''-'') (hostname_loop buffer [])"
    by (rule hostname_loop_label) simp_all
  then show ?thesis
    using h buffer by (auto simp: localHostname_def host_label_def is_alnum_def is_digit_def code_def Let_def split: if_splits)
qed

text \<open>The three names the service answers to are different.\<close>

lemma service_type_not_instance: "instance @ ''.'' @ serviceType \<noteq> serviceType"
proof
  assume "instance @ ''.'' @ serviceType = serviceType"
  then have "length (instance @ ''.'' @ serviceType) = length serviceType" by (rule arg_cong)
  then show False by simp
qed

lemma host_name_has_no_underscore:
  assumes "host_label h"
  shows "CHR ''_'' \<notin> set (h @ ''.local.'')"
  using assms by (auto simp: host_label_def list_all_iff is_alnum_def is_digit_def code_def)

lemma host_name_distinct:
  assumes "host_label h"
  shows "h @ ''.local.'' \<noteq> serviceType" "h @ ''.local.'' \<noteq> instance @ ''.'' @ serviceType"
proof -
  have underscore: "CHR ''_'' \<in> set serviceType" by (simp add: serviceType_def)
  then have "CHR ''_'' \<in> set (instance @ ''.'' @ serviceType)" by simp
  then show "h @ ''.local.'' \<noteq> serviceType" "h @ ''.local.'' \<noteq> instance @ ''.'' @ serviceType"
    using host_name_has_no_underscore [OF assms] underscore by metis+
qed

lemma DiscoveryService_new_cases:
  assumes "DiscoveryService_new env controlPort roomName roomId = Inr s"
  obtains h address where "host_label h" "localIPv4 (resolved env h) = Inr address"
    "addressFormat env (sin_addr address) = Some (service_hostAddress s)" "service_address s = address"
    "service_port s = controlPort" "qualifiedHost s = h @ ''.local.''" "controlPort \<noteq> 0"
    "serviceName s = take 63 (roomName @ '' on '' @ h) @ ''.'' @ serviceType" "service_roomId s = roomId"
proof -
  obtain h where h: "localHostname (hostnameRead env) = Inr h" and
    rest: "controlPort \<noteq> 0"
    using assms by (auto simp: DiscoveryService_new_def res_simps split: if_splits)
  obtain address where a: "localIPv4 (resolved env h) = Inr address"
    using assms h rest by (auto simp: DiscoveryService_new_def res_simps)
  obtain dotted where t: "addressFormat env (sin_addr address) = Some dotted"
    using assms h rest a by (auto simp: DiscoveryService_new_def addressText_def res_simps split: option.splits)
  have cut63: "(if length x > 63 then take 63 x else x) = take 63 x" for x :: string by simp
  have s: "s = \<lparr>service_port = controlPort, service_address = address, service_hostname = h,
      service_hostAddress = dotted, qualifiedHost = h @ ''.local.'',
      serviceName = take 63 (roomName @ '' on '' @ h) @ ''.'' @ serviceType, service_roomId = roomId\<rparr>"
    using assms h rest a t
    by (simp add: DiscoveryService_new_def addressText_def Let_def cut63 del: append_Cons take_append
        split: if_splits)
  show thesis
    by (rule that [OF localHostname_label [OF h] a])
      (use rest t in \<open>simp_all add: s del: append_Cons take_append\<close>)
qed

section \<open>Properties\<close>

text \<open>
  C40. Discovery leads to the room: whatever the host and the room are called, the service type, the
  instance and the host name are three names; a question for the first names the instance, one for the
  instance names the host and the control port, one for the host gives its address, which is no
  loopback address and the one the host shows, each with the records that follow it, and questions for
  any other name are not answered.
\<close>

theorem discovery_resolves:
  assumes "DiscoveryService_new env controlPort roomName roomId = Inr s"
  shows "\<exists>inst host a rest_type rest_inst. distinct [serviceType, inst, host] \<and> length inst \<le> 63 + 1 + length serviceType \<and>
    (\<forall>t. answer_for s serviceType t = (if t = RECORDTYPE_PTR \<or> t = RECORDTYPE_ANY
       then Some (\<lparr>record_name = serviceType, record_type = RECORDTYPE_PTR, record_data = Ptr_Data inst,
         record_ttl = 120\<rparr>, rest_type) else None)) \<and>
    (\<forall>t. answer_for s inst t = (if t = RECORDTYPE_SRV \<or> t = RECORDTYPE_ANY
       then Some (\<lparr>record_name = inst, record_type = RECORDTYPE_SRV, record_data = Srv_Data host controlPort,
         record_ttl = 120\<rparr>, rest_inst) else None)) \<and>
    (\<forall>t. answer_for s host t = (if t = RECORDTYPE_A \<or> t = RECORDTYPE_ANY
       then Some (\<lparr>record_name = host, record_type = RECORDTYPE_A, record_data = A_Data a,
         record_ttl = 120\<rparr>, []) else None)) \<and>
    (\<forall>name t. name \<notin> {serviceType, inst, host} \<longrightarrow> answer_for s name t = None) \<and>
    map record_data rest_type = Srv_Data host controlPort # map record_data rest_inst \<and>
    map record_data rest_inst = [A_Data a, Txt_Data ''version'' ''2'', Txt_Data ''room'' roomId] \<and>
    addressFormat env (sin_addr a) = Some (service_hostAddress s) \<and>
    sin_addr a \<noteq> 0 \<and> drop_bit 24 (sin_addr a) \<noteq> 127"
proof -
  obtain h a where h: "host_label h" and a: "localIPv4 (resolved env h) = Inr a"
    and s: "addressFormat env (sin_addr a) = Some (service_hostAddress s)" "service_address s = a"
      "service_port s = controlPort" "qualifiedHost s = h @ ''.local.''" "controlPort \<noteq> 0"
      "serviceName s = take 63 (roomName @ '' on '' @ h) @ ''.'' @ serviceType" "service_roomId s = roomId"
    by (rule DiscoveryService_new_cases [OF assms])
  have names: "distinct [serviceType, serviceName s, qualifiedHost s]"
    using service_type_not_instance host_name_distinct [OF h] unfolding s(4,6) by (metis distinct_length_2_or_more distinct_singleton)
  have address: "sin_addr a \<noteq> 0" "drop_bit 24 (sin_addr a) \<noteq> 127"
    using a by (auto simp: localIPv4_def find_Some_iff split: option.splits)
  have "length (serviceName s) \<le> 63 + 1 + length serviceType" unfolding s(6) by simp
  then show ?thesis
    by (intro exI [of _ "serviceName s"] exI [of _ "qualifiedHost s"] exI [of _ a]
        exI [of _ "[srvRecord s, addressRecord s, versionRecord s, roomRecord s]"]
        exI [of _ "[addressRecord s, versionRecord s, roomRecord s]"])
      (use names address s in \<open>auto simp: answer_for_def ptrRecord_def srvRecord_def addressRecord_def
        versionRecord_def roomRecord_def\<close>)
qed

definition example_lan :: discovery_setup where
  "example_lan = \<lparr>hostnameRead = Some ''studio'', resolved = (\<lambda>_. Some [2130706433, 3232235786]),
     addressFormat = (\<lambda>_. Some ''192.168.0.10''), socketOpened = True\<rparr>"

definition example_service :: DiscoveryService where
  "example_service = \<lparr>service_port = 40102, service_address = \<lparr>sin_addr = 3232235786, sin_port = 5353\<rparr>,
     service_hostname = ''studio'', service_hostAddress = ''192.168.0.10'', qualifiedHost = ''studio.local.'',
     serviceName = ''Den on studio._tandemaudio._tcp.local.'', service_roomId = ''r1''\<rparr>"

lemma example_service_new: "DiscoveryService_new example_lan 40102 ''Den'' ''r1'' = Inr example_service"
proof -
  have "localHostname (Some ''studio'') = Inr ''studio''"
    by (simp add: localHostname_def is_alnum_def is_digit_def code_def)
  moreover have "localIPv4 (Some [2130706433, 3232235786]) = Inr \<lparr>sin_addr = 3232235786, sin_port = 5353\<rparr>"
    by (simp add: localIPv4_def)
  ultimately show ?thesis
    by (simp add: DiscoveryService_new_def example_lan_def addressText_def Let_def example_service_def serviceType_def)
qed

theorem discovery_resolves_witness:
  "\<exists>inst host a rest_type rest_inst.
    answer_for example_service serviceType 12 = Some (\<lparr>record_name = serviceType, record_type = 12,
      record_data = Ptr_Data inst, record_ttl = 120\<rparr>, rest_type) \<and>
    answer_for example_service inst 33 = Some (\<lparr>record_name = inst, record_type = 33,
      record_data = Srv_Data host 40102, record_ttl = 120\<rparr>, rest_inst) \<and>
    answer_for example_service host 1 = Some (\<lparr>record_name = host, record_type = 1,
      record_data = A_Data a, record_ttl = 120\<rparr>, []) \<and>
    distinct [serviceType, inst, host] \<and> sin_addr a \<noteq> 0"
proof -
  have by_type: "(\<forall>t :: u16. f t = (if t = p \<or> t = q then v else None)) \<Longrightarrow> f p = v" for f p q v by simp
  show ?thesis using discovery_resolves [OF example_service_new] by (blast dest: by_type)
qed

text \<open>
  Announcements: the first call of a run announces the service, a turn that stops says goodbye as its
  last act, and no other call says goodbye.
\<close>

fun is_goodbye :: "mdns_call \<Rightarrow> bool" where
  "is_goodbye (Goodbye_Multicast _ _) \<longleftrightarrow> True"
| "is_goodbye _ \<longleftrightarrow> False"

lemma callback_no_goodbye: "callback s e = Some c \<Longrightarrow> \<not> is_goodbye c"
  by (auto simp: callback_def split: if_splits option.splits)

lemma discovery_loop_goodbye:
  "filter is_goodbye (discovery_loop s start ts) =
     (if list_ex stopSeen ts then [last (discovery_loop s start ts)] else [])"
proof (induction s start ts rule: discovery_loop.induct)
  case (2 s start t ts)
  have "\<not> is_goodbye c" if "c \<in> set (List.map_filter (callback s) (heardEntries t))" for c
    using that callback_no_goodbye by (auto simp: List.map_filter_def)
  then have quiet: "filter is_goodbye (List.map_filter (callback s) (heardEntries t)) = []"
    by (simp add: filter_empty_conv)
  have nonempty: "discovery_loop s l ts \<noteq> []" if "list_ex stopSeen ts" for l
    using that by (induction ts arbitrary: l) auto
  show ?case using 2 quiet nonempty by (auto simp: announce_def Let_def)
qed simp

lemma goodbye_once:
  "filter is_goodbye (discovery_run s start ts) =
     (if list_ex stopSeen ts then [last (discovery_run s start ts)] else [])"
proof -
  have "discovery_loop s start ts \<noteq> []" if "list_ex stopSeen ts"
    using that by (induction ts arbitrary: start) auto
  then show ?thesis by (simp add: discovery_run_def discovery_loop_goodbye announce_def Let_def)
qed

text \<open>Between two turns less than 30 seconds have passed since the last announcement the thread counted.\<close>

fun last_announcement :: "int \<Rightarrow> discovery_turn list \<Rightarrow> int" where
  "last_announcement l [] = l"
| "last_announcement l (t # ts) =
     last_announcement (if comparedAt t - l \<ge> 30000000000 then announcedAt t else l) ts"

lemma announcement_fresh:
  assumes "\<forall>t \<in> set ts. comparedAt t \<le> announcedAt t" "ts \<noteq> []"
  shows "comparedAt (last ts) - last_announcement start ts < 30000000000"
  using assms
proof (induction ts arbitrary: start)
  case (Cons t ts)
  then show ?case by (cases "ts = []") auto
qed simp

end
