(* ===== verification/Sockets.thy ===== *)
theory Sockets
  imports Udp_Audio
begin

text \<open>
  What the program does around the sockets of its TCP lines and of its two servers: the loop that sends
  a line in as many pieces as the network takes (\<open>sendLine\<close> of \<open>desktop/src/ControlChannel.cpp\<close> and of
  \<open>desktop/src/RoomJoinClient.cpp\<close>, and the loop of \<open>desktop/src/RoomControlClient.cpp\<close>), and the
  constructors of the clock server and of the control server with the socket they open. The results of
  the calls are arguments.
\<close>

section \<open>Sending a line\<close>

text \<open>
  \<open>results\<close> are what the calls of \<open>send\<close> return, a number of bytes or \<open>-1\<close>. The result is whether the
  line is out and the pieces handed over; \<open>None\<close> while a call has not returned.
\<close>

fun send_pieces :: "string \<Rightarrow> nat \<Rightarrow> int list \<Rightarrow> (bool \<times> string list) option" where
  "send_pieces line sent results =
     (if \<not> sent < length line then Some (True, [])
      else case results of
        [] \<Rightarrow> None
      | result # rest \<Rightarrow>
          if result \<le> 0 then Some (False, [])
          else (case send_pieces line (sent + nat result) rest of
            None \<Rightarrow> None
          | Some (ok, pieces) \<Rightarrow> Some (ok, take (nat result) (drop sent line) # pieces)))"

declare send_pieces.simps [simp del]

definition sendLine :: "string \<Rightarrow> int list \<Rightarrow> (bool \<times> string list) option" where
  "sendLine line results = send_pieces line 0 results"

definition join_sendLine :: "string \<Rightarrow> int list \<Rightarrow> (exn + unit) option" where
  "join_sendLine line results =
     (case sendLine line results of
        None \<Rightarrow> None
      | Some (True, _) \<Rightarrow> Some (Inr ())
      | Some (False, _) \<Rightarrow> Some (Inl (Runtime_Error ''Room control send failed'')))"

definition issue_sendLine :: "string \<Rightarrow> int list \<Rightarrow> (exn + unit) option" where
  "issue_sendLine command results =
     (case sendLine (command @ [CHR 0x0A]) results of
        None \<Rightarrow> None
      | Some (True, _) \<Rightarrow> Some (Inr ())
      | Some (False, _) \<Rightarrow> Some (Inl (Runtime_Error ''Local room command send failed'')))"

text \<open>A call sends no more than it is given.\<close>

fun sends_ok :: "string \<Rightarrow> nat \<Rightarrow> int list \<Rightarrow> bool" where
  "sends_ok line sent [] \<longleftrightarrow> True"
| "sends_ok line sent (r # rs) \<longleftrightarrow>
     (sent < length line \<longrightarrow> r \<le> int (length line - sent) \<and> (0 < r \<longrightarrow> sends_ok line (sent + nat r) rs))"

text \<open>
  However the network splits it, the pieces of a line that is reported as sent are the line, those of a
  line that is not are a beginning of it, and the loop ends after at most one call per byte.
\<close>

lemma send_pieces_ok:
  assumes "sends_ok line sent rs" "sent \<le> length line" "send_pieces line sent rs = Some (ok, pieces)"
  shows "\<exists>rest. drop sent line = concat pieces @ rest \<and> (ok \<longleftrightarrow> rest = [])"
  using assms
proof (induction rs arbitrary: sent pieces)
  case Nil
  then show ?case by (subst (asm) send_pieces.simps) (auto split: if_splits)
next
  case (Cons r rs)
  show ?case
  proof (cases "sent < length line")
    case False
    then show ?thesis using Cons.prems(3) by (subst (asm) send_pieces.simps) auto
  next
    case True
    show ?thesis
    proof (cases "r \<le> 0")
      case True
      then show ?thesis using Cons.prems(3) \<open>sent < length line\<close>
        by (subst (asm) send_pieces.simps) auto
    next
      case False
      then obtain more where more: "send_pieces line (sent + nat r) rs = Some (ok, more)"
        "pieces = take (nat r) (drop sent line) # more"
        using Cons.prems(3) True by (subst (asm) send_pieces.simps) (auto split: option.splits)
      have "sends_ok line (sent + nat r) rs" "sent + nat r \<le> length line" using Cons.prems(1) True False by auto
      from Cons.IH [OF this more(1)] obtain rest where rest: "drop (sent + nat r) line = concat more @ rest"
        "ok \<longleftrightarrow> rest = []" by blast
      have "drop sent line = take (nat r) (drop sent line) @ drop (nat r) (drop sent line)"
        by (rule append_take_drop_id [symmetric])
      also have "drop (nat r) (drop sent line) = concat more @ rest"
        using rest(1) by (simp add: add.commute)
      finally show ?thesis using more(2) rest(2) by auto
    qed
  qed
qed

lemma whole_line_sent:
  assumes "sends_ok line 0 rs" "sendLine line rs = Some (ok, pieces)"
  shows "ok \<Longrightarrow> concat pieces = line" "\<not> ok \<Longrightarrow> \<exists>rest. rest \<noteq> [] \<and> line = concat pieces @ rest"
  using send_pieces_ok [OF assms(1) _ assms(2) [unfolded sendLine_def]] by auto

lemma send_pieces_ends: "length line \<le> sent + length rs \<Longrightarrow> send_pieces line sent rs \<noteq> None"
proof (induction rs arbitrary: sent)
  case Nil
  then show ?case by (subst send_pieces.simps) simp
next
  case (Cons r rs)
  have "send_pieces line (sent + nat r) rs \<noteq> None" if "\<not> r \<le> 0" using Cons.IH [of "sent + nat r"] Cons.prems that by simp
  then show ?case by (subst send_pieces.simps) auto
qed

lemma sendLine_ends: "length line \<le> length rs \<Longrightarrow> sendLine line rs \<noteq> None"
  using send_pieces_ends [of line 0 rs] by (simp add: sendLine_def)

section \<open>Opening the servers\<close>

text \<open>The result, and whether a socket is left open: the catch-all handler closes it.\<close>

definition ClockSyncServer_new ::
    "(string \<Rightarrow> bool) \<Rightarrow> receiver_setup \<Rightarrow> string \<Rightarrow> u16 \<Rightarrow> (exn + unit) \<times> bool" where
  "ClockSyncServer_new is_ipv4 env bindAddress port =
     (if \<not> is_ipv4 bindAddress
      then (Inl (Invalid_Argument ''Clock-sync address must be numeric IPv4''), False)
      else if port = 0 then (Inl (Invalid_Argument ''Clock-sync port must be non-zero''), False)
      else case socketError env of
        Some e \<Rightarrow> (Inl (Runtime_Error (''Unable to create clock-sync socket: '' @ e)), False)
      | None \<Rightarrow> (case timeoutError env of
          Some e \<Rightarrow> (Inl (Runtime_Error (''Unable to set clock socket timeout: '' @ e)), False)
        | None \<Rightarrow> (case bindError env of
            Some e \<Rightarrow> (Inl (Runtime_Error (''Unable to bind clock-sync socket: '' @ e)), False)
          | None \<Rightarrow> (Inr (), True))))"

record listener_setup =
  listenerCreated :: bool
  listenerBound :: bool
  listening :: bool
  boundPort :: "u16 option"

text \<open>The port the system bound, which \<open>port()\<close> returns.\<close>

definition ControlServer_new :: "listener_setup \<Rightarrow> (exn + u16) \<times> bool" where
  "ControlServer_new env =
     (if \<not> listenerCreated env then (Inl (Runtime_Error ''Control socket failed''), False)
      else if \<not> listenerBound env \<or> \<not> listening env
      then (Inl (Runtime_Error ''Unable to bind control TCP port''), False)
      else case boundPort env of
        None \<Rightarrow> (Inl (Runtime_Error ''Unable to inspect control TCP port''), False)
      | Some port \<Rightarrow> (Inr port, True))"

lemma socket_open_iff_started:
  "snd (ClockSyncServer_new is_ipv4 env bindAddress port) = is_ok (fst (ClockSyncServer_new is_ipv4 env bindAddress port))"
  "snd (ControlServer_new listen_env) = is_ok (fst (ControlServer_new listen_env))"
  by (simp_all add: ClockSyncServer_new_def ControlServer_new_def split: option.split)

end
