(* ===== verification/Host_Setup.thy ===== *)
theory Host_Setup
  imports Command_Line Audio_Player Host_Loop Discovery Sockets Room_Client
begin

text \<open>
  How \<open>runHost\<close> of \<open>desktop/src/main.cpp\<close> starts: the room, the configuration of the sender and the
  state the control sessions share are made from the command line, the file and the identity drawn,
  then the servers are opened and the loop of \<open>Host_Loop\<close> begins. With it the composition of the whole
  control side: a client that joins at any moment of such a run reads the room.
\<close>

section \<open>Set-up\<close>

text \<open>
  What the set-up meets: the file as the player loads it, the values drawn for the room, what the calls
  that open the clock server, discovery and the control server return, and the clock.
\<close>

record host_environment =
  playerLoaded :: "exn + AudioMetadata"
  roomDraws :: "u32 list"
  numericIpv4 :: "string \<Rightarrow> bool"
  clockSocket :: receiver_setup
  lan :: discovery_setup
  controlSocket :: listener_setup
  startClock :: int

definition host_config :: "CommandLine \<Rightarrow> RoomSnapshot \<Rightarrow> HostConfig" where
  "host_config c identity =
     \<lparr>HostConfig.hostAddress = destinationAddress c, hostPort = lineAudioPort c, desiredPacketDuration = 10,
      sendAhead = 500, hostOutputLatency = lineLatency c,
      config_sessionId = room_sessionId identity, config_streamId = room_streamId identity\<rparr>"

definition control_state :: "CommandLine \<Rightarrow> AudioMetadata \<Rightarrow> HostConfig \<Rightarrow> Room \<Rightarrow> ControlStreamState" where
  "control_state c m settings r =
     \<lparr>stream_sessionId = config_sessionId settings, stream_streamId = config_streamId settings,
      audioPort = hostPort settings, clockPort = lineClockPort c, ControlStreamState.hostAddress = [],
      stream_sampleRate = fileRate m, channels = ucast (fileChannels m), totalFrames = fileFrames m,
      currentFrame = 0, playing = False, room = Some r\<rparr>"

text \<open>A host without discovery goes on; an exception of any other server ends it.\<close>

definition lan_address :: "exn + DiscoveryService \<Rightarrow> string" where
  "lan_address discovery =
     (case discovery of Inr s \<Rightarrow> service_hostAddress s | Inl _ \<Rightarrow> ''0.0.0.0'')"

definition open_host :: "host_environment \<Rightarrow> CommandLine \<Rightarrow> AudioMetadata \<Rightarrow> Room \<Rightarrow> exn + HostLoop" where
  "open_host env c m r =
     (let identity = snapshot r;
          settings = host_config c identity;
          state = control_state c m settings r in
      and_then (fst (ClockSyncServer_new (numericIpv4 env) (clockSocket env) ''0.0.0.0'' (lineClockPort c))) (\<lambda>_.
        let discovery = DiscoveryService_new (lan env) (lineSessionPort c) (roomName identity) (roomId identity);
            state = state\<lparr>ControlStreamState.hostAddress := lan_address discovery\<rparr> in
        and_then (fst (ControlServer_new (controlSocket env))) (\<lambda>_. host_start state r settings (startClock env))))"

text \<open>\<open>None\<close> when the draws run out before the room has an identity.\<close>

definition runHost_start :: "host_environment \<Rightarrow> CommandLine \<Rightarrow> (exn + HostLoop) option" where
  "runHost_start env c =
     (case playerLoaded env of
        Inl e \<Rightarrow> Some (Inl e)
      | Inr m \<Rightarrow>
          (case Room_create (lineRoomName c) ''desktop-host'' (roomDraws env) of
             None \<Rightarrow> None
           | Some created \<Rightarrow> Some (and_then created (open_host env c m))))"

section \<open>What no run changes\<close>

text \<open>
  The identity the host announces is that of its start, its stream is not zero, and the times of the
  room's actions fit their type.
\<close>

definition announces :: "ControlStreamState \<Rightarrow> Room \<Rightarrow> HostLoop \<Rightarrow> bool" where
  "announces state r h \<longleftrightarrow>
     stream_sessionId (loop_control h) = stream_sessionId state \<and>
     audioPort (loop_control h) = audioPort state \<and> clockPort (loop_control h) = clockPort state \<and>
     ControlStreamState.hostAddress (loop_control h) = ControlStreamState.hostAddress state \<and>
     stream_streamId (loop_control h) \<noteq> 0 \<and>
     roomId (room_state (loop_room h)) = roomId (room_state r) \<and>
     roomName (room_state (loop_room h)) = roomName (room_state r) \<and> times_fit (loop_room h)"

text \<open>The time of a request leaves room for the two seconds an action is scheduled ahead.\<close>

fun event_in_time :: "host_event \<Rightarrow> bool" where
  "event_in_time (Request line now peer session) \<longleftrightarrow> in_int64 (now + 2000000000)"
| "event_in_time (Turn i) \<longleftrightarrow> True"

lemma request_control:
  "\<exists>r. loop_control (loop_exec (Request line now peer session) h) = (loop_control h)\<lparr>room := r\<rparr>"
proof -
  obtain answer state session' where r:
    "responseFor line now peer (control_view h) session = (answer, state, session')" by (metis prod_cases3)
  have same: "\<exists>r. loop_control h = (loop_control h)\<lparr>room := r\<rparr>" by (intro exI [of _ "room (loop_control h)"]) simp
  show ?thesis
  proof (cases answer)
    case (Inl e)
    then show ?thesis using r same by simp
  next
    case (Inr reply)
    have view: "room (control_view h) = Some (loop_room h)" by (simp add: control_view_def)
    from r [unfolded Inr] view have "state = control_view h \<or> (\<exists>r. state = (control_view h)\<lparr>room := Some r\<rparr>)"
      by (cases rule: responseFor_cases) auto
    then have "\<exists>r. state = (loop_control h)\<lparr>room := r\<rparr>" by (auto simp: control_view_def)
    then show ?thesis using r Inr same by (auto split: option.split)
  qed
qed

lemma request_announces:
  assumes "announces state r h" "in_int64 (now + 2000000000)"
  shows "announces state r (loop_exec (Request line now peer session) h)"
proof -
  obtain x where control: "loop_control (loop_exec (Request line now peer session) h) = (loop_control h)\<lparr>room := x\<rparr>"
    using request_control by blast
  have "announces state r h'" if h': "loop_exec (Request line now peer session) h = h'" for h'
    using h'
  proof (cases rule: request_cases)
    case Same
    then show ?thesis using assms(1) control h' by (simp add: announces_def times_fit_def del: loop_exec.simps)
  next
    case (Scheduled act frame)
    then show ?thesis using assms control h'
      by (simp add: announces_def times_fit_def scheduled_action_def del: loop_exec.simps)
  qed
  then show ?thesis by blast
qed

lemma setPlaybackState_times [simp]: "times_fit (setPlaybackState s r) = times_fit r"
  by (simp add: times_fit_def setPlaybackState_def)

lemma takeAction_times: "takeAction r = (a, r') \<Longrightarrow> times_fit r \<Longrightarrow> times_fit r'"
  by (auto simp: takeAction_eq times_fit_def split: if_splits)

lemma turn_announces:
  assumes "announces state r h" "loop_ok h"
  shows "announces state r (loop_turn i h)"
proof (cases "loop_phase h")
  case Preparing
  then show ?thesis using assms
    by (cases "playResult i") (simp_all add: loop_turn_def open_segment_def loop_fail_def Let_def announces_def loop_ok_def)
next
  case Opened
  then show ?thesis using assms
    by (cases "DesktopNetworkHost_new (loop_config h)")
      (simp_all add: loop_turn_def announce_segment_def loop_fail_def Let_def announces_def setPlaybackState_def times_fit_def)
next
  case Streaming
  then show ?thesis using assms
    by (cases "streamResult i"; cases "pendingAction (room_state (loop_room h))")
      (simp_all add: loop_turn_def stream_segment_def loop_fail_def Let_def announces_def takeAction_eq times_fit_def)
next
  case (Taken command)
  have "announces state r h'" if "carry_out command h = Inr h'" for h'
    using that assms
    by (cases "action command")
      (auto simp: carry_out_def Let_def announces_def setPlaybackState_def setStreamId_def times_fit_def split: if_splits)
  moreover have "announces state r (h\<lparr>loop_phase := Failed e\<rparr>)" for e using assms(1) by (simp add: announces_def)
  ultimately show ?thesis using Taken
    by (auto simp: loop_turn_def apply_command_def loop_fail_def and_then_def split: sum.split)
next
  case Waiting
  then show ?thesis using assms
    by (cases "pendingAction (room_state (loop_room h))"; cases "action (the (pendingAction (room_state (loop_room h))))")
      (simp_all add: loop_turn_def poll_paused_def takeAction_eq announces_def times_fit_def)
next
  case (Seeking command)
  then show ?thesis using assms
    by (auto simp: loop_turn_def seek_paused_def Let_def loop_fail_def setStreamId_def announces_def
        loop_ok_def action_stream_ok_def times_fit_def)
next
  case (Ending b)
  then show ?thesis using assms(1)
    by (simp add: loop_turn_def end_loop_def announces_def setPlaybackState_def times_fit_def)
qed (use assms(1) in \<open>simp_all add: loop_turn_def\<close>)

lemma run_announces:
  assumes "announces state r h" "loop_ok h" "\<forall>e \<in> set es. event_in_time e"
  shows "announces state r (loop_run es h) \<and> loop_ok (loop_run es h)"
  using assms
proof (induction es arbitrary: h)
  case (Cons e es)
  have "announces state r (loop_exec e h)"
    using Cons.prems by (cases e) (simp_all add: request_announces turn_announces del: loop_exec.simps(2))
  then show ?case
    using Cons.IH [OF _ loop_exec_ok [OF Cons.prems(2)]] Cons.prems(3) by (simp add: loop_run_def)
qed (simp add: loop_run_def)

section \<open>The start\<close>

text \<open>What \<open>inet_ntop\<close> prints: a dotted address of at most 15 characters.\<close>

definition dotted :: "string \<Rightarrow> bool" where
  "dotted t \<longleftrightarrow> is_word t \<and> list_all is_printable t \<and> length t \<le> 15"

lemma hex_char_visible: "d < 16 \<Longrightarrow> is_printable (hex_char d) \<and> hex_char d \<noteq> CHR '' ''"
proof -
  assume "d < 16"
  then have "code (hex_char d) = (if d < 10 then 48 + d else 87 + d)"
    by (simp add: hex_char_def code_def take_bit_nat_eq_self_iff)
  then have "32 < code (hex_char d) \<and> code (hex_char d) \<le> 126" using \<open>d < 16\<close> by simp
  then show ?thesis by (auto simp: is_printable_def code_def)
qed

lemma hex16_visible: "list_all is_printable (hex16 w)" "list_all (\<lambda>c. c \<noteq> CHR '' '') (hex16 w)"
  using hex_char_visible by (simp_all add: hex16_def list_all_iff)

lemma created_room:
  assumes "Room_create name host draws = Some (Inr r)"
  obtains ident session stream where "Room_new ident name host session stream = Inr r"
    "list_all is_printable ident" "list_all (\<lambda>c. c \<noteq> CHR '' '') ident" "length ident = 32"
proof -
  obtain id0 id1 session stream where "Room_new (hex16 id0 @ hex16 id1) name host session stream = Inr r"
    using assms by (auto simp: Room_create_def Let_def split: option.splits)
  then show thesis by (rule that) (simp_all add: hex16_visible)
qed

lemma lan_address_dotted:
  assumes "\<forall>a t. addressFormat env a = Some t \<longrightarrow> dotted t"
  shows "dotted (lan_address (DiscoveryService_new env port name ident))"
proof (cases "DiscoveryService_new env port name ident")
  case (Inl e)
  then show ?thesis
    by (simp add: lan_address_def dotted_def is_word_def is_space_def is_printable_def code_def)
next
  case (Inr s)
  obtain a where "addressFormat env a = Some (service_hostAddress s)"
    by (rule DiscoveryService_new_cases [OF Inr]) blast
  then show ?thesis using assms Inr by (simp add: lan_address_def)
qed

text \<open>A host that starts announces itself readably, as its command line says.\<close>

lemma runHost_start_ok:
  assumes "runHost_start env c = Some (Inr h)" "line_ok c"
    and dotted: "\<forall>a t. addressFormat (lan env) a = Some t \<longrightarrow> dotted t"
  shows "loop_reachable h" "loop_phase h = Preparing" "announceable (loop_control h) (loop_room h)"
    "announces (loop_control h) (loop_room h) h"
    "audioPort (loop_control h) = lineAudioPort c" "clockPort (loop_control h) = lineClockPort c"
    "roomName (room_state (loop_room h)) = lineRoomName c"
    "stream_sessionId (loop_control h) = room_sessionId (room_state (loop_room h))"
proof -
  obtain m r where r: "Room_create (lineRoomName c) ''desktop-host'' (roomDraws env) = Some (Inr r)"
    and opened: "open_host env c m r = Inr h"
    using assms(1) by (auto simp: runHost_start_def res_simps split: sum.splits option.splits)
  obtain ident session stream where new: "Room_new ident (lineRoomName c) ''desktop-host'' session stream = Inr r"
    and ident: "list_all is_printable ident" "list_all (\<lambda>c. c \<noteq> CHR '' '') ident" "length ident = 32"
    by (rule created_room [OF r])
  define discovery where
    "discovery = DiscoveryService_new (lan env) (lineSessionPort c) (roomName (snapshot r)) (roomId (snapshot r))"
  define state where "state = (control_state c m (host_config c (snapshot r)) r)
    \<lparr>ControlStreamState.hostAddress := lan_address discovery\<rparr>"
  have start: "host_start state r (host_config c (snapshot r)) (startClock env) = Inr h"
    using opened by (auto simp: open_host_def Let_def res_simps state_def discovery_def)
  then have h: "loop_control h = state" "loop_room h = r" "loop_phase h = Preparing"
    by (auto simp: host_start_def res_simps)
  have address: "dotted (lan_address discovery)" unfolding discovery_def by (rule lan_address_dotted [OF dotted])
  have state: "stream_sessionId state = session" "stream_streamId state = stream" "audioPort state = lineAudioPort c"
    "clockPort state = lineClockPort c" "ControlStreamState.hostAddress state = lan_address discovery" "\<not> playing state"
    and room: "session \<noteq> 0" "stream \<noteq> 0" "roomId (room_state r) = ident" "roomName (room_state r) = lineRoomName c"
      "room_sessionId (room_state r) = session" "list_all is_printable (lineRoomName c)" "length (lineRoomName c) \<le> 48"
      "pendingAction (room_state r) = None" "recentAction (room_state r) = None"
    using new by (auto simp: Room_new_def state_def control_state_def host_config_def snapshot_def split: if_splits)
  have ports: "lineAudioPort c \<noteq> 0" "lineClockPort c \<noteq> 0" using assms(2) by (simp_all add: line_ok_def options_ok_def)
  show "loop_reachable h" by (rule loop_reachable.start [OF new state(6) start])
  show "loop_phase h = Preparing" by (rule h)
  show "announceable (loop_control h) (loop_room h)"
    using h state room ident address ports by (simp add: announceable_def dotted_def)
  show "announces (loop_control h) (loop_room h) h"
    using h state room by (simp add: announces_def times_fit_def)
  show "audioPort (loop_control h) = lineAudioPort c" "clockPort (loop_control h) = lineClockPort c"
    "roomName (room_state (loop_room h)) = lineRoomName c"
    "stream_sessionId (loop_control h) = room_sessionId (room_state (loop_room h))"
    using h state room by simp_all
qed

section \<open>Properties\<close>

lemma announces_announceable:
  assumes "announces (loop_control g) (loop_room g) h" "announceable (loop_control g) (loop_room g)"
  shows "announceable (control_view h) (loop_room h)" "times_fit (loop_room h)"
  using assms by (simp_all add: announces_def announceable_def control_view_def)

text \<open>
  C37. Anyone can join a running host at any time: when the program has read its command line and the
  host has started, then after any number of its steps and any requests, from whatever peers and in
  whatever order, a client that joins reads the host's answers to the last byte and holds the room's
  session and current stream, the ports and the room name of the host's command line and the playback
  state of that moment, and the room lists it as a member.
\<close>

theorem room_joinable_any_time:
  assumes "parseCommandLine args = Inr c" "runHost_start env c = Some (Inr h0)"
    and "\<forall>a t. addressFormat (lan env) a = Some t \<longrightarrow> dotted t"
    and "\<forall>e \<in> set es. event_in_time e" "peer \<noteq> []"
    and "in_int64 now" "in_int64 (hostNow + 500000000)" "port \<noteq> 0"
  shows "let h = loop_run es h0; state = control_view h; r = loop_room h; device = ''desktop-'' @ show_int now in
    \<exists>hello answer state' session r'.
      responseFor ''HELLO 2'' helloNow peer state new_session = (Inr hello, state, new_session) \<and>
      responseFor (''JOIN '' @ device) hostNow peer state new_session = (Inr answer, state', session) \<and>
      room state' = Some r' \<and> find_member device r' \<noteq> None \<and>
      RoomJoinClient_new port \<lparr>socketResult = Inr (), hostIsIpv4 = True, connectOk = True, joinTime = now,
          exchange = (\<lambda>line. if line = hello_line then Inr hello
            else if line = line_of (''JOIN '' @ device) then Inr answer else Inr [])\<rparr> =
        Inr (\<lparr>joined_sessionId = room_sessionId (room_state (loop_room h0)),
          joined_streamId = room_streamId (room_state r), joined_audioPort = lineAudioPort c,
          joined_clockPort = lineClockPort c, joined_roomName = lineRoomName c,
          joined_playback = shown_playback state r, joined = True\<rparr>, [])"
proof -
  note start = runHost_start_ok [OF assms(2) parsed_line_ok [OF assms(1)] assms(3)]
  define h where "h = loop_run es h0"
  have run: "announces (loop_control h0) (loop_room h0) h" unfolding h_def
    by (rule conjunct1 [OF run_announces [OF start(4) loop_reachable_ok [OF start(1)] assms(4)]])
  note ready = announces_announceable [OF run start(3)]
  have view: "room (control_view h) = Some (loop_room h)"
    "stream_sessionId (control_view h) = room_sessionId (room_state (loop_room h0))"
    "audioPort (control_view h) = lineAudioPort c" "clockPort (control_view h) = lineClockPort c"
    "roomName (room_state (loop_room h)) = lineRoomName c"
    using run start(5-8) by (simp_all add: control_view_def announces_def)
  have device: "''JOIN desktop-'' @ w = ''JOIN '' @ ''desktop-'' @ w" for w by simp
  show ?thesis unfolding h_def [symmetric] Let_def
    by (rule join_reads_room [OF view(1) ready assms(5-8), where early = helloNow, unfolded view(2-5) device])
qed

definition example_environment :: host_environment where
  "example_environment = \<lparr>playerLoaded = Inr \<lparr>fileRate = 48000, fileChannels = 2, fileFrames = 96000, durationSeconds = 2\<rparr>,
     roomDraws = [1, 2, 3, 4, 0, 0, 5, 0, 7, 8], numericIpv4 = (\<lambda>_. True),
     clockSocket = \<lparr>socketError = None, timeoutError = None, bindError = None\<rparr>, lan = example_lan,
     controlSocket = \<lparr>listenerCreated = True, listenerBound = True, listening = True, boundPort = Some 40102\<rparr>,
     startClock = 1000\<rparr>"

lemma example_runHost: "\<exists>h. runHost_start example_environment (CommandLine_new Host ''song.wav'') = Some (Inr h)"
proof -
  obtain r where r: "Room_create ''Tandem Audio'' ''desktop-host'' [1, 2, 3, 4, 0, 0, 5, 0, 7, 8] = Some (Inr r)"
  proof -
    have "\<exists>r. Room_create ''Tandem Audio'' ''desktop-host'' [1, 2, 3, 4, 0, 0, 5, 0, 7, 8] = Some (Inr r)"
      by (simp add: Room_create_def Let_def Room_new_def is_printable_def code_def flip: length_0_conv)
    then show thesis using that by blast
  qed
  have "\<exists>h. host_start state r (host_config (CommandLine_new Host ''song.wav'') s) 1000 = Inr h" for state s
    by (simp add: host_start_def host_config_def in_nanoseconds_def in_int64_def)
  then show ?thesis
    by (simp add: runHost_start_def example_environment_def open_host_def CommandLine_new_def r Let_def
        ClockSyncServer_new_def ControlServer_new_def)
qed

theorem room_joinable_any_time_witness:
  "\<exists>h0 hello answer st. runHost_start example_environment (CommandLine_new Host ''song.wav'') = Some (Inr h0) \<and>
    RoomJoinClient_new 40102 \<lparr>socketResult = Inr (), hostIsIpv4 = True, connectOk = True, joinTime = 77,
        exchange = (\<lambda>line. if line = hello_line then Inr hello
          else if line = line_of (''JOIN '' @ ''desktop-'' @ show_int 77) then Inr answer else Inr [])\<rparr> = Inr (st, []) \<and>
    joined_roomName st = ''Tandem Audio'' \<and> joined_audioPort st = 40100"
proof -
  let ?c = "CommandLine_new Host ''song.wav''" and ?es = "[Request ''PLAY'' 5 ''127.0.0.1'' new_session, Turn smooth]"
  obtain h0 where h0: "runHost_start example_environment ?c = Some (Inr h0)" using example_runHost by blast
  have args: "parseCommandLine [''host'', ''song.wav''] = Inr ?c"
    by (simp add: parseMode_def check_ports_def CommandLine_new_def)
  have dotted: "\<forall>a t. addressFormat (lan example_environment) a = Some t \<longrightarrow> dotted t"
    by (simp add: example_environment_def example_lan_def dotted_def is_word_def is_space_def is_printable_def code_def)
  have es: "\<forall>e \<in> set ?es. event_in_time e" by (simp add: in_int64_def)
  have times: "in_int64 77" "in_int64 (1000 + 500000000)" by (simp_all add: in_int64_def)
  have line: "lineAudioPort ?c = 40100" "lineRoomName ?c = ''Tandem Audio''" by (simp_all add: CommandLine_new_def)
  have peer: "''10.0.0.3'' \<noteq> []" "(40102 :: u16) \<noteq> 0" by simp_all
  note joined = room_joinable_any_time [OF args h0 dotted es peer(1) times peer(2), of 1, unfolded Let_def]
  then obtain hello answer st where "RoomJoinClient_new 40102 \<lparr>socketResult = Inr (), hostIsIpv4 = True, connectOk = True,
        joinTime = 77, exchange = (\<lambda>line. if line = hello_line then Inr hello
          else if line = line_of (''JOIN '' @ ''desktop-'' @ show_int 77) then Inr answer else Inr [])\<rparr> = Inr (st, [])"
      "joined_roomName st = lineRoomName ?c" "joined_audioPort st = lineAudioPort ?c"
    by (elim exE conjE) (rule that, assumption, simp_all only: JoinedRoomState.simps)
  then show ?thesis unfolding line using h0 by blast
qed

end
