(* ===== verification/Spec2Isabelle.thy ===== *)
theory Spec2Isabelle
  imports Prelude Wire_Bytes Audio_Packet Float_Round Clock_Sync Clock_Transport Playback_Clock
    Output_Latency Ordered_Map Jitter_Buffer Drift_Correction Text_Format Room Control_Channel Player_Runs
    Network_Impairment Udp_Audio Network_Host Packet_Receiver Stream_Player
    Command_Line Host_Loop Audio_Client Room_Client End_To_End Discovery Sockets Host_Setup
begin

text \<open>
  Verification of Tandem Audio, the C++ program that plays one audio file on several machines of a
  local network at the same time: its core library (\<open>core/\<close>) and its desktop engine (\<open>desktop/src/\<close>).

  \<^bold>\<open>The program.\<close> A host (\<open>runHost\<close> of \<open>desktop/src/main.cpp\<close>) creates a room, plays the file on its own
  device, decodes it a second time and sends it in datagrams that carry the time at which their first
  frame is to be heard. A TCP control server answers the clients of the room and schedules PLAY, PAUSE,
  SEEK and STOP two seconds ahead; a clock server answers probes. A client joins the room over TCP,
  estimates the offset between the two clocks from probes, collects the datagrams in a jitter buffer,
  starts its device so that the first frame is heard at its time, and from then on corrects its rate
  against the drift of the clocks. Host and clients run several threads: the prefetch thread and the
  device callback of the local player; the receiver thread, the device callback and the main thread of
  a client; the sessions of the control server and the loop of the host.

  \<^bold>\<open>Theories and sources.\<close>
  \<^item> \<open>Prelude\<close>: machine integers, exceptions as values (\<open>exn + 'a\<close>), sequencing (\<open>and_then\<close>), list lemmas.
  \<^item> \<open>Wire_Bytes\<close>, \<open>Audio_Packet\<close>: the audio datagram, \<open>core/src/PacketSerializer.cpp\<close>.
  \<^item> \<open>Float_Round\<close>: \<open>double\<close> and \<open>long double\<close> as rationals rounded to 53 and 64 bits after every operation.
  \<^item> \<open>Clock_Sync\<close>, \<open>Clock_Transport\<close>: the clock probe and its estimate, \<open>core/src/ClockSync.cpp\<close>, the loops of
    \<open>desktop/src/ClockSyncTransport.cpp\<close>.
  \<^item> \<open>Playback_Clock\<close>, \<open>Output_Latency\<close>: frames against time and the correction for the output path,
    \<open>core/src/PlaybackClock.cpp\<close>, \<open>core/src/OutputLatency.cpp\<close>.
  \<^item> \<open>Ordered_Map\<close>, \<open>Jitter_Buffer\<close>: \<open>std::map\<close> as used, \<open>core/src/JitterBuffer.cpp\<close>.
  \<^item> \<open>Drift_Correction\<close>: \<open>core/src/DriftCorrection.cpp\<close>.
  \<^item> \<open>Room\<close>: \<open>core/src/Room.cpp\<close>. \<open>Text_Format\<close>, \<open>Control_Channel\<close>: the protocol, the sessions and the accept loop
    of \<open>desktop/src/ControlChannel.cpp\<close>.
  \<^item> \<open>Audio_Player\<close>, \<open>Player_Ring\<close>, \<open>Player_Runs\<close>: the local player and its two threads on the ring,
    \<open>desktop/src/DesktopAudioPlayer.cpp\<close>.
  \<^item> \<open>Udp_Audio\<close>, \<open>Network_Host\<close>, \<open>Network_Impairment\<close>: \<open>UdpAudioSender.cpp\<close>, \<open>UdpAudioReceiver.cpp\<close>,
    \<open>DesktopNetworkHost.cpp\<close>, \<open>NetworkImpairment.cpp\<close> of \<open>desktop/src\<close>.
  \<^item> \<open>Packet_Receiver\<close>, \<open>Stream_Player\<close>, \<open>Audio_Client\<close>: the receiver thread, the device callback and the main
    thread of \<open>desktop/src/DesktopAudioClient.cpp\<close>.
  \<^item> \<open>Room_Client\<close>: \<open>RoomJoinClient.cpp\<close>, \<open>RoomControlClient.cpp\<close> and the loop of \<open>runRoomClient\<close> in \<open>main.cpp\<close>.
  \<^item> \<open>Discovery\<close>: names, records and answers of \<open>DiscoveryService.cpp\<close>. \<open>Sockets\<close>: \<open>sendLine\<close> and the
    constructors of the two servers.
  \<^item> \<open>Command_Line\<close>, \<open>Host_Setup\<close>, \<open>Host_Loop\<close>: options, exit status, set-up and loop of \<open>runHost\<close> in \<open>main.cpp\<close>.
  \<^item> \<open>End_To_End\<close>: host, network, receiver and jitter buffer together.

  Definitions have the names of the functions and types they model; a method takes the object as a
  record and returns it updated, and a prefix or a suffix \<open>_new\<close> marks constructors and fields whose
  names would clash.

  \<^bold>\<open>How the code is modelled.\<close> A function that may throw returns \<open>Inl\<close> of the exception or \<open>Inr\<close> of its
  result. Unsigned integers are words; a signed 64-bit value is an \<open>int\<close> whose arithmetic goes through
  \<open>signed64\<close>, which gives \<open>Signed_Overflow\<close> where C++ leaves the result undefined, and an access outside
  an array gives \<open>Out_Of_Bounds\<close>: theorems that exclude these values exclude the undefined behaviour. What
  a call outside the repository returns (sockets, clocks, the random device, miniaudio, the mDNS library)
  is an argument, usually one element per turn of a loop, so that a theorem holds for every behaviour of
  these calls its hypotheses admit. Threads are sequences of steps cut at every access to shared data;
  an access under a mutex is one step, \<open>try_lock\<close> is an argument. Loops that end by themselves are
  recursive functions with termination proofs; a loop that waits takes the list of what its turns meet,
  and a run whose list ends first is still waiting (\<open>None\<close>, or the state itself), so there is no fuel
  whose size matters; that a loop ends (of the sender, of the local player, of the client,
  of \<open>sendLine\<close>) is proved as such, with the number of turns it takes.

  \<^bold>\<open>What is shown.\<close>
  \<^item> Wire formats: packets and probes are read back as written, and rejected exactly when malformed.
  \<^item> Time: the conversions between frames and timestamps are exact up to one frame; a measurement is the
    median of the three fastest probes, and each estimate is off by at most half its round trip.
  \<^item> Jitter buffer: an invariant over all runs; a read gives the stored sample of every covered frame and
    silence elsewhere; what was played is never replaced.
  \<^item> Local player: the ring refines a bounded queue under all interleavings of its two threads, they never
    touch the same byte, and the device gets the file from where the segment starts.
  \<^item> Sender: the packets carry the source, all of it, in order and stamped with exact times; a pending
    command ends them on time. Receiver: exact loss statistics; foreign datagrams change nothing.
  \<^item> Across the network: whatever is lost, repeated or reordered, a client plays the file's sample for each
    frame of which a packet arrived and silence for the others.
  \<^item> Client: the callback stays in its buffers and interpolates between neighbours; playback starts at the
    scheduled time, two clients are heard at most half the sum of their round trips apart, and the loop steers
    to the frame the schedule names.
  \<^item> Room and control: every membership is held by a session, accepted actions are taken once and in order,
    only local sessions control, no request throws; the phases of the host agree with the room, and a
    client may join at any moment of any run that starts from a command line; discovery leads from the service type to the host's address and port.
  \<^item> Command line: exactly the well-formed lines are accepted.

  \<^bold>\<open>Interfaces.\<close> \<open>rounding\<close> (monotone, exact on short significands; interpreted for both precisions),
  \<open>byte_source\<close> (the readers of both serializers), \<open>ordered_map\<close> (the jitter buffer's map), \<open>std_sort\<close> and
  \<open>clock_selection\<close> (any sort that orders by the key and permutes; interpreted by \<open>sort_key\<close>), \<open>timeline\<close> (a
  clock on which a frame is due exactly from its time on), \<open>producer_consumer\<close> (the invariant of the ring
  over all its moves), \<open>membership\<close> (tokens that only their holder can use).

  \<^bold>\<open>Assumptions.\<close> Floating point: round to nearest even after every operation, no fused operations and no
  overflow of the exponent range. The operands of \<open>|\<close> in the byte readers are evaluated from the left. A decoder
  has at least one channel and returns what follows in the file. A request of a control session, which
  locks the room for its snapshot and for \<open>scheduleAction\<close> separately, is one step. A device callback is
  one step towards the main thread of a client. \<open>inet_ntop\<close> prints a word of at most 15 characters.
  POSIX sockets; release build. \<open>End_To_End\<close> is about fewer than 1024 packets before the first
  read, the number the jitter buffer holds, which is ten seconds of audio at the default packet length.

  \<^bold>\<open>Not modelled.\<close> The vendored \<open>mdns.h\<close> and miniaudio; the Windows branches of the socket code; the closing of
  sockets and joining of threads in destructors; the printed reports of \<open>main.cpp\<close> with \<open>runLocal\<close> and
  \<open>runClient\<close>, which only call modelled components and print; the impairment options and the detour through
  the simulator, which exist in debug builds only (the simulator itself is modelled); the graphical
  interface, the iOS application, packaging and tests.
\<close>

end
